(* ===== verification/Prelude.thy ===== *)
theory Prelude
  imports Main "HOL-Library.Word"
begin

text \<open>
  Shared vocabulary of the development: the machine-integer types of the C sources, byte
  strings, big- and little-endian integer layouts, C strings in fixed buffers, the first-match
  table scans the sources write as \<^verbatim>\<open>for\<close> loops with a \<^verbatim>\<open>break\<close>, bounds-checked
  memory writes, and the generic lemmas and \<^theory_text>\<open>named_theorems\<close> collections the component
  theories use.
\<close>

unbundle bit_operations_syntax

section \<open>Collections\<close>

named_theorems wire_simps \<open>unfolding of the wire layouts\<close>
named_theorems scan_simps \<open>facts on first-match table scans\<close>
named_theorems mem_simps \<open>facts on checked memory writes\<close>

section \<open>Machine integers and byte strings\<close>

type_synonym u8 = "8 word"
type_synonym u16 = "16 word"
type_synonym u32 = "32 word"
type_synonym u64 = "64 word"
type_synonym bytes = "8 word list"

text \<open>
  The integer \<open>n\<close> as \<open>k\<close> bytes, most significant first: what \<^verbatim>\<open>htobe16/32/64\<close> followed
  by \<^verbatim>\<open>memcpy\<close> puts in memory on any host. \<open>be_val\<close> is \<^verbatim>\<open>memcpy\<close> followed by
  \<^verbatim>\<open>be16toh/32/64\<close>.
\<close>

fun be_bytes :: "nat \<Rightarrow> nat \<Rightarrow> bytes" where
  "be_bytes 0 n = []"
| "be_bytes (Suc k) n = be_bytes k (n div 256) @ [of_nat n]"

definition be_val :: "bytes \<Rightarrow> nat" where
  "be_val bs = foldl (\<lambda>a b. a * 256 + unat b) 0 bs"

text \<open>
  Host byte order, for the integers the sources copy without conversion. The supported hosts
  (x86-64 and AArch64 Linux) are little-endian.
\<close>

definition le_bytes :: "nat \<Rightarrow> nat \<Rightarrow> bytes" where
  "le_bytes k n = rev (be_bytes k n)"

definition le_val :: "bytes \<Rightarrow> nat" where
  "le_val bs = be_val (rev bs)"

lemma length_be_bytes [simp]: "length (be_bytes k n) = k"
  by (induction k arbitrary: n) auto

lemma be_bytes_eq_Nil: "be_bytes k n = [] \<longleftrightarrow> k = 0"
  by (cases k) simp_all

lemma length_le_bytes [simp]: "length (le_bytes k n) = k"
  by (simp add: le_bytes_def)

lemma be_val_Nil [simp]: "be_val [] = 0"
  by (simp add: be_val_def)

lemma be_val_snoc [simp]: "be_val (bs @ [b]) = be_val bs * 256 + unat b"
  by (simp add: be_val_def)

lemma unat_bound: "unat (w :: 'a::len word) < 2 ^ LENGTH('a)"
  by (rule unsigned_less)

lemma unat_of_nat_byte: "unat (of_nat n :: 8 word) = n mod 256"
  by (simp add: unat_of_nat)

lemma be_val_be_bytes: "be_val (be_bytes k n) = n mod 256 ^ k"
proof (induction k arbitrary: n)
  case (Suc k)
  have "be_val (be_bytes (Suc k) n) = (n div 256) mod 256 ^ k * 256 + n mod 256"
    using Suc.IH by (simp add: unat_of_nat_byte)
  also have "\<dots> = n mod (256 * 256 ^ k)"
    by (simp add: mod_mult2_eq)
  finally show ?case by simp
qed simp

lemma be_val_bound: "be_val bs < 256 ^ length bs"
proof (induction bs rule: rev_induct)
  case (snoc b bs)
  have "unat b < 256"
    using unat_bound [of b] by simp
  with snoc show ?case by simp
qed simp

lemma be_bytes_be_val: "be_bytes (length bs) (be_val bs) = bs"
proof (induction bs rule: rev_induct)
  case (snoc b bs)
  have "unat b < 256"
    using unat_bound [of b] by simp
  moreover have "(of_nat (be_val bs * 256) :: 8 word) = 0"
  proof -
    have "(256 :: 8 word) = 0" by simp
    then show ?thesis by (metis mult_zero_right of_nat_mult of_nat_numeral)
  qed
  ultimately show ?case
    using snoc by (simp del: of_nat_mult)
qed simp

lemma le_val_le_bytes: "le_val (le_bytes k n) = n mod 256 ^ k"
  by (simp add: le_val_def le_bytes_def be_val_be_bytes)

lemma le_bytes_le_val: "le_bytes (length bs) (le_val bs) = bs"
  by (metis be_bytes_be_val le_bytes_def le_val_def length_rev rev_rev_ident)

text \<open>A word survives the trip through its big-endian or host-order layout.\<close>

lemma be_word16 [simp]: "of_nat (be_val (be_bytes 2 (unat w))) = (w :: u16)"
  using unat_bound [of w] by (simp add: be_val_be_bytes)

lemma be_word32 [simp]: "of_nat (be_val (be_bytes 4 (unat w))) = (w :: u32)"
  using unat_bound [of w] by (simp add: be_val_be_bytes)

lemma be_word64 [simp]: "of_nat (be_val (be_bytes 8 (unat w))) = (w :: u64)"
  using unat_bound [of w] by (simp add: be_val_be_bytes)

lemma le_word32 [simp]: "of_nat (le_val (le_bytes 4 (unat w))) = (w :: u32)"
  using unat_bound [of w] by (simp add: le_val_le_bytes)

section \<open>Slices\<close>

text \<open>\<open>bslice off k bs\<close> is what \<^verbatim>\<open>memcpy (dst, bs + off, k)\<close> reads.\<close>

definition bslice :: "nat \<Rightarrow> nat \<Rightarrow> 'a list \<Rightarrow> 'a list" where
  "bslice off k bs = take k (drop off bs)"

lemma length_bslice [simp]: "length (bslice off k bs) = min k (length bs - off)"
  by (simp add: bslice_def)

lemma slice_0: "bslice 0 k bs = take k bs"
  by (simp add: bslice_def)

lemma slice_append_skip: "length xs \<le> off \<Longrightarrow> bslice off k (xs @ ys) = bslice (off - length xs) k ys"
  by (simp add: bslice_def)

lemma slice_append_here: "length xs = k \<Longrightarrow> bslice 0 k (xs @ ys) = xs"
  by (simp add: bslice_def)

lemma slice_append_all: "length xs = off \<Longrightarrow> length ys = k \<Longrightarrow> bslice off k (xs @ ys @ zs) = ys"
  by (simp add: bslice_def)

lemma slice_Cons: "0 < off \<Longrightarrow> bslice off k (x # xs) = bslice (off - 1) k xs"
  by (cases off) (simp_all add: bslice_def)

lemma nth_bslice: "i < k \<Longrightarrow> off + i < length bs \<Longrightarrow> bslice off k bs ! i = bs ! (off + i)"
  by (simp add: bslice_def)

section \<open>C strings\<close>

text \<open>
  A C string is the list of its bytes before the terminating NUL. \<open>cstr_of\<close> reads a string out
  of a buffer; \<open>cstr_copy n s\<close> is \<^verbatim>\<open>strncpy (dst, s, n - 1)\<close> into a buffer of \<open>n\<close> bytes
  whose last byte is NUL. \<^verbatim>\<open>strcmp (a, b) == 0\<close> is equality.
\<close>

type_synonym cstr = "8 word list"

definition cstr_of :: "bytes \<Rightarrow> cstr" where
  "cstr_of bs = takeWhile (\<lambda>b. b \<noteq> 0) bs"

definition cstr_copy :: "nat \<Rightarrow> cstr \<Rightarrow> cstr" where
  "cstr_copy n s = take (n - 1) s"

text \<open>String literals, \<^verbatim>\<open>strchr\<close>-style cutting and \<^verbatim>\<open>atoi\<close> (for values that fit an \<^verbatim>\<open>int\<close>).\<close>

definition chars :: "string \<Rightarrow> cstr" where
  "chars s = map of_char s"

definition is_digit :: "u8 \<Rightarrow> bool" where
  "is_digit b \<longleftrightarrow> 48 \<le> b \<and> b \<le> 57"

definition atoi :: "cstr \<Rightarrow> int" where
  "atoi s =
     (let s1 = dropWhile (\<lambda>b. b = 32 \<or> 9 \<le> b \<and> b \<le> 13) s;
          neg = (s1 \<noteq> [] \<and> hd s1 = 45);
          s2 = (if s1 \<noteq> [] \<and> (hd s1 = 45 \<or> hd s1 = 43) then tl s1 else s1);
          n = foldl (\<lambda>a b. a * 10 + (uint b - 48)) 0 (takeWhile is_digit s2)
      in if neg then - n else n)"

lemma cstr_of_id: "0 \<notin> set s \<Longrightarrow> cstr_of s = s"
  by (auto simp: cstr_of_def takeWhile_eq_all_conv)

lemma cstr_of_no_nul: "0 \<notin> set (cstr_of bs)"
  by (auto simp: cstr_of_def dest: set_takeWhileD)

lemma length_cstr_of: "length (cstr_of bs) \<le> length bs"
  by (simp add: cstr_of_def length_takeWhile_le)

lemma cstr_copy_id: "length s < n \<Longrightarrow> cstr_copy n s = s"
  by (simp add: cstr_copy_def)

section \<open>First-match scans\<close>

text \<open>
  The index of the first entry that satisfies \<open>P\<close>: the \<^verbatim>\<open>for\<close> loops of the sources that
  scan a fixed table and \<^verbatim>\<open>break\<close> or \<^verbatim>\<open>return\<close> at the first match.
\<close>

fun find_index :: "('a \<Rightarrow> bool) \<Rightarrow> 'a list \<Rightarrow> nat option" where
  "find_index P [] = None"
| "find_index P (x # xs) = (if P x then Some 0 else map_option Suc (find_index P xs))"

lemma find_index_None_iff [scan_simps]: "find_index P xs = None \<longleftrightarrow> (\<forall>x \<in> set xs. \<not> P x)"
  by (induction xs) auto

lemma find_index_SomeD:
  "find_index P xs = Some i \<Longrightarrow> i < length xs \<and> P (xs ! i) \<and> (\<forall>j < i. \<not> P (xs ! j))"
proof (induction xs arbitrary: i)
  case (Cons x xs)
  show ?case
  proof (cases "P x")
    case False
    with Cons.prems obtain k where "find_index P xs = Some k" and "i = Suc k"
      by auto
    with Cons.IH [of k] False show ?thesis
      by (auto simp: less_Suc_eq_0_disj)
  qed (use Cons.prems in auto)
qed simp

lemma find_index_SomeI:
  "i < length xs \<Longrightarrow> P (xs ! i) \<Longrightarrow> (\<forall>j < i. \<not> P (xs ! j)) \<Longrightarrow> find_index P xs = Some i"
proof (induction xs arbitrary: i)
  case (Cons x xs)
  show ?case
  proof (cases i)
    case (Suc k)
    with Cons have "find_index P xs = Some k" by fastforce
    with Suc Cons.prems show ?thesis by fastforce
  qed (use Cons.prems in auto)
qed simp

lemma find_index_Some_iff:
  "find_index P xs = Some i \<longleftrightarrow> i < length xs \<and> P (xs ! i) \<and> (\<forall>j < i. \<not> P (xs ! j))"
  using find_index_SomeD find_index_SomeI by metis

lemma find_index_unique:
  assumes "i < length xs" "P (xs ! i)" "\<And>j. j < length xs \<Longrightarrow> P (xs ! j) \<Longrightarrow> j = i"
  shows "find_index P xs = Some i"
proof -
  have "\<not> P (xs ! j)" if "j < i" for j
    using that assms(1) assms(3) [of j] by (metis less_trans nat_neq_iff)
  then show ?thesis
    using find_index_SomeI [of i xs P] assms(1,2) by blast
qed

lemma find_index_cong:
  "length xs = length ys \<Longrightarrow> (\<And>i. i < length xs \<Longrightarrow> P (xs ! i) = Q (ys ! i)) \<Longrightarrow>
   find_index P xs = find_index Q ys"
proof (induction xs ys rule: list_induct2)
  case (Cons x xs y ys)
  have "P x = Q y" using Cons.prems [of 0] by simp
  moreover have "find_index P xs = find_index Q ys"
    using Cons.prems [of "Suc i" for i] by (intro Cons.IH) auto
  ultimately show ?case by simp
qed simp

lemma find_index_update:
  "P x = P (xs ! i) \<Longrightarrow> find_index P (xs[i := x]) = find_index P xs"
  by (rule find_index_cong) (simp, metis length_list_update nth_list_update_eq nth_list_update_neq)

lemma find_index_ex: "i < length xs \<Longrightarrow> P (xs ! i) \<Longrightarrow> \<exists>j \<le> i. find_index P xs = Some j"
proof (cases "find_index P xs")
  case (Some j)
  assume "i < length xs" "P (xs ! i)"
  with find_index_SomeD [OF Some] Some show ?thesis by (meson not_le)
qed (auto simp: scan_simps)

lemma option_ext: "(\<And>v. a = Some v \<longleftrightarrow> b = Some v) \<Longrightarrow> a = b"
  by (cases a; cases b) auto

section \<open>Checked memory\<close>

text \<open>
  Undefined behaviour of the C code is a value: an operation that would read or write outside
  an object, or through a null pointer, returns \<open>Inl\<close> of the fault instead of a state.
\<close>

datatype fault = OutOfBounds | NullDeref

text \<open>\<^verbatim>\<open>memcpy (dst + off, src, n)\<close> into an object of \<^term>\<open>length dst\<close> bytes.\<close>

definition put_bytes :: "nat \<Rightarrow> 'a list \<Rightarrow> 'a list \<Rightarrow> fault + 'a list" where
  "put_bytes off src dst =
     (if off + length src \<le> length dst
      then Inr (take off dst @ src @ drop (off + length src) dst) else Inl OutOfBounds)"

lemma put_bytes_Inr_iff [mem_simps]:
  "put_bytes off src dst = Inr d \<longleftrightarrow>
   off + length src \<le> length dst \<and> d = take off dst @ src @ drop (off + length src) dst"
  by (auto simp: put_bytes_def)

lemma length_put_bytes: "put_bytes off src dst = Inr d \<Longrightarrow> length d = length dst"
  by (auto simp: mem_simps)

text \<open>Sequencing of operations that may fault.\<close>

definition bindf :: "'e + 'a \<Rightarrow> ('a \<Rightarrow> 'e + 'b) \<Rightarrow> 'e + 'b" where
  "bindf m f = (case m of Inl e \<Rightarrow> Inl e | Inr x \<Rightarrow> f x)"

lemma bindf_simps [simp]: "bindf (Inl e) f = Inl e" "bindf (Inr x) f = f x"
  by (simp_all add: bindf_def)

lemma bindf_Inr_iff: "bindf m f = Inr y \<longleftrightarrow> (\<exists>x. m = Inr x \<and> f x = Inr y)"
  by (cases m) auto

lemma bindf_Inl_iff: "bindf m f = Inl e \<longleftrightarrow> m = Inl e \<or> (\<exists>x. m = Inr x \<and> f x = Inl e)"
  by (cases m) auto

section \<open>Counting\<close>

text \<open>The number of set flags of a mask, as the sources keep it in a counter.\<close>

definition count_true :: "bool list \<Rightarrow> nat" where
  "count_true m = length (filter id m)"

lemma count_true_le: "count_true m \<le> length m"
  by (simp add: count_true_def)

lemma count_true_replicate_False [simp]: "count_true (replicate n False) = 0"
  by (simp add: count_true_def)

lemma count_true_append [simp]: "count_true (xs @ ys) = count_true xs + count_true ys"
  by (simp add: count_true_def)

lemma count_true_Cons [simp]: "count_true (b # bs) = (if b then 1 else 0) + count_true bs"
  by (simp add: count_true_def)

lemma count_true_Nil [simp]: "count_true [] = 0"
  by (simp add: count_true_def)

lemma count_true_set:
  "i < length m \<Longrightarrow> \<not> m ! i \<Longrightarrow> count_true (m[i := True]) = Suc (count_true m)"
  by (induction m arbitrary: i) (auto split: nat.splits)

end
