(* ===== verification/Fec.thy ===== *)
theory Fec
  imports Prelude
begin

text \<open>
  \<^verbatim>\<open>fec.c\<close>: creation, encoding and decoding of a forward-error-correction context over
  Reed-Solomon (nanors) or RaptorQ (nanorq). The two codec libraries are not part of the
  repository: they are the fields of the parameter record \<open>fec_lib\<close>, opaque functions over opaque
  handle types. What the code relies on is stated by the predicates \<open>rs_mds\<close> (any \<open>m\<close> of \<open>k + m\<close>
  shards may be erased) and \<open>rq_solves\<close> (once the intermediate symbols are solved from \<open>k\<close>
  encoding symbols, every encoding symbol can be regenerated).
\<close>

section \<open>Codec libraries\<close>

datatype fec_type = FEC_REED_SOLOMON | FEC_RAPTORQ

record rq_mem_reqs =
  prepare_bytes :: nat
  work_bytes :: nat
  schedule_bytes :: nat
  matrix_bytes :: nat

record ('rs, 'rq, 'sc) fec_lib =
  rs_new :: "nat \<Rightarrow> nat \<Rightarrow> 'rs option"
  rs_encode :: "'rs \<Rightarrow> bytes list \<Rightarrow> nat \<Rightarrow> nat \<Rightarrow> bytes list"
  rs_decode :: "'rs \<Rightarrow> bytes list \<Rightarrow> u8 list \<Rightarrow> nat \<Rightarrow> nat \<Rightarrow> int \<times> bytes list"
  rq_encoder_new :: "nat \<Rightarrow> nat \<Rightarrow> 'rq option"
  rq_get_memory_reqs :: "nat \<Rightarrow> nat \<Rightarrow> nat \<Rightarrow> rq_mem_reqs"
  rq_prepare :: "'rq \<Rightarrow> nat \<Rightarrow> 'rq option"
  rq_genc_offset :: "'rq \<Rightarrow> nat"
  rq_replace_symbol :: "'rq \<Rightarrow> nat \<Rightarrow> nat \<Rightarrow> 'rq"
  rq_patch_matrix :: "'rq \<Rightarrow> 'rq"
  rq_precalculate :: "'rq \<Rightarrow> nat \<Rightarrow> nat \<Rightarrow> ('rq \<times> 'sc) option"
  rq_ops_run :: "'rq \<Rightarrow> bytes \<Rightarrow> nat \<Rightarrow> 'sc \<Rightarrow> bytes"
  rq_ops_mix :: "'rq \<Rightarrow> bytes \<Rightarrow> nat \<Rightarrow> nat \<Rightarrow> bytes"
  sizeof_sched_op :: nat

section \<open>Contexts\<close>

text \<open>
  \<^verbatim>\<open>struct fec_t\<close>. The scratch arrays \<^verbatim>\<open>shards\<close>, \<^verbatim>\<open>marks\<close> and the RaptorQ work buffers
  are rebuilt by every call before they are read, so the model keeps of them only the size of
  the matrix buffer, which bounds the row copies.
\<close>

record 'rs fec =
  f_type :: fec_type
  f_rs :: "'rs option"
  f_data_symbols :: nat
  f_parity_symbols :: nat
  f_symbol_size :: nat
  f_matrix_size :: nat

definition SIZEOF_FEC_T :: nat where "SIZEOF_FEC_T = 120"

text \<open>
  \<open>alloc n\<close> says whether an allocation of \<open>n\<close> bytes succeeds; products of sizes wrap as
  \<^verbatim>\<open>size_t\<close> does.
\<close>

definition size_mul :: "nat \<Rightarrow> nat \<Rightarrow> nat" where
  "size_mul a b = (a * b) mod 2 ^ 64"

definition fec_create_ex ::
  "('rs, 'rq, 'sc) fec_lib \<Rightarrow> (nat \<Rightarrow> bool) \<Rightarrow> fec_type \<Rightarrow> nat \<Rightarrow> nat \<Rightarrow> nat \<Rightarrow> 'rs fec option" where
  "fec_create_ex L alloc ty data_symbols parity_symbols symbol_size =
     (if \<not> alloc SIZEOF_FEC_T then None
      else
        let f = \<lparr>f_type = ty, f_rs = None, f_data_symbols = data_symbols,
                 f_parity_symbols = parity_symbols, f_symbol_size = symbol_size,
                 f_matrix_size = 0\<rparr>
        in (case ty of
              FEC_REED_SOLOMON \<Rightarrow>
                (case rs_new L data_symbols parity_symbols of
                   None \<Rightarrow> None
                 | Some rs \<Rightarrow>
                     let total_symbols = data_symbols + parity_symbols in
                     if \<not> alloc (total_symbols * 8) \<or> \<not> alloc total_symbols then None
                     else Some (f\<lparr>f_rs := Some rs\<rparr>))
            | FEC_RAPTORQ \<Rightarrow>
                (let reqs = rq_get_memory_reqs L data_symbols 0 symbol_size in
                 if \<not> alloc (size_mul data_symbols symbol_size) \<or>
                    \<not> alloc (size_mul parity_symbols symbol_size) \<or>
                    \<not> alloc (prepare_bytes reqs) \<or> \<not> alloc (work_bytes reqs) \<or>
                    \<not> alloc (schedule_bytes reqs) \<or> \<not> alloc (matrix_bytes reqs) \<or>
                    \<not> alloc (size_mul data_symbols 4) \<or> \<not> alloc (size_mul parity_symbols 4)
                 then None
                 else Some (f\<lparr>f_matrix_size := matrix_bytes reqs\<rparr>))))"

definition fec_create ::
  "('rs, 'rq, 'sc) fec_lib \<Rightarrow> (nat \<Rightarrow> bool) \<Rightarrow> nat \<Rightarrow> nat \<Rightarrow> nat \<Rightarrow> 'rs fec option" where
  "fec_create L alloc data_symbols parity_symbols symbol_size =
     fec_create_ex L alloc FEC_REED_SOLOMON data_symbols parity_symbols symbol_size"

section \<open>Encoding\<close>

text \<open>Rows of the RaptorQ matrix: copy each listed block to its row, in order.\<close>

fun put_rows :: "nat \<Rightarrow> nat \<Rightarrow> (nat \<times> bytes) list \<Rightarrow> bytes \<Rightarrow> fault + bytes" where
  "put_rows SH sz [] D = Inr D"
| "put_rows SH sz ((i, b) # rows) D =
     (if length b < sz then Inl OutOfBounds
      else case put_bytes ((SH + i) * sz) (take sz b) D of
             Inl e \<Rightarrow> Inl e
           | Inr D' \<Rightarrow> put_rows SH sz rows D')"

text \<open>The result is the pair of the data and the parity blocks after the call.\<close>

definition rs_encode_blocks ::
  "('rs, 'rq, 'sc) fec_lib \<Rightarrow> 'rs fec \<Rightarrow> bytes list \<Rightarrow> bytes list \<Rightarrow> fault + bytes list \<times> bytes list" where
  "rs_encode_blocks L f data_blocks parity_blocks =
     (case f_rs f of
        None \<Rightarrow> Inl NullDeref
      | Some rs \<Rightarrow>
          let total_symbols = f_data_symbols f + f_parity_symbols f;
              shards = map (\<lambda>i. data_blocks ! i) [0..<f_data_symbols f] @
                       map (\<lambda>i. parity_blocks ! i) [0..<f_parity_symbols f];
              shards' = rs_encode L rs shards total_symbols (f_symbol_size f)
          in Inr (take (f_data_symbols f) shards', drop (f_data_symbols f) shards'))"

definition rq_encode_blocks ::
  "('rs, 'rq, 'sc) fec_lib \<Rightarrow> 'rs fec \<Rightarrow> bytes list \<Rightarrow> bytes list \<Rightarrow> fault + bytes list \<times> bytes list" where
  "rq_encode_blocks L f data_blocks parity_blocks =
     (case rq_encoder_new L (f_data_symbols f) 0 of
        None \<Rightarrow> Inr (data_blocks, parity_blocks)
      | Some enc0 \<Rightarrow>
          let reqs = rq_get_memory_reqs L (f_data_symbols f) 0 (f_symbol_size f) in
          (case rq_prepare L enc0 (prepare_bytes reqs) of
             None \<Rightarrow> Inr (data_blocks, parity_blocks)
           | Some enc1 \<Rightarrow>
               let SH = rq_genc_offset L enc1 in
               bindf (put_rows SH (f_symbol_size f)
                        (map (\<lambda>i. (i, data_blocks ! i)) [0..<f_data_symbols f])
                        (replicate (f_matrix_size f) 0))
                 (\<lambda>D. case rq_precalculate L enc1 (work_bytes reqs)
                               (schedule_bytes reqs div sizeof_sched_op L) of
                        None \<Rightarrow> Inr (data_blocks, parity_blocks)
                      | Some (enc2, S) \<Rightarrow>
                          let D' = rq_ops_run L enc2 D (f_symbol_size f) S in
                          Inr (data_blocks,
                               map (\<lambda>i. rq_ops_mix L enc2 D' (f_symbol_size f)
                                           (f_data_symbols f + i))
                                 [0..<f_parity_symbols f]))))"

definition fec_encode ::
  "('rs, 'rq, 'sc) fec_lib \<Rightarrow> 'rs fec \<Rightarrow> bytes list \<Rightarrow> bytes list \<Rightarrow> fault + bytes list \<times> bytes list" where
  "fec_encode L f data_blocks parity_blocks =
     (if length data_blocks < f_data_symbols f \<or> length parity_blocks < f_parity_symbols f
      then Inl OutOfBounds
      else case f_type f of
             FEC_REED_SOLOMON \<Rightarrow> rs_encode_blocks L f data_blocks parity_blocks
           | FEC_RAPTORQ \<Rightarrow> rq_encode_blocks L f data_blocks parity_blocks)"

section \<open>Decoding\<close>

definition rs_decode_blocks ::
  "('rs, 'rq, 'sc) fec_lib \<Rightarrow> 'rs fec \<Rightarrow> bytes list \<Rightarrow> bool list \<Rightarrow> fault + bool \<times> bytes list" where
  "rs_decode_blocks L f blocks missing_mask =
     (case f_rs f of
        None \<Rightarrow> Inl NullDeref
      | Some rs \<Rightarrow>
          let total_symbols = f_data_symbols f + f_parity_symbols f;
              shards = map (\<lambda>i. blocks ! i) [0..<total_symbols];
              marks = map (\<lambda>i. if missing_mask ! i then 1 else 0) [0..<total_symbols];
              (res, shards') = rs_decode L rs shards marks total_symbols (f_symbol_size f)
          in Inr (res = 0, shards' @ drop total_symbols blocks))"

definition dropped_esis :: "nat \<Rightarrow> bool list \<Rightarrow> nat list" where
  "dropped_esis data_symbols missing = filter (\<lambda>i. missing ! i) [0..<data_symbols]"

definition repair_esis :: "nat \<Rightarrow> nat \<Rightarrow> bool list \<Rightarrow> nat list" where
  "repair_esis data_symbols parity_symbols missing =
     filter (\<lambda>e. \<not> missing ! e) (map (\<lambda>i. data_symbols + i) [0..<parity_symbols])"

fun rq_replace_all :: "('rs, 'rq, 'sc) fec_lib \<Rightarrow> (nat \<times> nat) list \<Rightarrow> 'rq \<Rightarrow> 'rq" where
  "rq_replace_all L [] c = c"
| "rq_replace_all L ((d, r) # ps) c = rq_replace_all L ps (rq_replace_symbol L c d r)"

definition rq_decode_blocks ::
  "('rs, 'rq, 'sc) fec_lib \<Rightarrow> 'rs fec \<Rightarrow> bytes list \<Rightarrow> bool list \<Rightarrow> fault + bool \<times> bytes list" where
  "rq_decode_blocks L f blocks missing_mask =
     (let k = f_data_symbols f; sz = f_symbol_size f;
          dropped = dropped_esis k missing_mask;
          repair = repair_esis k (f_parity_symbols f) missing_mask
      in if length repair < length dropped then Inr (False, blocks)
         else if dropped = [] then Inr (True, blocks)
         else case rq_encoder_new L k 0 of
                None \<Rightarrow> Inr (False, blocks)
              | Some dec0 \<Rightarrow>
                  let reqs = rq_get_memory_reqs L k 0 sz in
                  (case rq_prepare L dec0 (prepare_bytes reqs) of
                     None \<Rightarrow> Inr (False, blocks)
                   | Some dec1 \<Rightarrow>
                       let dec2 = rq_patch_matrix L (rq_replace_all L (zip dropped repair) dec1) in
                       (case rq_precalculate L dec2 (work_bytes reqs)
                               (schedule_bytes reqs div sizeof_sched_op L) of
                          None \<Rightarrow> Inr (False, blocks)
                        | Some (dec3, S) \<Rightarrow>
                            let SH = rq_genc_offset L dec3 in
                            bindf (put_rows SH sz
                                     (map (\<lambda>i. (i, blocks ! i))
                                        (filter (\<lambda>i. \<not> missing_mask ! i) [0..<k]))
                                     (replicate (f_matrix_size f) 0))
                              (\<lambda>D1. bindf (put_rows SH sz
                                     (map (\<lambda>(d, r). (d, blocks ! r)) (zip dropped repair)) D1)
                                (\<lambda>D2. let D3 = rq_ops_run L dec3 D2 sz S in
                                   Inr (True,
                                     fold (\<lambda>d bl. bl[d := rq_ops_mix L dec3 D3 sz d])
                                       dropped blocks))))))"

definition fec_decode ::
  "('rs, 'rq, 'sc) fec_lib \<Rightarrow> 'rs fec \<Rightarrow> bytes list \<Rightarrow> bool list \<Rightarrow> fault + bool \<times> bytes list" where
  "fec_decode L f blocks missing_mask =
     (if length blocks < f_data_symbols f + f_parity_symbols f \<or>
         length missing_mask < f_data_symbols f + f_parity_symbols f
      then Inl OutOfBounds
      else case f_type f of
             FEC_REED_SOLOMON \<Rightarrow> rs_decode_blocks L f blocks missing_mask
           | FEC_RAPTORQ \<Rightarrow> rq_decode_blocks L f blocks missing_mask)"

section \<open>Matrix rows\<close>

abbreviation mat_row :: "nat \<Rightarrow> nat \<Rightarrow> bytes \<Rightarrow> nat \<Rightarrow> bytes" where
  "mat_row SH sz D i \<equiv> bslice ((SH + i) * sz) sz D"

lemma nth_put_bytes:
  assumes "put_bytes off src dst = Inr d" "n < length dst"
  shows "d ! n = (if off \<le> n \<and> n < off + length src then src ! (n - off) else dst ! n)"
  using assms by (auto simp: mem_simps nth_append min_def)

lemma row_apart: "i \<noteq> (j :: nat) \<Longrightarrow> i * sz + sz \<le> j * sz \<or> j * sz + sz \<le> i * sz"
proof -
  assume "i \<noteq> j"
  then have "Suc i \<le> j \<or> Suc j \<le> i" by auto
  then show ?thesis
    by (metis add.commute mult_Suc mult_le_mono1)
qed

lemma put_row_rows:
  assumes put: "put_bytes ((SH + i) * sz) x D = Inr D'" and len: "length x = sz"
  shows "mat_row SH sz D' j = (if j = i then x else mat_row SH sz D j)"
proof (rule nth_equalityI)
  have bound: "(SH + i) * sz + sz \<le> length D" and D': "length D' = length D"
    using put len length_put_bytes [OF put] by (auto simp: mem_simps)
  then show lens: "length (mat_row SH sz D' j) = length (if j = i then x else mat_row SH sz D j)"
    using len by auto
  fix n assume "n < length (mat_row SH sz D' j)"
  then have n: "n < sz" "(SH + j) * sz + n < length D"
    using D' by auto
  show "mat_row SH sz D' j ! n = (if j = i then x else mat_row SH sz D j) ! n"
    using n D' len nth_put_bytes [OF put n(2)] row_apart [of "SH + i" "SH + j" sz]
    by (auto simp: nth_bslice)
qed

lemma put_rows_ConsE:
  assumes "put_rows SH sz ((i, b) # rows) D = Inr D'"
  obtains D1 where "put_bytes ((SH + i) * sz) (take sz b) D = Inr D1"
    and "put_rows SH sz rows D1 = Inr D'" and "length (take sz b) = sz"
    and "length D1 = length D"
  using assms by (auto split: if_splits sum.splits dest: length_put_bytes)

lemma put_rows_length: "put_rows SH sz rows D = Inr D' \<Longrightarrow> length D' = length D"
  by (induction rows arbitrary: D) (auto elim!: put_rows_ConsE simp del: put_rows.simps(2))

lemma put_rows_other:
  "put_rows SH sz rows D = Inr D' \<Longrightarrow> j \<notin> fst ` set rows \<Longrightarrow> mat_row SH sz D' j = mat_row SH sz D j"
proof (induction rows arbitrary: D)
  case (Cons ib rows)
  obtain i b where ib: "ib = (i, b)" by (cases ib)
  with Cons.prems show ?case
    using Cons.IH by (auto elim!: put_rows_ConsE simp: put_row_rows simp del: put_rows.simps(2))
qed simp

lemma put_rows_here:
  "put_rows SH sz rows D = Inr D' \<Longrightarrow> distinct (map fst rows) \<Longrightarrow> (i, b) \<in> set rows \<Longrightarrow>
   mat_row SH sz D' i = take sz b"
proof (induction rows arbitrary: D)
  case (Cons jc rows)
  obtain j c where jc: "jc = (j, c)" by (cases jc)
  with Cons.prems obtain D1 where D1: "put_bytes ((SH + j) * sz) (take sz c) D = Inr D1"
    "put_rows SH sz rows D1 = Inr D'" "length (take sz c) = sz"
    by (auto elim!: put_rows_ConsE simp del: put_rows.simps(2))
  show ?case
  proof (cases "(i, b) \<in> set rows")
    case True
    with Cons D1(2) show ?thesis by simp
  next
    case False
    with Cons.prems jc have "i = j" "b = c" "i \<notin> fst ` set rows" by auto
    with put_rows_other [OF D1(2)] put_row_rows [OF D1(1,3)] show ?thesis by simp
  qed
qed simp

lemma put_rows_outside:
  "put_rows SH sz rows D = Inr D' \<Longrightarrow> n < length D \<Longrightarrow>
   (\<forall>i \<in> fst ` set rows. n < (SH + i) * sz \<or> (SH + i) * sz + sz \<le> n) \<Longrightarrow> D' ! n = D ! n"
proof (induction rows arbitrary: D)
  case (Cons ib rows)
  obtain i b where ib: "ib = (i, b)" by (cases ib)
  with Cons.prems obtain D1 where D1: "put_bytes ((SH + i) * sz) (take sz b) D = Inr D1"
    "put_rows SH sz rows D1 = Inr D'" "length (take sz b) = sz" "length D1 = length D"
    by (auto elim!: put_rows_ConsE simp del: put_rows.simps(2))
  from D1 Cons.prems have "D' ! n = D1 ! n"
    by (intro Cons.IH) auto
  also have "\<dots> = D ! n"
    using nth_put_bytes [OF D1(1) Cons.prems(2)] D1(3) Cons.prems(3) ib by auto
  finally show ?case .
qed simp

lemma put_rows_ok:
  assumes "\<And>i b. (i, b) \<in> set rows \<Longrightarrow> (SH + i) * sz + sz \<le> length D \<and> sz \<le> length b"
  shows "\<exists>D'. put_rows SH sz rows D = Inr D'"
  using assms
proof (induction rows arbitrary: D)
  case (Cons ib rows)
  obtain i b where ib: "ib = (i, b)" by (cases ib)
  have fits: "(SH + i) * sz + sz \<le> length D" "sz \<le> length b"
    using Cons.prems [of i b] ib by auto
  then obtain D1 where D1: "put_bytes ((SH + i) * sz) (take sz b) D = Inr D1"
    by (auto simp: put_bytes_def)
  then have "\<exists>D'. put_rows SH sz rows D1 = Inr D'"
    using Cons.prems length_put_bytes [OF D1] by (intro Cons.IH) auto
  with D1 fits ib show ?case by auto
qed simp

section \<open>What the codecs promise\<close>

text \<open>
  Reed-Solomon: encoding \<open>k\<close> data shards of one size is systematic and makes shards of that size, and from the code word with
  at most \<open>m\<close> shards erased (marked non-zero, contents arbitrary) decoding returns 0 and restores
  the data shards.
\<close>

definition blocks_of :: "nat \<Rightarrow> nat \<Rightarrow> bytes list \<Rightarrow> bool" where
  "blocks_of n sz bl \<longleftrightarrow> length bl = n \<and> (\<forall>b \<in> set bl. length b = sz)"

definition rs_mds :: "('rs, 'rq, 'sc) fec_lib \<Rightarrow> bool" where
  "rs_mds L \<longleftrightarrow>
     (\<forall>k m sz rs data par. rs_new L k m = Some rs \<longrightarrow> blocks_of k sz data \<longrightarrow> blocks_of m sz par \<longrightarrow>
        (let cw = rs_encode L rs (data @ par) (k + m) sz in
         blocks_of (k + m) sz cw \<and> take k cw = data \<and>
         (\<forall>shards marks. blocks_of (k + m) sz shards \<longrightarrow> length marks = k + m \<longrightarrow>
            (\<forall>i < k + m. marks ! i = 0 \<longrightarrow> shards ! i = cw ! i) \<longrightarrow>
            count_true (map (\<lambda>x. x \<noteq> 0) marks) \<le> m \<longrightarrow>
            fst (rs_decode L rs shards marks (k + m) sz) = 0 \<and>
            take k (snd (rs_decode L rs shards marks (k + m) sz)) = data \<and>
            length (snd (rs_decode L rs shards marks (k + m) sz)) = k + m)))"

text \<open>
  RaptorQ: \<open>esym k data e\<close> is the encoding symbol with identifier \<open>e\<close>, systematic for \<open>e < k\<close>. A
  core obtained by replacing source identifiers by repair identifiers and solved successfully
  regenerates every encoding symbol from a matrix whose row \<open>i\<close> holds the symbol of the \<open>i\<close>-th
  identifier in use and which is zero elsewhere.
\<close>

definition rq_pipeline ::
  "('rs, 'rq, 'sc) fec_lib \<Rightarrow> nat \<Rightarrow> nat \<Rightarrow> (nat \<times> nat) list \<Rightarrow> ('rq \<times> 'rq \<times> 'sc) option" where
  "rq_pipeline L k sz repl =
     (case rq_encoder_new L k 0 of
        None \<Rightarrow> None
      | Some c0 \<Rightarrow>
          let reqs = rq_get_memory_reqs L k 0 sz in
          (case rq_prepare L c0 (prepare_bytes reqs) of
             None \<Rightarrow> None
           | Some c1 \<Rightarrow>
               map_option (\<lambda>(c3, S). (c1, c3, S))
                 (rq_precalculate L
                    (if repl = [] then c1 else rq_patch_matrix L (rq_replace_all L repl c1))
                    (work_bytes reqs) (schedule_bytes reqs div sizeof_sched_op L))))"

definition esi_of :: "(nat \<times> nat) list \<Rightarrow> nat \<Rightarrow> nat" where
  "esi_of repl i = (case map_of repl i of Some r \<Rightarrow> r | None \<Rightarrow> i)"

definition rq_matrix_of ::
  "('rs, 'rq, 'sc) fec_lib \<Rightarrow> nat \<Rightarrow> nat \<Rightarrow> 'rq \<Rightarrow> (nat \<Rightarrow> bytes) \<Rightarrow> bytes \<Rightarrow> bool" where
  "rq_matrix_of L k sz c rows D \<longleftrightarrow>
     length D = matrix_bytes (rq_get_memory_reqs L k 0 sz) \<and>
     (\<forall>i < k. mat_row (rq_genc_offset L c) sz D i = rows i) \<and>
     (\<forall>n < length D. n < rq_genc_offset L c * sz \<or> (rq_genc_offset L c + k) * sz \<le> n \<longrightarrow> D ! n = 0)"

definition rq_solves :: "('rs, 'rq, 'sc) fec_lib \<Rightarrow> (nat \<Rightarrow> bytes list \<Rightarrow> nat \<Rightarrow> bytes) \<Rightarrow> bool" where
  "rq_solves L esym \<longleftrightarrow>
     (\<forall>k sz repl c1 c3 S data. rq_pipeline L k sz repl = Some (c1, c3, S) \<longrightarrow>
        distinct (map fst repl) \<longrightarrow> distinct (map snd repl) \<longrightarrow>
        (\<forall>(d, r) \<in> set repl. d < k \<and> k \<le> r) \<longrightarrow> blocks_of k sz data \<longrightarrow>
        rq_genc_offset L c3 = rq_genc_offset L c1 \<and>
        (rq_genc_offset L c3 + k) * sz \<le> matrix_bytes (rq_get_memory_reqs L k 0 sz) \<and>
        (\<forall>e. length (esym k data e) = sz) \<and> (\<forall>e < k. esym k data e = data ! e) \<and>
        (\<forall>D e. rq_matrix_of L k sz c3 (\<lambda>i. esym k data (esi_of repl i)) D \<longrightarrow>
           rq_ops_mix L c3 (rq_ops_run L c3 D sz S) sz e = esym k data e))"

lemma fec_create_ex_fields:
  "fec_create_ex L alloc ty k m sz = Some f \<Longrightarrow>
   f_type f = ty \<and> f_data_symbols f = k \<and> f_parity_symbols f = m \<and> f_symbol_size f = sz \<and>
   (ty = FEC_REED_SOLOMON \<longrightarrow> (\<exists>rs. f_rs f = Some rs \<and> rs_new L k m = Some rs)) \<and>
   (ty = FEC_RAPTORQ \<longrightarrow> f_matrix_size f = matrix_bytes (rq_get_memory_reqs L k 0 sz))"
  by (auto simp: fec_create_ex_def Let_def split: if_splits fec_type.splits option.splits)

lemma rs_roundtrip:
  assumes mds: "rs_mds L" and f: "fec_create_ex L alloc FEC_REED_SOLOMON k m sz = Some f"
    and data: "blocks_of k sz data" and par: "blocks_of m sz par"
  shows "\<exists>par'. fec_encode L f data par = Inr (data, par') \<and> blocks_of m sz par' \<and>
    (\<forall>blocks missing. blocks_of (k + m) sz blocks \<longrightarrow> length missing = k + m \<longrightarrow>
       (\<forall>i < k + m. \<not> missing ! i \<longrightarrow> blocks ! i = (data @ par') ! i) \<longrightarrow>
       count_true missing \<le> m \<longrightarrow>
       (\<exists>out. fec_decode L f blocks missing = Inr (True, out) \<and> take k out = data \<and>
              length out = k + m))"
proof -
  obtain rs where rs: "f_rs f = Some rs" "rs_new L k m = Some rs"
    and fs: "f_type f = FEC_REED_SOLOMON" "f_data_symbols f = k" "f_parity_symbols f = m"
      "f_symbol_size f = sz"
    using fec_create_ex_fields [OF f] by auto
  let ?cw = "rs_encode L rs (data @ par) (k + m) sz"
  have cw: "blocks_of (k + m) sz ?cw" "take k ?cw = data"
    and dec: "\<And>shards marks. blocks_of (k + m) sz shards \<Longrightarrow> length marks = k + m \<Longrightarrow>
      (\<forall>i < k + m. marks ! i = 0 \<longrightarrow> shards ! i = ?cw ! i) \<Longrightarrow>
      count_true (map (\<lambda>x. x \<noteq> 0) marks) \<le> m \<Longrightarrow>
      fst (rs_decode L rs shards marks (k + m) sz) = 0 \<and>
      take k (snd (rs_decode L rs shards marks (k + m) sz)) = data \<and>
      length (snd (rs_decode L rs shards marks (k + m) sz)) = k + m"
    using mds rs(2) data par unfolding rs_mds_def Let_def by blast+
  have lens: "length data = k" "length par = m"
    using data par by (auto simp: blocks_of_def)
  have par': "blocks_of m sz (drop k ?cw)"
    using cw(1) set_drop_subset [of k ?cw] by (auto simp: blocks_of_def)
  have enc: "fec_encode L f data par = Inr (data, drop k ?cw)"
    using rs fs lens cw map_nth [of data] map_nth [of par]
    by (simp add: fec_encode_def rs_encode_blocks_def Let_def)
  have "\<exists>out. fec_decode L f blocks missing = Inr (True, out) \<and> take k out = data \<and>
      length out = k + m"
    if b: "blocks_of (k + m) sz blocks" and l: "length missing = k + m"
      and agree: "\<forall>i < k + m. \<not> missing ! i \<longrightarrow> blocks ! i = (data @ drop k ?cw) ! i"
      and few: "count_true missing \<le> m" for blocks missing
  proof -
    let ?marks = "map (\<lambda>i. if missing ! i then 1 else 0 :: u8) [0..<k + m]"
    have "map (\<lambda>x. x \<noteq> 0) ?marks = missing"
      using l by (auto intro!: nth_equalityI split: if_splits)
    moreover have "data @ drop k ?cw = ?cw"
      using cw(2) by (metis append_take_drop_id)
    moreover have bl: "length blocks = k + m"
      using b by (simp add: blocks_of_def)
    ultimately have "fst (rs_decode L rs blocks ?marks (k + m) sz) = 0 \<and>
        take k (snd (rs_decode L rs blocks ?marks (k + m) sz)) = data \<and>
        length (snd (rs_decode L rs blocks ?marks (k + m) sz)) = k + m"
      using agree few b by (intro dec) (auto split: if_splits)
    moreover have "map (\<lambda>i. blocks ! i) [0..<k + m] = blocks"
      using bl by (metis map_nth)
    ultimately show ?thesis
      using rs fs bl l by (auto simp: fec_decode_def rs_decode_blocks_def Let_def split: prod.splits)
  qed
  with enc par' show ?thesis by auto
qed

lemma rq_pipelineI:
  assumes "rq_encoder_new L k 0 = Some c0"
    "rq_prepare L c0 (prepare_bytes (rq_get_memory_reqs L k 0 sz)) = Some c1"
    "rq_precalculate L (if repl = [] then c1 else rq_patch_matrix L (rq_replace_all L repl c1))
       (work_bytes (rq_get_memory_reqs L k 0 sz))
       (schedule_bytes (rq_get_memory_reqs L k 0 sz) div sizeof_sched_op L) = Some (c3, S)"
  shows "rq_pipeline L k sz repl = Some (c1, c3, S)"
  using assms by (simp add: rq_pipeline_def Let_def)

lemma rq_solvesD:
  assumes "rq_solves L esym" "rq_pipeline L k sz repl = Some (c1, c3, S)"
    "distinct (map fst repl)" "distinct (map snd repl)" "\<forall>(d, r) \<in> set repl. d < k \<and> k \<le> r"
    "blocks_of k sz data"
  shows "rq_genc_offset L c3 = rq_genc_offset L c1"
    and "(rq_genc_offset L c3 + k) * sz \<le> matrix_bytes (rq_get_memory_reqs L k 0 sz)"
    and "\<And>e. length (esym k data e) = sz" and "\<And>e. e < k \<Longrightarrow> esym k data e = data ! e"
    and "\<And>D e. rq_matrix_of L k sz c3 (\<lambda>i. esym k data (esi_of repl i)) D \<Longrightarrow>
      rq_ops_mix L c3 (rq_ops_run L c3 D sz S) sz e = esym k data e"
  using assms unfolding rq_solves_def by blast+

lemma row_fits: "i < k \<Longrightarrow> (SH + k) * sz \<le> n \<Longrightarrow> (SH + i) * sz + sz \<le> (n::nat)"
proof -
  assume "i < k" and n: "(SH + k) * sz \<le> n"
  then have "(SH + Suc i) * sz \<le> (SH + k) * sz"
    by (intro mult_le_mono1) simp
  with n show ?thesis by simp
qed

lemma row_region:
  assumes "i < k" "n < SH * sz \<or> (SH + k) * sz \<le> n"
  shows "n < (SH + i) * sz \<or> (SH + i) * sz + sz \<le> (n::nat)"
  using assms(2)
proof
  assume "n < SH * sz"
  moreover have "SH * sz \<le> (SH + i) * sz" by simp
  ultimately show ?thesis by linarith
qed (use row_fits [OF assms(1), of SH sz n] in simp)

text \<open>Filling a fresh matrix with one block per source row builds the matrix the solver expects.\<close>

lemma put_rows_matrix:
  assumes put: "put_rows (rq_genc_offset L c) sz rows
                  (replicate (matrix_bytes (rq_get_memory_reqs L k 0 sz)) 0) = Inr D"
    and dist: "distinct (map fst rows)" and dom: "fst ` set rows = {..<k}"
    and val: "\<And>i b. (i, b) \<in> set rows \<Longrightarrow> take sz b = v i"
  shows "rq_matrix_of L k sz c v D"
proof -
  have "mat_row (rq_genc_offset L c) sz D i = v i" if i: "i < k" for i
  proof -
    from i dom have "i \<in> fst ` set rows" by simp
    then obtain b where "(i, b) \<in> set rows" by auto
    with put_rows_here [OF put dist] val show ?thesis by simp
  qed
  moreover have "D ! n = 0"
    if n: "n < length D" "n < rq_genc_offset L c * sz \<or> (rq_genc_offset L c + k) * sz \<le> n" for n
  proof -
    have "D ! n = replicate (matrix_bytes (rq_get_memory_reqs L k 0 sz)) 0 ! n"
      using n dom row_region [OF _ n(2)] put_rows_length [OF put]
      by (intro put_rows_outside [OF put]) auto
    with n put_rows_length [OF put] show ?thesis by simp
  qed
  ultimately show ?thesis
    using put_rows_length [OF put] by (simp add: rq_matrix_of_def)
qed

lemma rq_encode_symbols:
  assumes solves: "rq_solves L esym" and f: "fec_create_ex L alloc FEC_RAPTORQ k m sz = Some f"
    and data: "blocks_of k sz data" and par: "length par = m"
    and avail: "rq_pipeline L k sz [] = Some (c1, c3, S)"
  shows "fec_encode L f data par = Inr (data, map (esym k data) [k..<k + m])"
proof -
  have fs: "f_type f = FEC_RAPTORQ" "f_data_symbols f = k" "f_parity_symbols f = m"
    "f_symbol_size f = sz" "f_matrix_size f = matrix_bytes (rq_get_memory_reqs L k 0 sz)"
    using fec_create_ex_fields [OF f] by auto
  note facts = rq_solvesD [OF solves avail _ _ _ data, simplified]
  let ?rows = "map (\<lambda>i. (i, data ! i)) [0..<k]"
  obtain D where D: "put_rows (rq_genc_offset L c1) sz ?rows
      (replicate (matrix_bytes (rq_get_memory_reqs L k 0 sz)) 0) = Inr D"
  proof -
    have "\<exists>D'. put_rows (rq_genc_offset L c1) sz ?rows
      (replicate (matrix_bytes (rq_get_memory_reqs L k 0 sz)) 0) = Inr D'"
      using facts(1,2) data row_fits [of _ k]
      by (intro put_rows_ok) (auto simp: blocks_of_def)
    then show ?thesis using that by blast
  qed
  have "rq_matrix_of L k sz c1 (\<lambda>i. esym k data i) D"
    using facts(4) data
    by (intro put_rows_matrix [OF D]) (auto simp: blocks_of_def comp_def image_image)
  then have "rq_matrix_of L k sz c3 (\<lambda>i. esym k data (esi_of [] i)) D"
    using facts(1) by (simp add: rq_matrix_of_def esi_of_def)
  then have mix: "rq_ops_mix L c3 (rq_ops_run L c3 D sz S) sz e = esym k data e" for e
    by (rule facts(5))
  have "map (\<lambda>i. esym k data (k + i)) [0..<m] = map (esym k data) [k..<k + m]"
    by (intro nth_equalityI) auto
  then show ?thesis
    using avail fs data par D mix
    by (auto simp: fec_encode_def rq_encode_blocks_def rq_pipeline_def Let_def blocks_of_def
        split: option.splits prod.splits)
qed

lemma dropped_esis_props:
  "distinct (dropped_esis k missing)" "i \<in> set (dropped_esis k missing) \<longleftrightarrow> i < k \<and> missing ! i"
  by (auto simp: dropped_esis_def)

lemma repair_esis_props:
  "distinct (repair_esis k m missing)"
  "i \<in> set (repair_esis k m missing) \<longleftrightarrow> k \<le> i \<and> i < k + m \<and> \<not> missing ! i"
proof -
  show "distinct (repair_esis k m missing)"
    by (simp add: repair_esis_def distinct_map inj_on_def)
  have "(\<exists>j. j < m \<and> i = k + j) \<longleftrightarrow> k \<le> i \<and> i < k + m"
    by (metis add_less_cancel_left le_Suc_ex le_add1)
  then show "i \<in> set (repair_esis k m missing) \<longleftrightarrow> k \<le> i \<and> i < k + m \<and> \<not> missing ! i"
    by (auto simp: repair_esis_def)
qed

lemma fold_restore_nth:
  "i < length bl \<Longrightarrow> fold (\<lambda>d bl. bl[d := g d]) ds bl ! i = (if i \<in> set ds then g i else bl ! i)"
  by (induction ds arbitrary: bl) (auto simp: nth_list_update)

lemma length_fold_restore [simp]: "length (fold (\<lambda>d bl. bl[d := g d]) ds bl) = length bl"
  by (induction ds arbitrary: bl) auto

text \<open>The replacement pairs and the two passes over the rows, for one erasure pattern.\<close>

lemma rq_decode_rows:
  assumes "length (dropped_esis k missing) \<le> length (repair_esis k m missing)"
    and agree: "\<forall>i < k + m. \<not> missing ! i \<longrightarrow> blocks ! i = esym i"
  defines "repl \<equiv> zip (dropped_esis k missing) (repair_esis k m missing)"
    and "rows \<equiv> map (\<lambda>i. (i, blocks ! i)) (filter (\<lambda>i. \<not> missing ! i) [0..<k]) @
       map (\<lambda>(d, r). (d, blocks ! r)) (zip (dropped_esis k missing) (repair_esis k m missing))"
  shows "distinct (map fst repl)" "distinct (map snd repl)" "\<forall>(d, r) \<in> set repl. d < k \<and> k \<le> r"
    and "distinct (map fst rows)" "fst ` set rows = {..<k}"
    and "\<And>i b. (i, b) \<in> set rows \<Longrightarrow> b = esym (esi_of repl i)"
proof -
  let ?d = "dropped_esis k missing" and ?r = "repair_esis k m missing"
  have fst_repl: "map fst repl = ?d"
    using assms(1) by (simp add: repl_def map_fst_zip_take)
  have snd_repl: "map snd repl = take (length ?d) ?r"
    using assms(1) by (simp add: repl_def map_snd_zip_take)
  show d1: "distinct (map fst repl)" and "distinct (map snd repl)"
    using fst_repl snd_repl by (simp_all add: dropped_esis_props repair_esis_props)
  have mem: "d < k \<and> missing ! d \<and> k \<le> r \<and> r < k + m \<and> \<not> missing ! r" if "(d, r) \<in> set repl" for d r
    using set_zip_leftD [OF that [unfolded repl_def]] set_zip_rightD [OF that [unfolded repl_def]]
    by (auto simp: dropped_esis_props repair_esis_props)
  then show "\<forall>(d, r) \<in> set repl. d < k \<and> k \<le> r" by auto
  have fst_rows: "map fst rows = filter (\<lambda>i. \<not> missing ! i) [0..<k] @ ?d"
    using fst_repl by (simp add: rows_def repl_def comp_def case_prod_unfold)
  show "distinct (map fst rows)"
    unfolding fst_rows by (auto simp: dropped_esis_props)
  have "set (map fst rows) = {..<k}"
    unfolding fst_rows by (auto simp: dropped_esis_props)
  then show "fst ` set rows = {..<k}" by simp
  show "b = esym (esi_of repl i)" if ib: "(i, b) \<in> set rows" for i b
  proof (cases "(i, b) \<in> set (map (\<lambda>i. (i, blocks ! i)) (filter (\<lambda>i. \<not> missing ! i) [0..<k]))")
    case True
    then have i: "i < k" "\<not> missing ! i" "b = blocks ! i" by auto
    then have "i \<notin> fst ` set repl" using mem by force
    then have "map_of repl i = None" by (simp add: map_of_eq_None_iff)
    with i agree show ?thesis by (simp add: esi_of_def)
  next
    case False
    with ib obtain r where r: "(i, r) \<in> set repl" "b = blocks ! r"
      unfolding rows_def repl_def by auto
    with d1 have "map_of repl i = Some r" by simp
    with r mem [OF r(1)] agree show ?thesis by (simp add: esi_of_def)
  qed
qed

lemma put_rows_append:
  "put_rows SH sz (xs @ ys) D = bindf (put_rows SH sz xs D) (put_rows SH sz ys)"
  by (induction xs arbitrary: D) (auto split: sum.splits)

text \<open>
  Decoding can work: nothing is lost, or the lost data symbols are covered by as many repair
  symbols and the library solves the system with the first of them in their place.
\<close>

definition rq_decodable :: "('rs, 'rq, 'sc) fec_lib \<Rightarrow> nat \<Rightarrow> nat \<Rightarrow> nat \<Rightarrow> bool list \<Rightarrow> bool" where
  "rq_decodable L k m sz missing \<longleftrightarrow>
     dropped_esis k missing = [] \<or>
     length (dropped_esis k missing) \<le> length (repair_esis k m missing) \<and>
     rq_pipeline L k sz (zip (dropped_esis k missing) (repair_esis k m missing)) \<noteq> None"

lemma rq_decode_symbols:
  assumes solves: "rq_solves L esym" and f: "fec_create_ex L alloc FEC_RAPTORQ k m sz = Some f"
    and data: "blocks_of k sz data"
    and lens: "length blocks = k + m" "length missing = k + m"
    and agree: "\<forall>i < k + m. \<not> missing ! i \<longrightarrow> blocks ! i = esym k data i"
    and sys: "\<forall>e < k. esym k data e = data ! e"
  shows "\<exists>ok out. fec_decode L f blocks missing = Inr (ok, out) \<and> (ok \<longleftrightarrow> rq_decodable L k m sz missing) \<and>
    (ok \<longrightarrow> take k out = data \<and> length out = k + m) \<and>
    (ok \<longrightarrow> (\<forall>i < k + m. k \<le> i \<or> \<not> missing ! i \<longrightarrow> out ! i = blocks ! i)) \<and>
    (\<not> ok \<longrightarrow> out = blocks)"
proof -
  have fs: "f_type f = FEC_RAPTORQ" "f_data_symbols f = k" "f_parity_symbols f = m"
    "f_symbol_size f = sz" "f_matrix_size f = matrix_bytes (rq_get_memory_reqs L k 0 sz)"
    using fec_create_ex_fields [OF f] by auto
  let ?d = "dropped_esis k missing" and ?r = "repair_esis k m missing"
  have dk: "length data = k" using data by (simp add: blocks_of_def)
  have whole: "take k out = data" if "length out = k + m" "\<And>i. i < k \<Longrightarrow> out ! i = esym k data i" for out
    using that sys dk by (intro nth_equalityI) auto
  show ?thesis
  proof (cases "length ?r < length ?d \<or> ?d = [] \<or> rq_pipeline L k sz (zip ?d ?r) = None")
    case True
    moreover have "take k blocks = data" if "?d = []"
    proof (rule whole [OF lens(1)])
      fix i assume "i < k"
      moreover from this that have "\<not> missing ! i"
        using dropped_esis_props(2) [of i k missing] by auto
      ultimately show "blocks ! i = esym k data i" using agree by simp
    qed
    ultimately show ?thesis
      using fs lens by (auto simp: fec_decode_def rq_decode_blocks_def Let_def rq_pipeline_def
          rq_decodable_def split: option.splits if_splits)
  next
    case False
    then obtain c1 c3 S where few: "length ?d \<le> length ?r" "?d \<noteq> []"
      and pipe: "rq_pipeline L k sz (zip ?d ?r) = Some (c1, c3, S)"
      by auto
    note rows = rq_decode_rows [OF few(1) agree]
    note facts = rq_solvesD [OF solves pipe rows(1-3) data]
    let ?rows = "map (\<lambda>i. (i, blocks ! i)) (filter (\<lambda>i. \<not> missing ! i) [0..<k]) @
       map (\<lambda>(d, r). (d, blocks ! r)) (zip ?d ?r)"
    have "\<exists>D. put_rows (rq_genc_offset L c3) sz ?rows
        (replicate (matrix_bytes (rq_get_memory_reqs L k 0 sz)) 0) = Inr D"
    proof (rule put_rows_ok)
      fix i b assume ib: "(i, b) \<in> set ?rows"
      from imageI [OF ib, of fst] have "i < k" unfolding rows(5) by simp
      then show "(rq_genc_offset L c3 + i) * sz + sz
          \<le> length (replicate (matrix_bytes (rq_get_memory_reqs L k 0 sz)) (0 :: u8)) \<and> sz \<le> length b"
        using row_fits [of i k _ sz] facts(2,3) rows(6) [OF ib] by simp
    qed
    then obtain D where D: "put_rows (rq_genc_offset L c3) sz ?rows
        (replicate (matrix_bytes (rq_get_memory_reqs L k 0 sz)) 0) = Inr D" ..
    have "rq_matrix_of L k sz c3 (\<lambda>i. esym k data (esi_of (zip ?d ?r) i)) D"
    proof (rule put_rows_matrix [OF D rows(4,5)])
      fix i b assume "(i, b) \<in> set ?rows"
      from rows(6) [OF this] facts(3) show "take sz b = esym k data (esi_of (zip ?d ?r) i)" by simp
    qed
    then have mix: "rq_ops_mix L c3 (rq_ops_run L c3 D sz S) sz e = esym k data e" for e
      by (rule facts(5))
    let ?out = "fold (\<lambda>d bl. bl[d := esym k data d]) ?d blocks"
    have "?r \<noteq> []" using few by auto
    then have "fec_decode L f blocks missing = Inr (True, ?out)"
      using D fs lens few pipe mix
      by (auto simp: fec_decode_def rq_decode_blocks_def Let_def rq_pipeline_def put_rows_append
          bindf_Inr_iff split: option.splits prod.splits)
    moreover have "take k ?out = data"
      using agree lens by (intro whole) (auto simp: fold_restore_nth dropped_esis_props)
    moreover have "\<forall>i < k + m. k \<le> i \<or> \<not> missing ! i \<longrightarrow> ?out ! i = blocks ! i"
      using lens by (auto simp: fold_restore_nth dropped_esis_props)
    moreover have "rq_decodable L k m sz missing"
      using few pipe by (simp add: rq_decodable_def)
    ultimately show ?thesis using lens by auto
  qed
qed

section \<open>A concrete codec\<close>

text \<open>
  The repetition code of one data symbol: the smallest codec that keeps both promises, used to
  show that they can hold.
\<close>

definition repetition_lib :: "(nat, nat, unit) fec_lib" where
  "repetition_lib = \<lparr>
     rs_new = (\<lambda>k m. if k = 1 then Some m else None),
     rs_encode = (\<lambda>rs shards total sz. replicate total (shards ! 0)),
     rs_decode = (\<lambda>rs shards marks total sz.
        case find_index (\<lambda>x. x = 0) marks of
          None \<Rightarrow> (-1, shards)
        | Some i \<Rightarrow> (0, replicate total (shards ! i))),
     rq_encoder_new = (\<lambda>k overhead. if k = 1 then Some k else None),
     rq_get_memory_reqs = (\<lambda>k overhead sz.
        \<lparr>prepare_bytes = 0, work_bytes = 0, schedule_bytes = 0, matrix_bytes = k * sz\<rparr>),
     rq_prepare = (\<lambda>c n. Some c),
     rq_genc_offset = (\<lambda>c. 0),
     rq_replace_symbol = (\<lambda>c d r. c),
     rq_patch_matrix = (\<lambda>c. c),
     rq_precalculate = (\<lambda>c w n. Some (c, ())),
     rq_ops_run = (\<lambda>c D sz S. D),
     rq_ops_mix = (\<lambda>c D sz e. take sz D),
     sizeof_sched_op = 8\<rparr>"

lemma count_true_all_if_no_index:
  "find_index (\<lambda>x. x = 0) marks = None \<Longrightarrow> count_true (map (\<lambda>x. x \<noteq> (0::u8)) marks) = length marks"
  by (induction marks) auto

lemma repetition_rs_mds: "rs_mds repetition_lib"
  unfolding rs_mds_def Let_def
proof (intro allI impI conjI)
  fix k m sz rs data par shards and marks :: "u8 list"
  assume new: "rs_new repetition_lib k m = Some rs" and data: "blocks_of k sz data"
  then have k: "k = 1" by (simp add: repetition_lib_def split: if_splits)
  then obtain x where x: "data = [x]"
    using data by (auto simp: blocks_of_def length_Suc_conv)
  let ?cw = "rs_encode repetition_lib rs (data @ par) (k + m) sz"
  show "blocks_of (k + m) sz ?cw" "take k ?cw = data"
    using k x data by (auto simp: repetition_lib_def blocks_of_def)
  assume marks: "length marks = k + m" and agree: "\<forall>i < k + m. marks ! i = 0 \<longrightarrow> shards ! i = ?cw ! i"
    and few: "count_true (map (\<lambda>x. x \<noteq> 0) marks) \<le> m"
  obtain i where i: "find_index (\<lambda>x. x = 0) marks = Some i"
    using count_true_all_if_no_index [of marks] few marks k by fastforce
  then have "shards ! i = x"
    using find_index_SomeD [OF i] agree marks x k by (simp add: repetition_lib_def nth_Cons split: nat.splits)
  then show "fst (rs_decode repetition_lib rs shards marks (k + m) sz) = 0"
    "take k (snd (rs_decode repetition_lib rs shards marks (k + m) sz)) = data"
    "length (snd (rs_decode repetition_lib rs shards marks (k + m) sz)) = k + m"
    using i k x by (simp_all add: repetition_lib_def)
qed

lemma repetition_rq_solves: "rq_solves repetition_lib (\<lambda>k data e. data ! 0)"
  unfolding rq_solves_def
proof (intro allI impI)
  fix k sz repl c1 c3 S and data :: "bytes list"
  assume "rq_pipeline repetition_lib k sz repl = Some (c1, c3, S)" and data: "blocks_of k sz data"
  then have k: "k = 1"
    by (simp add: rq_pipeline_def repetition_lib_def split: if_splits)
  then obtain x where "data = [x]" "length x = sz"
    using data by (auto simp: blocks_of_def length_Suc_conv)
  then show "rq_genc_offset repetition_lib c3 = rq_genc_offset repetition_lib c1 \<and>
    (rq_genc_offset repetition_lib c3 + k) * sz
      \<le> matrix_bytes (rq_get_memory_reqs repetition_lib k 0 sz) \<and>
    (\<forall>e. length (data ! 0) = sz) \<and> (\<forall>e < k. data ! 0 = data ! e) \<and>
    (\<forall>D e. rq_matrix_of repetition_lib k sz c3 (\<lambda>i. data ! 0) D \<longrightarrow>
       rq_ops_mix repetition_lib c3 (rq_ops_run repetition_lib c3 D sz S) sz e = data ! 0)"
    using k by (simp add: repetition_lib_def rq_matrix_of_def bslice_def)
qed

section \<open>Properties\<close>

text \<open>
  C16. Reed-Solomon contexts recover: a context made by \<^verbatim>\<open>fec_create_ex\<close> encodes \<open>k\<close> data
  blocks without touching them, and from any arrival pattern that misses at most as many of the
  \<open>k + m\<close> blocks as there are parity blocks \<^verbatim>\<open>fec_decode\<close> returns true with all data blocks
  restored.
\<close>

theorem fec_rs_recovers:
  assumes "rs_mds L" and "fec_create_ex L alloc FEC_REED_SOLOMON k m sz = Some f"
    and "blocks_of k sz data" and "blocks_of m sz par"
  shows "\<exists>par'. fec_encode L f data par = Inr (data, par') \<and>
    (\<forall>blocks missing. blocks_of (k + m) sz blocks \<longrightarrow> length missing = k + m \<longrightarrow>
       (\<forall>i < k + m. \<not> missing ! i \<longrightarrow> blocks ! i = (data @ par') ! i) \<longrightarrow>
       count_true missing \<le> m \<longrightarrow>
       (\<exists>out. fec_decode L f blocks missing = Inr (True, out) \<and> take k out = data))"
  using rs_roundtrip [OF assms] by blast

theorem fec_rs_recovers_witness:
  "\<exists>out. fec_decode repetition_lib
       (the (fec_create_ex repetition_lib (\<lambda>_. True) FEC_REED_SOLOMON 1 2 3))
       [[0, 0, 0], [5, 5, 5], [7, 8, 9]] [True, True, False] = Inr (True, out) \<and> take 1 out = [[7, 8, 9]]"
proof -
  let ?f = "the (fec_create_ex repetition_lib (\<lambda>_. True) FEC_REED_SOLOMON 1 2 3)"
  have f: "fec_create_ex repetition_lib (\<lambda>_. True) FEC_REED_SOLOMON 1 2 3 = Some ?f"
    by (simp add: fec_create_ex_def repetition_lib_def)
  have "fec_encode repetition_lib ?f [[7, 8, 9]] [[0, 0, 0], [0, 0, 0]] =
      Inr ([[7, 8, 9]], [[7, 8, 9], [7, 8, 9]])"
    by code_simp
  with fec_rs_recovers [OF repetition_rs_mds f, of "[[7, 8, 9]]" "[[0, 0, 0], [0, 0, 0]]"]
  have "blocks_of (1 + 2) 3 blocks \<longrightarrow> length missing = 1 + 2 \<longrightarrow>
       (\<forall>i < 1 + 2. \<not> missing ! i \<longrightarrow> blocks ! i = ([[7, 8, 9]] @ [[7, 8, 9], [7, 8, 9]]) ! i) \<longrightarrow>
       count_true missing \<le> 2 \<longrightarrow>
       (\<exists>out. fec_decode repetition_lib ?f blocks missing = Inr (True, out) \<and> take 1 out = [[7, 8, 9]])"
    for blocks missing
    by (simp add: blocks_of_def)
  from this [of "[[0, 0, 0], [5, 5, 5], [7, 8, 9]]" "[True, True, False]"] show ?thesis
    by (simp add: blocks_of_def less_Suc_eq numeral_3_eq_3)
qed

text \<open>
  C17. RaptorQ contexts are sound: encoding yields the repair symbols that follow the \<open>k\<close> source
  symbols. Decoding never faults and returns true exactly when nothing is missing, or as many repair
  symbols arrived as data symbols are missing and the library can solve with them; it writes no block
  but a missing data block, and then the data blocks are the encoded ones; when it returns false
  nothing changed.
\<close>

theorem fec_rq_sound:
  assumes "rq_solves L esym" and "fec_create_ex L alloc FEC_RAPTORQ k m sz = Some f"
    and "blocks_of k sz data" and "length par = m"
    and "rq_pipeline L k sz [] = Some (c1, c3, S)"
  shows "fec_encode L f data par = Inr (data, map (esym k data) [k..<k + m]) \<and>
    (\<forall>blocks missing. length blocks = k + m \<longrightarrow> length missing = k + m \<longrightarrow>
       (\<forall>i < k + m. \<not> missing ! i \<longrightarrow> blocks ! i = (data @ map (esym k data) [k..<k + m]) ! i) \<longrightarrow>
       (\<exists>out. fec_decode L f blocks missing = Inr (rq_decodable L k m sz missing, out) \<and>
          (if rq_decodable L k m sz missing
           then take k out = data \<and>
             (\<forall>i < k + m. k \<le> i \<or> \<not> missing ! i \<longrightarrow> out ! i = blocks ! i)
           else out = blocks)))"
proof -
  have sys: "\<forall>e < k. esym k data e = data ! e"
    using rq_solvesD(4) [OF assms(1,5) _ _ _ assms(3)] by simp
  have dk: "length data = k" using assms(3) by (simp add: blocks_of_def)
  have cw: "(data @ map (esym k data) [k..<k + m]) ! i = esym k data i" if "i < k + m" for i
    using that sys dk by (simp add: nth_append)
  show ?thesis
  proof (intro conjI allI impI)
    show "fec_encode L f data par = Inr (data, map (esym k data) [k..<k + m])"
      by (rule rq_encode_symbols [OF assms])
    fix blocks missing
    assume lens: "length blocks = k + m" "length missing = k + m"
      and "\<forall>i < k + m. \<not> missing ! i \<longrightarrow> blocks ! i = (data @ map (esym k data) [k..<k + m]) ! i"
    then have "\<forall>i < k + m. \<not> missing ! i \<longrightarrow> blocks ! i = esym k data i"
      using cw by simp
    from rq_decode_symbols [OF assms(1-3) lens this sys]
    show "\<exists>out. fec_decode L f blocks missing = Inr (rq_decodable L k m sz missing, out) \<and>
          (if rq_decodable L k m sz missing
           then take k out = data \<and>
             (\<forall>i < k + m. k \<le> i \<or> \<not> missing ! i \<longrightarrow> out ! i = blocks ! i)
           else out = blocks)" by auto
  qed
qed

theorem fec_rq_sound_witness:
  "\<exists>out. fec_decode repetition_lib
       (the (fec_create_ex repetition_lib (\<lambda>_. True) FEC_RAPTORQ 1 2 3))
       [[0, 0, 0], [5, 5, 5], [7, 8, 9]] [True, True, False] = Inr (True, out) \<and> take 1 out = [[7, 8, 9]]"
proof -
  let ?f = "the (fec_create_ex repetition_lib (\<lambda>_. True) FEC_RAPTORQ 1 2 3)"
  have f: "fec_create_ex repetition_lib (\<lambda>_. True) FEC_RAPTORQ 1 2 3 = Some ?f"
    by (simp add: fec_create_ex_def repetition_lib_def)
  have pipe: "rq_pipeline repetition_lib 1 3 [] = Some (1, 1, ())"
    by (simp add: rq_pipeline_def repetition_lib_def)
  have dec: "rq_decodable repetition_lib 1 2 3 [True, True, False]"
    by (simp add: rq_decodable_def rq_pipeline_def repetition_lib_def dropped_esis_def repair_esis_def numeral_2_eq_2)
  have cw: "[[0, 0, 0], [5, 5, 5], [7, 8, 9]] ! i = ([[7, 8, 9]] @ map (\<lambda>e. [[7, 8, 9]] ! 0) [1..<1 + 2]) ! i"
    if "i < 1 + 2" "\<not> [True, True, False] ! i" for i
    using that by (auto simp: less_Suc_eq numeral_3_eq_3)
  have "\<forall>blocks missing. length blocks = 1 + 2 \<longrightarrow> length missing = 1 + 2 \<longrightarrow>
       (\<forall>i < 1 + 2. \<not> missing ! i \<longrightarrow>
          blocks ! i = ([[7, 8, 9]] @ map (\<lambda>e. [[7, 8, 9]] ! 0) [1..<1 + 2]) ! i) \<longrightarrow>
       (\<exists>out. fec_decode repetition_lib ?f blocks missing =
            Inr (rq_decodable repetition_lib 1 2 3 missing, out) \<and>
          (if rq_decodable repetition_lib 1 2 3 missing
           then take 1 out = [[7, 8, 9]] \<and>
             (\<forall>i < 1 + 2. 1 \<le> i \<or> \<not> missing ! i \<longrightarrow> out ! i = blocks ! i)
           else out = blocks))"
    by (rule conjunct2 [OF fec_rq_sound [OF repetition_rq_solves f _ _ pipe, where par = "[[], []]"]])
      (simp_all add: blocks_of_def)
  from this [THEN spec, THEN spec, of "[[0, 0, 0], [5, 5, 5], [7, 8, 9]]" "[True, True, False]"] cw
  obtain out where out: "fec_decode repetition_lib ?f [[0, 0, 0], [5, 5, 5], [7, 8, 9]] [True, True, False] =
      Inr (rq_decodable repetition_lib 1 2 3 [True, True, False], out)"
    and data: "if rq_decodable repetition_lib 1 2 3 [True, True, False]
      then take 1 out = [[7, 8, 9]] \<and>
        (\<forall>i < 1 + 2. 1 \<le> i \<or> \<not> [True, True, False] ! i \<longrightarrow> out ! i = [[0, 0, 0], [5, 5, 5], [7, 8, 9]] ! i)
      else out = [[0, 0, 0], [5, 5, 5], [7, 8, 9]]"
    by auto
  from data dec have "take 1 out = [[7, 8, 9]]" by simp
  with out dec show ?thesis by (intro exI [of _ out]) simp
qed

end
