(* ===== verification/Fec_Cache.thy ===== *)
theory Fec_Cache
  imports Fec
begin

text \<open>
  \<^verbatim>\<open>get_cached_fec\<close> of \<^verbatim>\<open>transport_quicly.c\<close>: the least-recently-used cache of eight FEC
  contexts. The interface its two clients (publishing and reassembly) rely on is the locale
  \<open>fec_provider\<close>; the cache is an interpretation of it, and so is plain creation, which makes the
  cache a transparent replacement for \<^verbatim>\<open>fec_create_ex\<close>.
\<close>

section \<open>The provider interface\<close>

text \<open>\<open>fec_made\<close>: the context that creation with these parameters yields when memory suffices.\<close>

definition fec_made ::
  "('rs, 'rq, 'sc) fec_lib \<Rightarrow> fec_type \<Rightarrow> nat \<Rightarrow> nat \<Rightarrow> nat \<Rightarrow> 'rs fec \<Rightarrow> bool" where
  "fec_made L ty k m sz f \<longleftrightarrow> fec_create_ex L (\<lambda>_. True) ty k m sz = Some f"

lemma fec_create_ex_made: "fec_create_ex L alloc ty k m sz = Some f \<Longrightarrow> fec_made L ty k m sz f"
  by (auto simp: fec_made_def fec_create_ex_def Let_def split: if_splits fec_type.splits option.splits)

lemma fec_made_unique: "fec_made L ty k m sz f \<Longrightarrow> fec_made L ty k m sz g \<Longrightarrow> f = g"
  by (simp add: fec_made_def)

lemma fec_made_fields:
  "fec_made L ty k m sz f \<Longrightarrow>
   f_type f = ty \<and> f_data_symbols f = k \<and> f_parity_symbols f = m \<and> f_symbol_size f = sz"
  unfolding fec_made_def by (drule fec_create_ex_fields) simp

locale fec_provider =
  fixes L :: "('rs, 'rq, 'sc) fec_lib"
    and get :: "'e \<Rightarrow> 'c \<Rightarrow> fec_type \<Rightarrow> nat \<Rightarrow> nat \<Rightarrow> nat \<Rightarrow> 'rs fec option \<times> 'c"
    and invar :: "'c \<Rightarrow> bool"
  assumes get_made: "invar c \<Longrightarrow> fst (get e c ty k m sz) = Some f \<Longrightarrow> fec_made L ty k m sz f"
    and get_invar: "invar c \<Longrightarrow> invar (snd (get e c ty k m sz))"
begin

lemma get_stable:
  "invar c \<Longrightarrow> invar d \<Longrightarrow> fst (get e c ty k m sz) = Some f \<Longrightarrow> fst (get e' d ty k m sz) = Some g \<Longrightarrow> f = g"
  by (metis fec_made_unique get_made)

lemma get_fields:
  "invar c \<Longrightarrow> fst (get e c ty k m sz) = Some f \<Longrightarrow>
   f_type f = ty \<and> f_data_symbols f = k \<and> f_parity_symbols f = m \<and> f_symbol_size f = sz"
  by (meson fec_made_fields get_made)

text \<open>Blocks encoded with one peer's context decode with the other peer's.\<close>

lemma peers_interoperate:
  assumes "rs_mds L" "invar c" "invar d"
    and "fst (get e c FEC_REED_SOLOMON k m sz) = Some f"
    and "fst (get e' d FEC_REED_SOLOMON k m sz) = Some g"
    and "blocks_of k sz data" "blocks_of m sz par"
  shows "\<exists>par'. fec_encode L f data par = Inr (data, par') \<and> blocks_of m sz par' \<and>
    (\<forall>blocks missing. blocks_of (k + m) sz blocks \<longrightarrow> length missing = k + m \<longrightarrow>
       (\<forall>i < k + m. \<not> missing ! i \<longrightarrow> blocks ! i = (data @ par') ! i) \<longrightarrow>
       count_true missing \<le> m \<longrightarrow>
       (\<exists>out. fec_decode L g blocks missing = Inr (True, out) \<and> take k out = data \<and>
              length out = k + m))"
proof -
  have "f = g" using assms(2-5) by (rule get_stable)
  moreover have "fec_create_ex L (\<lambda>_. True) FEC_REED_SOLOMON k m sz = Some f"
    using get_made [OF assms(2,4)] by (simp add: fec_made_def)
  ultimately show ?thesis
    using rs_roundtrip [OF assms(1) _ assms(6,7)] by blast
qed

end

interpretation plain_fec: fec_provider L "\<lambda>alloc (u :: unit) ty k m sz. (fec_create_ex L alloc ty k m sz, u)" "\<lambda>_. True"
  for L :: "('rs, 'rq, 'sc) fec_lib"
  by unfold_locales (auto dest: fec_create_ex_made)

section \<open>The cache\<close>

record 'rs fec_cache_entry =
  ce_type :: fec_type
  ce_data_symbols :: nat
  ce_parity_symbols :: nat
  ce_symbol_size :: nat
  ce_fec :: "'rs fec option"
  ce_last_used_ns :: u64

definition FEC_CACHE_SIZE :: nat where "FEC_CACHE_SIZE = 8"

definition fec_cache_match :: "fec_type \<Rightarrow> nat \<Rightarrow> nat \<Rightarrow> nat \<Rightarrow> 'rs fec_cache_entry \<Rightarrow> bool" where
  "fec_cache_match ty k m sz e \<longleftrightarrow>
     ce_fec e \<noteq> None \<and> ce_type e = ty \<and> ce_data_symbols e = k \<and>
     ce_parity_symbols e = m \<and> ce_symbol_size e = sz"

text \<open>The scan loop: \<open>Inl i\<close> on a hit at \<open>i\<close>, \<open>Inr lru_idx\<close> when it runs through.\<close>

fun fec_cache_scan ::
  "('rs fec_cache_entry \<Rightarrow> bool) \<Rightarrow> 'rs fec_cache_entry list \<Rightarrow> nat \<Rightarrow> nat \<Rightarrow> u64 \<Rightarrow> nat + nat" where
  "fec_cache_scan hit [] i lru_idx min_time = Inr lru_idx"
| "fec_cache_scan hit (e # es) i lru_idx min_time =
     (if hit e then Inl i
      else if ce_last_used_ns e < min_time
           then fec_cache_scan hit es (Suc i) i (ce_last_used_ns e)
           else fec_cache_scan hit es (Suc i) lru_idx min_time)"

definition get_cached_fec ::
  "('rs, 'rq, 'sc) fec_lib \<Rightarrow> (nat \<Rightarrow> bool) \<times> u64 \<Rightarrow> 'rs fec_cache_entry list \<Rightarrow>
   fec_type \<Rightarrow> nat \<Rightarrow> nat \<Rightarrow> nat \<Rightarrow> 'rs fec option \<times> 'rs fec_cache_entry list" where
  "get_cached_fec L env cache ty data_symbols parity_symbols symbol_size =
     (let (alloc, now) = env in
      case fec_cache_scan (fec_cache_match ty data_symbols parity_symbols symbol_size)
             cache 0 0 (-1) of
        Inl i \<Rightarrow> (ce_fec (cache ! i), cache[i := (cache ! i)\<lparr>ce_last_used_ns := now\<rparr>])
      | Inr lru_idx \<Rightarrow>
          let evicted = cache[lru_idx := (cache ! lru_idx)\<lparr>ce_fec := None\<rparr>] in
          (case fec_create_ex L alloc ty data_symbols parity_symbols symbol_size of
             None \<Rightarrow> (None, evicted)
           | Some f \<Rightarrow>
               (Some f,
                evicted[lru_idx := \<lparr>ce_type = ty, ce_data_symbols = data_symbols,
                  ce_parity_symbols = parity_symbols, ce_symbol_size = symbol_size,
                  ce_fec = Some f, ce_last_used_ns = now\<rparr>])))"

definition empty_fec_cache :: "'rs fec_cache_entry list" where
  "empty_fec_cache = replicate FEC_CACHE_SIZE
     \<lparr>ce_type = FEC_REED_SOLOMON, ce_data_symbols = 0, ce_parity_symbols = 0,
      ce_symbol_size = 0, ce_fec = None, ce_last_used_ns = 0\<rparr>"

text \<open>
  The invariant: eight slots, every cached context is the one its key describes, and no key is
  cached twice.
\<close>

definition fec_cache_inv :: "('rs, 'rq, 'sc) fec_lib \<Rightarrow> 'rs fec_cache_entry list \<Rightarrow> bool" where
  "fec_cache_inv L cache \<longleftrightarrow>
     length cache = FEC_CACHE_SIZE \<and>
     (\<forall>e \<in> set cache. \<forall>f. ce_fec e = Some f \<longrightarrow>
        fec_made L (ce_type e) (ce_data_symbols e) (ce_parity_symbols e) (ce_symbol_size e) f) \<and>
     (\<forall>i < length cache. \<forall>j < length cache. \<forall>ty k m sz.
        fec_cache_match ty k m sz (cache ! i) \<longrightarrow> fec_cache_match ty k m sz (cache ! j) \<longrightarrow> i = j)"

section \<open>The scan\<close>

lemma fec_cache_scan_hit:
  "fec_cache_scan hit es i lru mt = Inl j \<longleftrightarrow>
   (\<exists>n. find_index hit es = Some n \<and> j = i + n)"
  by (induction es arbitrary: i lru mt) auto

lemma fec_cache_scan_miss_inv:
  "fec_cache_scan hit es i lru mt = Inr j \<Longrightarrow>
   (\<forall>e \<in> set es. \<not> hit e) \<and>
   (j = lru \<and> (\<forall>e \<in> set es. mt \<le> ce_last_used_ns e) \<or>
    (\<exists>n < length es. j = i + n \<and> ce_last_used_ns (es ! n) < mt \<and>
       (\<forall>e \<in> set es. ce_last_used_ns (es ! n) \<le> ce_last_used_ns e)))"
proof (induction es arbitrary: i lru mt)
  case (Cons e es)
  show ?case
  proof (cases "ce_last_used_ns e < mt")
    case True
    with Cons.prems Cons.IH [of "Suc i" i "ce_last_used_ns e"]
    show ?thesis by (fastforce split: if_splits)
  next
    case False
    with Cons.prems have *: "(\<forall>e \<in> set es. \<not> hit e) \<and>
      (j = lru \<and> (\<forall>e \<in> set es. mt \<le> ce_last_used_ns e) \<or>
       (\<exists>n < length es. j = Suc i + n \<and> ce_last_used_ns (es ! n) < mt \<and>
       (\<forall>e \<in> set es. ce_last_used_ns (es ! n) \<le> ce_last_used_ns e)))"
      and "\<not> hit e"
      using Cons.IH [of "Suc i" lru mt] by (auto split: if_splits)
    with False show ?thesis
      by (fastforce intro: exI [of _ "Suc n" for n])
  qed
qed simp

text \<open>What a miss leaves in the slot it evicted.\<close>

definition fec_cache_refill ::
  "('rs, 'rq, 'sc) fec_lib \<Rightarrow> (nat \<Rightarrow> bool) \<Rightarrow> u64 \<Rightarrow> fec_type \<Rightarrow> nat \<Rightarrow> nat \<Rightarrow> nat \<Rightarrow>
   'rs fec_cache_entry \<Rightarrow> 'rs fec_cache_entry" where
  "fec_cache_refill L alloc now ty k m sz e =
     (case fec_create_ex L alloc ty k m sz of
        None \<Rightarrow> e\<lparr>ce_fec := None\<rparr>
      | Some f \<Rightarrow> \<lparr>ce_type = ty, ce_data_symbols = k, ce_parity_symbols = m,
          ce_symbol_size = sz, ce_fec = Some f, ce_last_used_ns = now\<rparr>)"

text \<open>A scan that runs through names the slot with the least timestamp.\<close>

lemma fec_cache_scan_miss:
  assumes "fec_cache_scan hit es 0 0 (-1) = Inr j" "es \<noteq> []"
  shows "j < length es" "\<forall>e \<in> set es. \<not> hit e"
    "\<forall>e \<in> set es. ce_last_used_ns (es ! j) \<le> ce_last_used_ns e"
proof -
  have "j < length es \<and> (\<forall>e \<in> set es. ce_last_used_ns (es ! j) \<le> ce_last_used_ns e)"
    using fec_cache_scan_miss_inv [OF assms(1)] assms(2)
    by (auto intro: order_trans [OF word_order.extremum])
  then show "j < length es" "\<forall>e \<in> set es. ce_last_used_ns (es ! j) \<le> ce_last_used_ns e" by auto
  show "\<forall>e \<in> set es. \<not> hit e"
    using fec_cache_scan_miss_inv [OF assms(1)] by blast
qed

lemma get_cached_fec_hit:
  assumes "find_index (fec_cache_match ty k m sz) cache = Some i"
  shows "get_cached_fec L (alloc, now) cache ty k m sz =
    (ce_fec (cache ! i), cache[i := (cache ! i)\<lparr>ce_last_used_ns := now\<rparr>])"
proof -
  have "fec_cache_scan (fec_cache_match ty k m sz) cache 0 0 (-1) = Inl i"
    using assms by (simp add: fec_cache_scan_hit)
  then show ?thesis by (simp add: get_cached_fec_def)
qed

lemma get_cached_fec_miss:
  assumes "find_index (fec_cache_match ty k m sz) cache = None" "cache \<noteq> []"
  obtains lru where "lru < length cache"
    and "\<forall>e \<in> set cache. ce_last_used_ns (cache ! lru) \<le> ce_last_used_ns e"
    and "get_cached_fec L (alloc, now) cache ty k m sz =
      (fec_create_ex L alloc ty k m sz,
       cache[lru := fec_cache_refill L alloc now ty k m sz (cache ! lru)])"
proof -
  obtain lru where scan: "fec_cache_scan (fec_cache_match ty k m sz) cache 0 0 (-1) = Inr lru"
    using assms(1) fec_cache_scan_hit [of "fec_cache_match ty k m sz" cache 0 0 "-1"]
    by (cases "fec_cache_scan (fec_cache_match ty k m sz) cache 0 0 (-1)") auto
  show ?thesis
    using fec_cache_scan_miss [OF scan assms(2)] scan
    by (intro that [of lru]) (simp_all add: get_cached_fec_def fec_cache_refill_def Let_def split: option.splits)
qed

lemma empty_fec_cache_inv: "fec_cache_inv L empty_fec_cache"
  by (simp add: fec_cache_inv_def empty_fec_cache_def fec_cache_match_def)

lemma fec_cache_inv_update:
  assumes inv: "fec_cache_inv L cache" and i: "i < length cache"
    and ok: "\<And>f. ce_fec e = Some f \<Longrightarrow>
      fec_made L (ce_type e) (ce_data_symbols e) (ce_parity_symbols e) (ce_symbol_size e) f"
    and fresh: "\<And>j ty k m sz. j < length cache \<Longrightarrow> fec_cache_match ty k m sz e \<Longrightarrow>
      fec_cache_match ty k m sz (cache ! j) \<Longrightarrow> j = i"
  shows "fec_cache_inv L (cache[i := e])"
proof -
  have "a = b" if "a < length cache" "b < length cache"
    "fec_cache_match ty k m sz (cache[i := e] ! a)" "fec_cache_match ty k m sz (cache[i := e] ! b)"
    for a b ty k m sz
    using that inv fresh i unfolding fec_cache_inv_def
    by (cases "a = i"; cases "b = i") (auto simp: nth_list_update)
  moreover have "set (cache[i := e]) \<subseteq> insert e (set cache)"
    by (rule set_update_subset_insert)
  ultimately show ?thesis
    using inv ok unfolding fec_cache_inv_def by auto
qed

lemma fec_cache_match_time [simp]:
  "fec_cache_match ty k m sz (e\<lparr>ce_last_used_ns := t\<rparr>) = fec_cache_match ty k m sz e"
  by (simp add: fec_cache_match_def)

lemma fec_cache_inv_made:
  "fec_cache_inv L cache \<Longrightarrow> i < length cache \<Longrightarrow> ce_fec (cache ! i) = Some f \<Longrightarrow>
   fec_made L (ce_type (cache ! i)) (ce_data_symbols (cache ! i))
     (ce_parity_symbols (cache ! i)) (ce_symbol_size (cache ! i)) f"
  by (simp add: fec_cache_inv_def)

lemma get_cached_fec_inv:
  assumes inv: "fec_cache_inv L cache"
  shows "fec_cache_inv L (snd (get_cached_fec L (alloc, now) cache ty k m sz))"
proof (cases "find_index (fec_cache_match ty k m sz) cache")
  case (Some i)
  with find_index_SomeD [OF Some] inv fec_cache_inv_made [OF inv, of i] show ?thesis
    by (auto simp: get_cached_fec_hit fec_cache_inv_def [of L cache] intro!: fec_cache_inv_update)
next
  case None
  have "cache \<noteq> []" using inv by (auto simp: fec_cache_inv_def FEC_CACHE_SIZE_def)
  from get_cached_fec_miss [OF None this, of L alloc now] obtain lru where lru: "lru < length cache"
    and eq: "get_cached_fec L (alloc, now) cache ty k m sz =
      (fec_create_ex L alloc ty k m sz,
       cache[lru := fec_cache_refill L alloc now ty k m sz (cache ! lru)])" by metis
  have none: "\<not> fec_cache_match ty k m sz (cache ! j)" if "j < length cache" for j
    using None that by (simp add: scan_simps)
  show ?thesis
    unfolding eq snd_conv
  proof (rule fec_cache_inv_update [OF inv lru])
    fix j ty' k' m' sz'
    assume "j < length cache" "fec_cache_match ty' k' m' sz' (cache ! j)"
      "fec_cache_match ty' k' m' sz' (fec_cache_refill L alloc now ty k m sz (cache ! lru))"
    with none [of j] show "j = lru"
      by (auto simp: fec_cache_refill_def fec_cache_match_def split: option.splits)
  qed (auto simp: fec_cache_refill_def split: option.splits dest: fec_create_ex_made)
qed

interpretation cached_fec: fec_provider L "get_cached_fec L" "fec_cache_inv L"
  for L :: "('rs, 'rq, 'sc) fec_lib"
proof unfold_locales
  fix e :: "(nat \<Rightarrow> bool) \<times> u64" and c ty k m sz f
  assume inv: "fec_cache_inv L c"
  obtain alloc now where e: "e = (alloc, now)" by (cases e)
  show "fec_cache_inv L (snd (get_cached_fec L e c ty k m sz))"
    unfolding e by (rule get_cached_fec_inv [OF inv])
  assume res: "fst (get_cached_fec L e c ty k m sz) = Some f"
  show "fec_made L ty k m sz f"
  proof (cases "find_index (fec_cache_match ty k m sz) c")
    case (Some i)
    with find_index_SomeD [OF Some] fec_cache_inv_made [OF inv, of i f] res e show ?thesis
      by (simp add: get_cached_fec_hit fec_cache_match_def)
  next
    case None
    have "c \<noteq> []" using inv by (auto simp: fec_cache_inv_def FEC_CACHE_SIZE_def)
    from get_cached_fec_miss [OF None this, of L alloc now] res e
    have "fec_create_ex L alloc ty k m sz = Some f" by (metis fst_conv)
    then show ?thesis by (rule fec_create_ex_made)
  qed
qed

lemma get_cached_fec_returns:
  assumes inv: "fec_cache_inv L cache"
  shows "fst (get_cached_fec L (\<lambda>_. True, now) cache ty k m sz) = fec_create_ex L (\<lambda>_. True) ty k m sz"
proof (cases "find_index (fec_cache_match ty k m sz) cache")
  case (Some i)
  then have "fst (get_cached_fec L (\<lambda>_. True, now) cache ty k m sz) \<noteq> None"
    using find_index_SomeD [OF Some] by (simp add: get_cached_fec_hit fec_cache_match_def)
  then show ?thesis
    using cached_fec.get_made [OF inv] unfolding fec_made_def by fastforce
next
  case None
  have ne: "cache \<noteq> []" using inv by (auto simp: fec_cache_inv_def FEC_CACHE_SIZE_def)
  from get_cached_fec_miss [OF None ne, of L "\<lambda>_. True" now] show ?thesis by (metis fst_conv)
qed

section \<open>Properties\<close>

text \<open>
  C18. The context cache is transparent: whatever the cache holds, a request returns exactly what
  creating a context with the requested parameters returns, and keeps the cache invariant (eight
  slots, each context the one its key describes, no key twice).
\<close>

theorem cached_fec_transparent:
  assumes inv: "fec_cache_inv L cache"
  shows "fst (get_cached_fec L (\<lambda>_. True, now) cache ty k m sz) =
           fec_create_ex L (\<lambda>_. True) ty k m sz \<and>
         fec_cache_inv L (snd (get_cached_fec L (alloc, now) cache ty k m sz))"
  using get_cached_fec_returns [OF inv] get_cached_fec_inv [OF inv] by blast

theorem cached_fec_transparent_witness:
  "fst (get_cached_fec repetition_lib (\<lambda>_. True, 5) empty_fec_cache FEC_RAPTORQ 1 2 3) =
     fec_create_ex repetition_lib (\<lambda>_. True) FEC_RAPTORQ 1 2 3 \<and>
   fec_cache_inv repetition_lib
     (snd (get_cached_fec repetition_lib (\<lambda>_. True, 5) empty_fec_cache FEC_RAPTORQ 1 2 3))"
  by (rule cached_fec_transparent [OF empty_fec_cache_inv])

text \<open>
  Replacement is least-recently-used: a request changes one slot only. That slot either
  already held the requested context, or nothing in the cache did and no slot is older than it;
  after a successful request it holds the requested context and carries the time of the request.
\<close>

theorem get_cached_fec_lru:
  assumes inv: "fec_cache_inv L cache"
  shows "\<exists>i < FEC_CACHE_SIZE.
    (\<forall>j < FEC_CACHE_SIZE. j \<noteq> i \<longrightarrow>
       snd (get_cached_fec L (alloc, now) cache ty k m sz) ! j = cache ! j) \<and>
    (fec_cache_match ty k m sz (cache ! i) \<or>
     (\<forall>e \<in> set cache. \<not> fec_cache_match ty k m sz e \<and>
        ce_last_used_ns (cache ! i) \<le> ce_last_used_ns e)) \<and>
    (\<forall>f. fst (get_cached_fec L (alloc, now) cache ty k m sz) = Some f \<longrightarrow>
       (let e = snd (get_cached_fec L (alloc, now) cache ty k m sz) ! i in
        fec_cache_match ty k m sz e \<and> ce_fec e = Some f \<and> ce_last_used_ns e = now))"
proof -
  have len: "length cache = FEC_CACHE_SIZE" and ne: "cache \<noteq> []"
    using inv by (auto simp: fec_cache_inv_def FEC_CACHE_SIZE_def)
  show ?thesis
  proof (cases "find_index (fec_cache_match ty k m sz) cache")
    case (Some i)
    with find_index_SomeD [OF Some] len show ?thesis
      by (intro exI [of _ i]) (simp add: get_cached_fec_hit Let_def)
  next
    case None
    obtain lru where lru: "lru < length cache"
      "\<forall>e \<in> set cache. ce_last_used_ns (cache ! lru) \<le> ce_last_used_ns e"
      "get_cached_fec L (alloc, now) cache ty k m sz =
        (fec_create_ex L alloc ty k m sz,
         cache[lru := fec_cache_refill L alloc now ty k m sz (cache ! lru)])"
      using get_cached_fec_miss [OF None ne] by metis
    have "\<forall>e \<in> set cache. \<not> fec_cache_match ty k m sz e"
      using None by (simp add: scan_simps)
    with lru len show ?thesis
      by (intro exI [of _ lru])
        (auto simp: Let_def fec_cache_refill_def fec_cache_match_def split: option.splits)
  qed
qed

theorem get_cached_fec_lru_witness:
  "\<exists>i < FEC_CACHE_SIZE.
    (\<forall>j < FEC_CACHE_SIZE. j \<noteq> i \<longrightarrow>
       snd (get_cached_fec repetition_lib (\<lambda>_. True, 5) empty_fec_cache FEC_RAPTORQ 1 2 3) ! j =
       empty_fec_cache ! j) \<and>
    (fec_cache_match FEC_RAPTORQ 1 2 3 (empty_fec_cache ! i :: nat fec_cache_entry) \<or>
     (\<forall>e \<in> set (empty_fec_cache :: nat fec_cache_entry list).
        \<not> fec_cache_match FEC_RAPTORQ 1 2 3 e \<and>
        ce_last_used_ns (empty_fec_cache ! i :: nat fec_cache_entry) \<le> ce_last_used_ns e)) \<and>
    (\<forall>f. fst (get_cached_fec repetition_lib (\<lambda>_. True, 5) empty_fec_cache FEC_RAPTORQ 1 2 3) = Some f \<longrightarrow>
       (let e = snd (get_cached_fec repetition_lib (\<lambda>_. True, 5) empty_fec_cache FEC_RAPTORQ 1 2 3) ! i in
        fec_cache_match FEC_RAPTORQ 1 2 3 e \<and> ce_fec e = Some f \<and> ce_last_used_ns e = 5))"
  by (rule get_cached_fec_lru [OF empty_fec_cache_inv])

end
