(* ===== verification/Arena.thy ===== *)
theory Arena
  imports Prelude
begin

text \<open>
  The per-transport bump allocator of \<^verbatim>\<open>transport_quicly.c\<close> (\<^verbatim>\<open>arena_alloc\<close>,
  \<^verbatim>\<open>arena_reset\<close>), with its \<^verbatim>\<open>size_t\<close> arithmetic as 64-bit words and its heap fallback.
\<close>

section \<open>Operations\<close>

definition ARENA_MAX_FALLBACKS :: nat where "ARENA_MAX_FALLBACKS = 1024"

text \<open>The buffer is a map from offsets to bytes; heap blocks are named by numbers.\<close>

record arena =
  ar_buffer :: "u64 \<Rightarrow> u8"
  ar_capacity :: u64
  ar_offset :: u64
  ar_fallbacks :: "nat list"

datatype arena_block = NullBlock | HeapBlock nat | ArenaBlock u64

definition arena_round :: "u64 \<Rightarrow> u64" where
  "arena_round sz = (sz + 7) AND NOT 7"

text \<open>\<open>malloc n\<close> is the heap block an allocation of \<open>n\<close> bytes returns, if any.\<close>

definition arena_alloc :: "(u64 \<Rightarrow> nat option) \<Rightarrow> arena \<Rightarrow> u64 \<Rightarrow> arena_block \<times> arena" where
  "arena_alloc malloc a req =
     (let sz = arena_round req in
      if ar_capacity a < ar_offset a + sz then
        (case malloc sz of
           None \<Rightarrow> (NullBlock, a)
         | Some p \<Rightarrow>
             (HeapBlock p,
              if length (ar_fallbacks a) < ARENA_MAX_FALLBACKS
              then a\<lparr>ar_fallbacks := ar_fallbacks a @ [p]\<rparr> else a))
      else
        (ArenaBlock (ar_offset a),
         a\<lparr>ar_offset := ar_offset a + sz,
           ar_buffer := (\<lambda>x. if ar_offset a \<le> x \<and> x < ar_offset a + sz then 0 else ar_buffer a x)\<rparr>))"

text \<open>Reset returns the heap blocks it frees.\<close>

definition arena_reset :: "arena \<Rightarrow> nat list \<times> arena" where
  "arena_reset a = (ar_fallbacks a, a\<lparr>ar_offset := 0, ar_fallbacks := []\<rparr>)"

fun arena_allocs :: "(u64 \<Rightarrow> nat option) \<Rightarrow> arena \<Rightarrow> u64 list \<Rightarrow> arena_block list \<times> arena" where
  "arena_allocs malloc a [] = ([], a)"
| "arena_allocs malloc a (r # rs) =
     (let (b, a') = arena_alloc malloc a r; (bs, a'') = arena_allocs malloc a' rs
      in (b # bs, a''))"

section \<open>Invariant\<close>

text \<open>
  The offset is a multiple of eight within the capacity, which \<^verbatim>\<open>transport_create\<close> sets to
  16 MiB; below \<open>2 ^ 63\<close> no sum of an offset and a rounded request of at most \<open>2 ^ 62\<close> wraps.
\<close>

definition arena_inv :: "arena \<Rightarrow> bool" where
  "arena_inv a \<longleftrightarrow> unat (ar_capacity a) < 2 ^ 63 \<and> ar_offset a \<le> ar_capacity a \<and>
     8 dvd unat (ar_offset a) \<and> length (ar_fallbacks a) \<le> ARENA_MAX_FALLBACKS"

lemma and_plus_and_not: "(x AND y) + (x AND NOT y) = (x :: 'a::len word)"
proof -
  have "(x AND y) + (x AND NOT y) = (x AND y) OR (x AND NOT y)"
    by (rule disjunctive_add_eq_or) (auto simp: bit_eq_iff bit_simps)
  also have "\<dots> = x"
    by (auto simp: bit_eq_iff bit_simps)
  finally show ?thesis .
qed

lemma unat_arena_round:
  assumes "unat sz \<le> 2 ^ 62"
  shows "unat (arena_round sz) = (unat sz + 7) div 8 * 8"
proof -
  let ?x = "sz + 7"
  have ux: "unat ?x = unat sz + 7"
    using assms by (simp add: unat_word_ariths)
  have low: "?x AND 7 = ?x mod 8"
    using take_bit_eq_mask [of 3 ?x] take_bit_eq_mod [of 3 ?x] by (simp add: mask_eq_exp_minus_1)
  have "(?x AND 7) + (?x AND NOT 7) = ?x"
    by (rule and_plus_and_not)
  then have "arena_round sz = ?x - ?x mod 8"
    unfolding arena_round_def low by (simp add: algebra_simps)
  moreover have "unat (?x - ?x mod 8) = unat ?x - unat ?x mod 8"
  proof -
    have "?x mod 8 \<le> ?x" by (simp add: word_le_nat_alt unat_mod)
    then show ?thesis by (simp add: unat_sub unat_mod)
  qed
  ultimately show ?thesis
    using ux by (simp add: minus_mod_eq_div_mult)
qed

lemma unat_arena_round_bounds:
  assumes "unat sz \<le> 2 ^ 62"
  shows "unat sz \<le> unat (arena_round sz)" "unat (arena_round sz) \<le> unat sz + 7"
    "8 dvd unat (arena_round sz)"
  unfolding unat_arena_round [OF assms] by presburger+

lemma unat_offset_sum:
  assumes "arena_inv a" "unat req \<le> 2 ^ 62"
  shows "unat (ar_offset a + arena_round req) = unat (ar_offset a) + unat (arena_round req)"
proof -
  have "unat (ar_offset a) < 2 ^ 63"
    using assms(1) by (auto simp: arena_inv_def word_le_nat_alt)
  moreover have "unat (arena_round req) \<le> 2 ^ 62 + 7"
    using unat_arena_round_bounds(2) [OF assms(2)] assms(2) by linarith
  ultimately show ?thesis by (simp add: unat_word_ariths)
qed

lemma arena_alloc_inv:
  assumes inv: "arena_inv a" and req: "unat req \<le> 2 ^ 62"
  shows "arena_inv (snd (arena_alloc malloc a req))"
proof -
  have "8 dvd unat (ar_offset a + arena_round req)"
    unfolding unat_offset_sum [OF assms]
    using inv unat_arena_round_bounds(3) [OF req] by (simp add: arena_inv_def)
  then show ?thesis
    using inv by (auto simp: arena_alloc_def arena_inv_def Let_def split: option.splits)
qed

lemma arena_reset_inv: "arena_inv a \<Longrightarrow> arena_inv (snd (arena_reset a))"
  by (simp add: arena_reset_def arena_inv_def)

lemma arena_alloc_block:
  assumes inv: "arena_inv a" and req: "unat req \<le> 2 ^ 62"
    and res: "arena_alloc malloc a req = (ArenaBlock p, a')"
  shows "p = ar_offset a" "unat (ar_offset a') = unat p + unat (arena_round req)"
    "unat p + unat req \<le> unat (ar_capacity a)" "8 dvd unat p" "ar_capacity a' = ar_capacity a"
    "\<And>x. p \<le> x \<Longrightarrow> unat x < unat p + unat req \<Longrightarrow> ar_buffer a' x = 0"
    "\<And>x. x < p \<Longrightarrow> ar_buffer a' x = ar_buffer a x"
    "unat (ar_offset a') \<le> unat (ar_capacity a)"
proof -
  have fit: "\<not> ar_capacity a < ar_offset a + arena_round req"
    and p: "p = ar_offset a" and a': "ar_offset a' = ar_offset a + arena_round req"
      "ar_capacity a' = ar_capacity a"
      "ar_buffer a' = (\<lambda>x. if ar_offset a \<le> x \<and> x < ar_offset a + arena_round req then 0 else ar_buffer a x)"
    using res by (auto simp: arena_alloc_def Let_def split: if_splits option.splits)
  note sum = unat_offset_sum [OF inv req] and rnd = unat_arena_round_bounds [OF req]
  show "p = ar_offset a" "ar_capacity a' = ar_capacity a" by fact+
  show "unat (ar_offset a') = unat p + unat (arena_round req)" using p a' sum by simp
  have le: "unat (ar_offset a) + unat (arena_round req) \<le> unat (ar_capacity a)"
    using fit sum by (simp add: word_less_nat_alt)
  then show "unat p + unat req \<le> unat (ar_capacity a)" using p rnd(1) by simp
  show "unat (ar_offset a') \<le> unat (ar_capacity a)" using a' sum le by simp
  show "8 dvd unat p" using inv p by (simp add: arena_inv_def)
  show "ar_buffer a' x = 0" if "p \<le> x" "unat x < unat p + unat req" for x
    using that p a' sum rnd(1) by (simp add: word_less_nat_alt)
  show "ar_buffer a' x = ar_buffer a x" if "x < p" for x
    using that p a' by auto
qed

text \<open>A run of allocations: the offset only grows, and blocks come in order.\<close>

lemma arena_alloc_offset_mono:
  assumes "arena_inv a" "unat req \<le> 2 ^ 62"
  shows "unat (ar_offset a) \<le> unat (ar_offset (snd (arena_alloc malloc a req)))"
  using unat_offset_sum [OF assms] by (auto simp: arena_alloc_def Let_def split: option.splits)

lemma arena_allocs_above:
  assumes "arena_inv a" "\<forall>r \<in> set rs. unat r \<le> 2 ^ 62" "arena_allocs malloc a rs = (bs, a')"
    and "i < length rs" "bs ! i = ArenaBlock p"
  shows "unat (ar_offset a) \<le> unat p \<and> 8 dvd unat p \<and> unat p + unat (rs ! i) \<le> unat (ar_capacity a)"
  using assms
proof (induction rs arbitrary: a bs i)
  case (Cons r rs)
  obtain b a1 where step: "arena_alloc malloc a r = (b, a1)" by force
  obtain bs' where rest: "arena_allocs malloc a1 rs = (bs', a')" and bs: "bs = b # bs'"
    using Cons.prems(3) step by (auto split: prod.splits)
  have inv1: "arena_inv a1"
    using arena_alloc_inv [of a r malloc] Cons.prems(1,2) step by simp
  have cap: "ar_capacity a1 = ar_capacity a"
    using step by (auto simp: arena_alloc_def Let_def split: if_splits option.splits)
  show ?case
  proof (cases i)
    case 0
    with Cons.prems bs step arena_alloc_block [of a r malloc p a1] show ?thesis by simp
  next
    case (Suc j)
    have "unat (ar_offset a) \<le> unat (ar_offset a1)"
      using arena_alloc_offset_mono [of a r malloc] Cons.prems(1,2) step by simp
    with Suc Cons.IH [OF inv1 _ rest, of j] Cons.prems bs cap show ?thesis by simp
  qed
qed simp

lemma arena_allocs_length: "arena_allocs malloc a rs = (bs, a') \<Longrightarrow> length bs = length rs"
  by (induction rs arbitrary: a bs) (auto split: prod.splits)

lemma arena_allocs_ordered:
  assumes "arena_inv a" "\<forall>r \<in> set rs. unat r \<le> 2 ^ 62" "arena_allocs malloc a rs = (bs, a')"
    and "i < j" "j < length rs" "bs ! i = ArenaBlock p" "bs ! j = ArenaBlock q"
  shows "unat p + unat (rs ! i) \<le> unat q"
  using assms
proof (induction rs arbitrary: a bs i j)
  case (Cons r rs)
  obtain b a1 where step: "arena_alloc malloc a r = (b, a1)" by force
  obtain bs' where rest: "arena_allocs malloc a1 rs = (bs', a')" and bs: "bs = b # bs'"
    using Cons.prems(3) step by (auto split: prod.splits)
  have inv1: "arena_inv a1"
    using arena_alloc_inv [of a r malloc] Cons.prems(1,2) step by simp
  obtain j' where j: "j = Suc j'" using Cons.prems(4) by (cases j) auto
  show ?case
  proof (cases i)
    case 0
    with Cons.prems bs have "b = ArenaBlock p" and r: "unat r \<le> 2 ^ 62" by auto
    with step arena_alloc_block(2) [OF Cons.prems(1) r, of malloc p a1]
      unat_arena_round_bounds(1) [OF r]
    have "unat p + unat r \<le> unat (ar_offset a1)" by simp
    also have "\<dots> \<le> unat q"
      using arena_allocs_above [OF inv1 _ rest, of j' q] Cons.prems j bs by simp
    finally show ?thesis using 0 by simp
  next
    case (Suc i')
    with j Cons.IH [OF inv1 _ rest, of i' j'] Cons.prems bs show ?thesis by simp
  qed
qed simp

section \<open>Properties\<close>

text \<open>
  C23. Arena blocks are usable memory: in any run of allocations from a well-formed arena, every
  block served from the buffer is 8-byte aligned, lies inside the buffer, and two such blocks
  never overlap.
\<close>

theorem arena_blocks_disjoint:
  assumes "arena_inv a" and "\<forall>r \<in> set rs. unat r \<le> 2 ^ 62"
    and "arena_allocs malloc a rs = (bs, a')"
    and "i < j" and "j < length rs" and "bs ! i = ArenaBlock p" and "bs ! j = ArenaBlock q"
  shows "8 dvd unat p \<and> 8 dvd unat q \<and> unat p + unat (rs ! i) \<le> unat q \<and>
    unat q + unat (rs ! j) \<le> unat (ar_capacity a)"
  using arena_allocs_ordered [OF assms] arena_allocs_above [OF assms(1-3) _ assms(6)]
    arena_allocs_above [OF assms(1-3,5,7)] assms(4,5) by simp

theorem arena_blocks_disjoint_witness:
  "8 dvd unat (0 :: u64) \<and> 8 dvd unat (16 :: u64) \<and> unat (0 :: u64) + unat ([10, 3] ! 0 :: u64) \<le> unat (16 :: u64) \<and>
    unat (16 :: u64) + unat ([10, 3] ! 1 :: u64) \<le> unat (64 :: u64)"
  using arena_blocks_disjoint [of "\<lparr>ar_buffer = (\<lambda>_. 1), ar_capacity = 64, ar_offset = 0, ar_fallbacks = []\<rparr>"
      "[10, 3]" "\<lambda>_. None" "[ArenaBlock 0, ArenaBlock 16]"
      "snd (arena_allocs (\<lambda>_. None) \<lparr>ar_buffer = (\<lambda>_. 1), ar_capacity = 64, ar_offset = 0, ar_fallbacks = []\<rparr> [10, 3])"
      0 1 0 16]
  by (simp add: arena_inv_def arena_alloc_def arena_round_def ARENA_MAX_FALLBACKS_def)

end
