(* ===== verification/Wire.thy ===== *)
theory Wire
  imports Prelude
begin

text \<open>
  The data types of \<^verbatim>\<open>transport.h\<close> (tracks, objects, events) and the packed datagram layouts
  of \<^verbatim>\<open>transport_quicly.c\<close>: the 32-byte FEC packet header and the 18-byte telemetry
  datagram. The contract of a fixed-width layout is the locale \<open>fixed_codec\<close>; both layouts are
  interpretations of it.
\<close>

section \<open>Tracks, objects, events\<close>

text \<open>
  \<^verbatim>\<open>moq_track_type_t\<close> is a C enumeration: received bytes are cast to it unchecked, so its
  values are those of the underlying unsigned integer and the enumerators are constants.
\<close>

type_synonym moq_track_type = "32 word"

definition MOQ_TRACK_VIDEO :: moq_track_type where "MOQ_TRACK_VIDEO = 0"
definition MOQ_TRACK_AUDIO :: moq_track_type where "MOQ_TRACK_AUDIO = 1"
definition MOQ_TRACK_INPUT :: moq_track_type where "MOQ_TRACK_INPUT = 2"
definition MOQ_TRACK_TEXT :: moq_track_type where "MOQ_TRACK_TEXT = 3"
definition MOQ_TRACK_DATA :: moq_track_type where "MOQ_TRACK_DATA = 4"
definition MOQ_TRACK_TELEMETRY :: moq_track_type where "MOQ_TRACK_TELEMETRY = 6"

definition MOQ_TRACK_FLAG_RELIABLE :: u8 where "MOQ_TRACK_FLAG_RELIABLE = 1"
definition MOQ_TRACK_FLAG_FEC_ENABLED :: u8 where "MOQ_TRACK_FLAG_FEC_ENABLED = 2"

lemmas track_consts =
  MOQ_TRACK_VIDEO_def MOQ_TRACK_AUDIO_def MOQ_TRACK_INPUT_def MOQ_TRACK_TEXT_def
  MOQ_TRACK_DATA_def MOQ_TRACK_TELEMETRY_def
  MOQ_TRACK_FLAG_RELIABLE_def MOQ_TRACK_FLAG_FEC_ENABLED_def

record moq_track_id =
  tk_type :: moq_track_type
  tk_flags :: u8
  tk_name :: cstr

record moq_object =
  ob_track :: moq_track_id
  ob_group_id :: u64
  ob_object_id :: u64
  ob_data :: bytes
  ob_is_keyframe :: bool
  ob_priority :: u8

text \<open>The zero-initialised track that the sources write as \<^verbatim>\<open>{0}\<close> or by naming one field.\<close>

definition zero_track :: moq_track_id where
  "zero_track = \<lparr>tk_type = 0, tk_flags = 0, tk_name = []\<rparr>"

datatype transport_event =
    Connected
  | Disconnected
  | Subscribe moq_track_id
  | Unsubscribe moq_track_id
  | ObjectReceived moq_track_id moq_object
  | Auth bytes
  | AuthComplete bool
  | KeyframeRequest moq_track_id
  | ObjectLost moq_track_id u64 u64

section \<open>Fixed-width layouts\<close>

locale fixed_codec =
  fixes enc :: "'a \<Rightarrow> bytes" and dec :: "bytes \<Rightarrow> 'a option" and width :: nat
  assumes enc_length: "length (enc a) = width"
    and dec_enc_append: "dec (enc a @ rest) = Some a"
    and dec_short: "length bs < width \<Longrightarrow> dec bs = None"
    and enc_dec_take: "dec bs = Some a \<Longrightarrow> enc a = take width bs"
begin

lemma dec_of_enc: "dec (enc a) = Some a"
  using dec_enc_append [of a "[]"] by simp

lemma enc_injective: "enc a = enc b \<Longrightarrow> a = b"
  by (metis dec_of_enc option.inject)

lemma enc_prefix_free: "enc a @ r = enc b @ s \<Longrightarrow> a = b \<and> r = s"
  by (metis append_eq_append_conv dec_enc_append enc_length option.inject)

lemma dec_length: "dec bs = Some a \<Longrightarrow> width \<le> length bs"
  by (metis dec_short not_le option.distinct(1))

lemma dec_split: "dec bs = Some a \<Longrightarrow> bs = enc a @ drop width bs"
  by (simp add: enc_dec_take)

lemma dec_agree: "dec bs = Some a \<Longrightarrow> dec cs = Some a \<Longrightarrow> take width bs = take width cs"
  by (metis enc_dec_take)

end

section \<open>The FEC packet header\<close>

text \<open>
  The packed struct is \<^verbatim>\<open>fec_packet_header_t\<close>. Its fields are held here in host order; the
  layout \<open>fec_header_bytes\<close> is what the senders store with \<^verbatim>\<open>htobe16/32/64\<close>, and
  \<open>fec_header_read\<close> is the receiver's length check and cast with \<^verbatim>\<open>be16/32/64toh\<close>.
\<close>

record fec_packet_header =
  h_track_id :: u8
  h_is_keyframe :: u8
  h_priority :: u8
  h_group_id :: u32
  h_object_id :: u32
  h_symbol_index :: u16
  h_total_symbols :: u16
  h_data_symbols :: u16
  h_symbol_size :: u16
  h_original_size :: u32
  h_path_id :: u8
  h_send_time_ns :: u64

definition FEC_HEADER_SIZE :: nat where "FEC_HEADER_SIZE = 32"

definition fec_header_bytes :: "fec_packet_header \<Rightarrow> bytes" where
  "fec_header_bytes h =
     [h_track_id h, h_is_keyframe h, h_priority h] @
     be_bytes 4 (unat (h_group_id h)) @ be_bytes 4 (unat (h_object_id h)) @
     be_bytes 2 (unat (h_symbol_index h)) @ be_bytes 2 (unat (h_total_symbols h)) @
     be_bytes 2 (unat (h_data_symbols h)) @ be_bytes 2 (unat (h_symbol_size h)) @
     be_bytes 4 (unat (h_original_size h)) @ [h_path_id h] @
     be_bytes 8 (unat (h_send_time_ns h))"

definition fec_header_read :: "bytes \<Rightarrow> fec_packet_header option" where
  "fec_header_read bs =
     (if length bs < FEC_HEADER_SIZE then None
      else Some \<lparr>h_track_id = bs ! 0, h_is_keyframe = bs ! 1, h_priority = bs ! 2,
        h_group_id = of_nat (be_val (bslice 3 4 bs)),
        h_object_id = of_nat (be_val (bslice 7 4 bs)),
        h_symbol_index = of_nat (be_val (bslice 11 2 bs)),
        h_total_symbols = of_nat (be_val (bslice 13 2 bs)),
        h_data_symbols = of_nat (be_val (bslice 15 2 bs)),
        h_symbol_size = of_nat (be_val (bslice 17 2 bs)),
        h_original_size = of_nat (be_val (bslice 19 4 bs)),
        h_path_id = bs ! 23,
        h_send_time_ns = of_nat (be_val (bslice 24 8 bs))\<rparr>)"

text \<open>\<^verbatim>\<open>telemetry_datagram_t\<close>.\<close>

record telemetry_datagram =
  td_track_id :: u8
  td_path_id :: u8
  td_send_time_ns :: u64
  td_recv_time_ns :: u64

definition TELEMETRY_SIZE :: nat where "TELEMETRY_SIZE = 18"

definition telemetry_bytes :: "telemetry_datagram \<Rightarrow> bytes" where
  "telemetry_bytes d = [td_track_id d, td_path_id d] @
     be_bytes 8 (unat (td_send_time_ns d)) @ be_bytes 8 (unat (td_recv_time_ns d))"

definition telemetry_read :: "bytes \<Rightarrow> telemetry_datagram option" where
  "telemetry_read bs =
     (if length bs < TELEMETRY_SIZE then None
      else Some \<lparr>td_track_id = bs ! 0, td_path_id = bs ! 1,
        td_send_time_ns = of_nat (be_val (bslice 2 8 bs)),
        td_recv_time_ns = of_nat (be_val (bslice 10 8 bs))\<rparr>)"

lemma be_bytes_word:
  assumes "length bs = k" "256 ^ k = (2::nat) ^ LENGTH('a)"
  shows "be_bytes k (unat (of_nat (be_val bs) :: 'a::len word)) = bs"
proof -
  have "be_val bs < 2 ^ LENGTH('a)"
    using be_val_bound [of bs] assms by simp
  then have "unat (of_nat (be_val bs) :: 'a word) = be_val bs"
    by (simp add: unat_of_nat)
  with assms(1) show ?thesis using be_bytes_be_val [of bs] by simp
qed

lemma slice_join: "i + k = j \<Longrightarrow> bslice i k bs @ bslice j l bs = bslice i (k + l) bs"
  by (simp add: bslice_def take_add add.commute)

lemma slice_one: "i < length bs \<Longrightarrow> bslice i 1 bs = [bs ! i]"
  by (simp add: bslice_def take_Suc hd_drop_conv_nth)

lemma fec_header_read_bytes: "fec_header_read (fec_header_bytes h @ rest) = Some h"
  by (simp add: fec_header_read_def fec_header_bytes_def FEC_HEADER_SIZE_def bslice_def nth_append)

lemma fec_header_bytes_read:
  assumes "fec_header_read bs = Some h"
  shows "fec_header_bytes h = take FEC_HEADER_SIZE bs"
proof -
  have len: "32 \<le> length bs"
    using assms by (auto simp: fec_header_read_def FEC_HEADER_SIZE_def split: if_splits)
  have h: "fec_header_bytes h =
    (bslice 0 1 bs @ bslice 1 1 bs @ bslice 2 1 bs) @ bslice 3 4 bs @ bslice 7 4 bs @ bslice 11 2 bs @
    bslice 13 2 bs @ bslice 15 2 bs @ bslice 17 2 bs @ bslice 19 4 bs @ bslice 23 1 bs @ bslice 24 8 bs"
    using assms len
    by (auto simp: fec_header_read_def FEC_HEADER_SIZE_def fec_header_bytes_def be_bytes_word
        slice_one split: if_splits simp del: One_nat_def length_greater_0_conv)
  show ?thesis
    unfolding h FEC_HEADER_SIZE_def by (simp add: slice_join flip: slice_0)
qed

interpretation fec_hdr: fixed_codec fec_header_bytes fec_header_read FEC_HEADER_SIZE
proof unfold_locales
  fix a bs
  show "length (fec_header_bytes a) = FEC_HEADER_SIZE"
    by (simp add: fec_header_bytes_def FEC_HEADER_SIZE_def)
  show "length bs < FEC_HEADER_SIZE \<Longrightarrow> fec_header_read bs = None"
    by (simp add: fec_header_read_def)
qed (simp_all add: fec_header_read_bytes fec_header_bytes_read)

lemma telemetry_read_bytes: "telemetry_read (telemetry_bytes d @ rest) = Some d"
  by (simp add: telemetry_read_def telemetry_bytes_def TELEMETRY_SIZE_def bslice_def nth_append)

lemma telemetry_bytes_read:
  assumes "telemetry_read bs = Some d"
  shows "telemetry_bytes d = take TELEMETRY_SIZE bs"
proof -
  have len: "18 \<le> length bs"
    using assms by (auto simp: telemetry_read_def TELEMETRY_SIZE_def split: if_splits)
  have d: "telemetry_bytes d = (bslice 0 1 bs @ bslice 1 1 bs) @ bslice 2 8 bs @ bslice 10 8 bs"
    using assms len
    by (auto simp: telemetry_read_def TELEMETRY_SIZE_def telemetry_bytes_def be_bytes_word
        slice_one split: if_splits simp del: One_nat_def length_greater_0_conv)
  show ?thesis
    unfolding d TELEMETRY_SIZE_def by (simp add: slice_join flip: slice_0)
qed

interpretation telem: fixed_codec telemetry_bytes telemetry_read TELEMETRY_SIZE
proof unfold_locales
  fix a bs
  show "length (telemetry_bytes a) = TELEMETRY_SIZE"
    by (simp add: telemetry_bytes_def TELEMETRY_SIZE_def)
  show "length bs < TELEMETRY_SIZE \<Longrightarrow> telemetry_read bs = None"
    by (simp add: telemetry_read_def)
qed (simp_all add: telemetry_read_bytes telemetry_bytes_read)

end
