(* ===== verification/Subscriptions.thy ===== *)
theory Subscriptions
  imports Wire
begin

text \<open>
  The per-connection subscription table of \<^verbatim>\<open>transport_quicly.c\<close>: 32 slots that map a track
  (type and name) to its delivery flags, its one-byte wire alias and the stream that carries it.
  The contract of the table is the locale \<open>track_table\<close> (a partial map of bounded size); the
  slot operations of the sources are an interpretation of it.
\<close>

section \<open>Table and operations\<close>

record track_subscription =
  su_track :: moq_track_id
  su_alias :: u8
  su_active :: bool
  su_stream :: "nat option"

definition MAX_SUBSCRIPTIONS :: nat where "MAX_SUBSCRIPTIONS = 32"

definition sub_matches :: "moq_track_type \<Rightarrow> cstr \<Rightarrow> track_subscription \<Rightarrow> bool" where
  "sub_matches ty name s \<longleftrightarrow>
     su_active s \<and> tk_type (su_track s) = ty \<and> tk_name (su_track s) = name"

text \<open>
  \<open>out_track\<close> is the track record the caller passes in: for an alias below 8 the function
  overwrites its type and name only. The result is \<open>None\<close> for the return value \<open>-1\<close>.
\<close>

definition find_subscription_by_alias ::
  "track_subscription list \<Rightarrow> u8 \<Rightarrow> moq_track_id \<Rightarrow> moq_track_id option" where
  "find_subscription_by_alias subs alias out_track =
     (if alias < 8 then Some (out_track\<lparr>tk_type := ucast alias, tk_name := []\<rparr>)
      else map_option (\<lambda>i. su_track (subs ! i))
             (find_index (\<lambda>s. su_active s \<and> su_alias s = alias) subs))"

definition find_alias_by_track :: "track_subscription list \<Rightarrow> moq_track_id \<Rightarrow> u8 option" where
  "find_alias_by_track subs track =
     (if tk_name track = [] then Some (ucast (tk_type track))
      else map_option (\<lambda>i. su_alias (subs ! i))
             (find_index (sub_matches (tk_type track) (tk_name track)) subs))"

definition is_subscribed :: "track_subscription list \<Rightarrow> moq_track_id \<Rightarrow> bool" where
  "is_subscribed subs track \<longleftrightarrow> find_alias_by_track subs track \<noteq> None"

definition add_subscription ::
  "track_subscription list \<Rightarrow> moq_track_type \<Rightarrow> u8 \<Rightarrow> cstr \<Rightarrow> u8 \<Rightarrow> track_subscription list" where
  "add_subscription subs ty flags name alias =
     (case find_index (sub_matches ty name) subs of
        Some i \<Rightarrow>
          subs[i := (subs ! i)\<lparr>su_alias := alias, su_track := (su_track (subs ! i))\<lparr>tk_flags := flags\<rparr>\<rparr>]
      | None \<Rightarrow>
          (case find_index (\<lambda>s. \<not> su_active s) subs of
             Some i \<Rightarrow>
               subs[i := \<lparr>su_track = \<lparr>tk_type = ty, tk_flags = flags, tk_name = cstr_copy 64 name\<rparr>,
                          su_alias = alias, su_active = True, su_stream = None\<rparr>]
           | None \<Rightarrow> subs))"

text \<open>Removal also returns the stream it shuts down, if the slot had one.\<close>

definition remove_subscription ::
  "track_subscription list \<Rightarrow> moq_track_type \<Rightarrow> cstr \<Rightarrow> nat option \<times> track_subscription list" where
  "remove_subscription subs ty name =
     (case find_index (sub_matches ty name) subs of
        Some i \<Rightarrow> (su_stream (subs ! i), subs[i := (subs ! i)\<lparr>su_active := False, su_stream := None\<rparr>])
      | None \<Rightarrow> (None, subs))"

definition clear_subscription_stream :: "track_subscription list \<Rightarrow> nat \<Rightarrow> track_subscription list" where
  "clear_subscription_stream subs stream =
     (case find_index (\<lambda>s. su_active s \<and> su_stream s = Some stream) subs of
        Some i \<Rightarrow> subs[i := (subs ! i)\<lparr>su_stream := None\<rparr>]
      | None \<Rightarrow> subs)"

text \<open>The loop of \<^verbatim>\<open>parse_track_stream_messages\<close> that maps an incoming stream to its slot.\<close>

definition map_stream_to_alias :: "track_subscription list \<Rightarrow> u8 \<Rightarrow> nat \<Rightarrow> track_subscription list" where
  "map_stream_to_alias subs alias stream =
     (case find_index (\<lambda>s. su_active s \<and> su_alias s = alias) subs of
        Some i \<Rightarrow> subs[i := (subs ! i)\<lparr>su_stream := Some stream\<rparr>]
      | None \<Rightarrow> subs)"

text \<open>The alias \<^verbatim>\<open>transport_subscribe\<close> picks: an \<^verbatim>\<open>int\<close> scan cut to one byte.\<close>

definition next_alias :: "track_subscription list \<Rightarrow> u8" where
  "next_alias subs =
     of_nat (fold (\<lambda>s n. if su_active s \<and> n \<le> unat (su_alias s) then unat (su_alias s) + 1 else n)
               subs 8)"

text \<open>
  The part of \<^verbatim>\<open>transport_subscribe\<close> that settles the alias of a track on one connection:
  a known track keeps its alias, a new one gets the next alias and a slot.
\<close>

definition subscribe_alias ::
  "track_subscription list \<Rightarrow> moq_track_id \<Rightarrow> u8 \<times> track_subscription list" where
  "subscribe_alias subs track =
     (case find_alias_by_track subs track of
        Some alias \<Rightarrow> (alias, subs)
      | None \<Rightarrow>
          (let alias = (if tk_name track = [] then ucast (tk_type track) else next_alias subs)
           in (alias, add_subscription subs (tk_type track) (tk_flags track) (tk_name track) alias)))"

section \<open>The contract\<close>

locale track_table =
  fixes lookup :: "'t \<Rightarrow> 'k \<Rightarrow> 'v option"
    and add :: "'k \<Rightarrow> 'v \<Rightarrow> 't \<Rightarrow> 't"
    and remove :: "'k \<Rightarrow> 't \<Rightarrow> 't"
    and room :: "'k \<Rightarrow> 't \<Rightarrow> bool"
    and key_ok :: "'k \<Rightarrow> bool"
    and invar :: "'t \<Rightarrow> bool"
  assumes lookup_add: "invar t \<Longrightarrow> key_ok k \<Longrightarrow> room k t \<Longrightarrow> lookup (add k v t) = (lookup t)(k \<mapsto> v)"
    and add_full: "invar t \<Longrightarrow> key_ok k \<Longrightarrow> \<not> room k t \<Longrightarrow> add k v t = t"
    and lookup_remove: "invar t \<Longrightarrow> lookup (remove k t) = (lookup t)(k := None)"
    and room_known: "lookup t k \<noteq> None \<Longrightarrow> room k t"
    and invar_add: "invar t \<Longrightarrow> key_ok k \<Longrightarrow> invar (add k v t)"
    and invar_remove: "invar t \<Longrightarrow> invar (remove k t)"
begin

lemma add_then_lookup:
  "invar t \<Longrightarrow> key_ok k \<Longrightarrow> room k t \<Longrightarrow> lookup (add k v t) k = Some v"
  by (simp add: lookup_add)

lemma add_keeps_others: "invar t \<Longrightarrow> key_ok k \<Longrightarrow> k' \<noteq> k \<Longrightarrow> lookup (add k v t) k' = lookup t k'"
  by (cases "room k t") (simp_all add: lookup_add add_full)

lemma update_known: "invar t \<Longrightarrow> key_ok k \<Longrightarrow> lookup t k = Some w \<Longrightarrow> lookup (add k v t) k = Some v"
  by (rule add_then_lookup) (simp_all add: room_known)

lemma remove_then_lookup: "invar t \<Longrightarrow> lookup (remove k t) k = None"
  by (simp add: lookup_remove)

lemma remove_keeps_others: "invar t \<Longrightarrow> k' \<noteq> k \<Longrightarrow> lookup (remove k t) k' = lookup t k'"
  by (simp add: lookup_remove)

text \<open>A history of additions and removals, \<open>Some v\<close> to add and \<open>None\<close> to remove.\<close>

definition apply_history :: "('k \<times> 'v option) list \<Rightarrow> 't \<Rightarrow> 't" where
  "apply_history h t =
     fold (\<lambda>(k, ov) t. case ov of Some v \<Rightarrow> add k v t | None \<Rightarrow> remove k t) h t"

lemma invar_history: "invar t \<Longrightarrow> \<forall>k \<in> fst ` set h. key_ok k \<Longrightarrow> invar (apply_history h t)"
  unfolding apply_history_def
  by (induction h arbitrary: t) (auto simp: invar_add invar_remove split: option.splits)

lemma history_untouched:
  "invar t \<Longrightarrow> \<forall>k \<in> fst ` set h. key_ok k \<Longrightarrow> k \<notin> fst ` set h \<Longrightarrow>
   lookup (apply_history h t) k = lookup t k"
  unfolding apply_history_def
proof (induction h arbitrary: t)
  case (Cons e h)
  obtain k' ov where e: "e = (k', ov)" by (cases e)
  show ?case
  proof (cases ov)
    case None
    with Cons.prems e Cons.IH [of "remove k' t"] show ?thesis
      by (simp add: invar_remove remove_keeps_others)
  next
    case (Some v)
    with Cons.prems e Cons.IH [of "add k' v t"] show ?thesis
      by (simp add: invar_add add_keeps_others)
  qed
qed simp

text \<open>The last word on a track decides: what was added last is found, what was removed is not.\<close>

lemma history_last_add:
  assumes "invar t" "\<forall>k \<in> fst ` set (h @ h'). key_ok k" "key_ok k" "k \<notin> fst ` set h'"
    "room k (apply_history h t)"
  shows "lookup (apply_history (h @ (k, Some v) # h') t) k = Some v"
proof -
  let ?t = "apply_history h t"
  have inv: "invar ?t" using assms(1,2) by (intro invar_history) auto
  have "apply_history (h @ (k, Some v) # h') t = apply_history h' (add k v ?t)"
    by (simp add: apply_history_def)
  moreover have "invar (add k v ?t)" using inv assms(3) by (rule invar_add)
  ultimately show ?thesis
    using history_untouched [of "add k v ?t" h' k] assms add_then_lookup [OF inv, of k v] by auto
qed

lemma history_last_remove:
  assumes "invar t" "\<forall>k \<in> fst ` set (h @ h'). key_ok k" "k \<notin> fst ` set h'"
  shows "lookup (apply_history (h @ (k, None) # h') t) k = None"
proof -
  let ?t = "apply_history h t"
  have inv: "invar ?t" using assms(1,2) by (intro invar_history) auto
  have "apply_history (h @ (k, None) # h') t = apply_history h' (remove k ?t)"
    by (simp add: apply_history_def)
  then show ?thesis
    using history_untouched [of "remove k ?t" h' k] assms remove_then_lookup [OF inv, of k]
      invar_remove [OF inv, of k] by auto
qed

end

section \<open>The slots implement the contract\<close>

type_synonym track_key = "moq_track_type \<times> cstr"

definition subs_lookup :: "track_subscription list \<Rightarrow> track_key \<Rightarrow> (u8 \<times> u8) option" where
  "subs_lookup subs k =
     map_option (\<lambda>i. (tk_flags (su_track (subs ! i)), su_alias (subs ! i)))
       (find_index (sub_matches (fst k) (snd k)) subs)"

abbreviation subs_add :: "track_key \<Rightarrow> u8 \<times> u8 \<Rightarrow> track_subscription list \<Rightarrow> track_subscription list" where
  "subs_add k v subs \<equiv> add_subscription subs (fst k) (fst v) (snd k) (snd v)"

abbreviation subs_remove :: "track_key \<Rightarrow> track_subscription list \<Rightarrow> track_subscription list" where
  "subs_remove k subs \<equiv> snd (remove_subscription subs (fst k) (snd k))"

definition subs_room :: "track_key \<Rightarrow> track_subscription list \<Rightarrow> bool" where
  "subs_room k subs \<longleftrightarrow>
     (\<exists>s \<in> set subs. sub_matches (fst k) (snd k) s \<or> \<not> su_active s)"

definition name_ok :: "cstr \<Rightarrow> bool" where
  "name_ok name \<longleftrightarrow> length name < 64 \<and> 0 \<notin> set name"

definition subs_inv :: "track_subscription list \<Rightarrow> bool" where
  "subs_inv subs \<longleftrightarrow>
     length subs = MAX_SUBSCRIPTIONS \<and>
     (\<forall>s \<in> set subs. su_active s \<longrightarrow> name_ok (tk_name (su_track s))) \<and>
     (\<forall>i < length subs. \<forall>j < length subs. \<forall>ty name.
        sub_matches ty name (subs ! i) \<longrightarrow> sub_matches ty name (subs ! j) \<longrightarrow> i = j)"

lemma sub_matches_key: "sub_matches ty name s \<Longrightarrow> sub_matches ty' name' s \<Longrightarrow> ty' = ty \<and> name' = name"
  by (auto simp: sub_matches_def)

lemma subs_inv_unique:
  "subs_inv subs \<Longrightarrow> i < length subs \<Longrightarrow> j < length subs \<Longrightarrow> sub_matches ty name (subs ! i) \<Longrightarrow>
   sub_matches ty name (subs ! j) \<Longrightarrow> i = j"
  unfolding subs_inv_def by blast

lemma find_sub_unique:
  "subs_inv subs \<Longrightarrow> i < length subs \<Longrightarrow> sub_matches ty name (subs ! i) \<Longrightarrow>
   find_index (sub_matches ty name) subs = Some i"
  by (rule find_index_unique) (auto dest: subs_inv_unique)

lemma subs_lookup_Some_iff:
  assumes "subs_inv subs"
  shows "subs_lookup subs k = Some v \<longleftrightarrow>
    (\<exists>i < length subs. sub_matches (fst k) (snd k) (subs ! i) \<and>
       v = (tk_flags (su_track (subs ! i)), su_alias (subs ! i)))"
proof
  assume "subs_lookup subs k = Some v"
  then show "\<exists>i < length subs. sub_matches (fst k) (snd k) (subs ! i) \<and>
       v = (tk_flags (su_track (subs ! i)), su_alias (subs ! i))"
    by (auto simp: subs_lookup_def dest!: find_index_SomeD)
next
  assume "\<exists>i < length subs. sub_matches (fst k) (snd k) (subs ! i) \<and>
       v = (tk_flags (su_track (subs ! i)), su_alias (subs ! i))"
  then show "subs_lookup subs k = Some v"
    using find_sub_unique [OF assms] by (auto simp: subs_lookup_def)
qed

lemma subs_inv_update:
  assumes inv: "subs_inv subs" and i: "i < length subs"
    and ok: "su_active e \<Longrightarrow> name_ok (tk_name (su_track e))"
    and fresh: "\<And>j ty name. j < length subs \<Longrightarrow> sub_matches ty name e \<Longrightarrow>
      sub_matches ty name (subs ! j) \<Longrightarrow> j = i"
  shows "subs_inv (subs[i := e])"
proof -
  have "a = b" if "a < length subs" "b < length subs"
    "sub_matches ty name (subs[i := e] ! a)" "sub_matches ty name (subs[i := e] ! b)" for a b ty name
    using that inv fresh i unfolding subs_inv_def
    by (cases "a = i"; cases "b = i") (auto simp: nth_list_update)
  moreover have "set (subs[i := e]) \<subseteq> insert e (set subs)"
    by (rule set_update_subset_insert)
  ultimately show ?thesis
    using inv ok unfolding subs_inv_def by auto
qed

text \<open>
  Writing slot \<open>i\<close>: the keys the old entry held are gone, the keys of the new entry are there.
\<close>

lemma subs_lookup_update:
  assumes inv: "subs_inv subs" and inv': "subs_inv (subs[i := e])" and i: "i < length subs"
    and act: "sub_matches ty name e" and old: "\<And>ty' name'. sub_matches ty' name' (subs ! i) \<Longrightarrow> ty' = ty \<and> name' = name"
  shows "subs_lookup (subs[i := e]) = (subs_lookup subs)((ty, name) \<mapsto> (tk_flags (su_track e), su_alias e))"
proof (rule ext, rule option_ext)
  fix k v
  show "subs_lookup (subs[i := e]) k = Some v \<longleftrightarrow>
      ((subs_lookup subs)((ty, name) \<mapsto> (tk_flags (su_track e), su_alias e))) k = Some v"
  proof (cases "k = (ty, name)")
    case True
    have "find_index (sub_matches ty name) (subs[i := e]) = Some i"
      using act i by (intro find_sub_unique [OF inv']) simp_all
    with True i show ?thesis by (auto simp: subs_lookup_def)
  next
    case False
    then have "\<not> sub_matches (fst k) (snd k) e" "\<not> sub_matches (fst k) (snd k) (subs ! i)"
      using sub_matches_key [OF act] old by (metis prod.collapse)+
    with False show ?thesis
      unfolding subs_lookup_Some_iff [OF inv] fun_upd_other [OF False] subs_lookup_Some_iff [OF inv']
      by (metis length_list_update nth_list_update_eq nth_list_update_neq)
  qed
qed

lemma subs_lookup_deactivate:
  assumes inv: "subs_inv subs" and inv': "subs_inv (subs[i := e])" and i: "i < length subs"
    and act: "\<not> su_active e" and old: "sub_matches ty name (subs ! i)"
  shows "subs_lookup (subs[i := e]) = (subs_lookup subs)((ty, name) := None)"
proof (rule ext, rule option_ext)
  fix k v
  have ne: "\<not> sub_matches ty' name' e" for ty' name' using act by (simp add: sub_matches_def)
  show "subs_lookup (subs[i := e]) k = Some v \<longleftrightarrow> ((subs_lookup subs)((ty, name) := None)) k = Some v"
  proof (cases "k = (ty, name)")
    case True
    have "\<not> sub_matches ty name (subs[i := e] ! j)" if "j < length subs" for j
      using that ne old i subs_inv_unique [OF inv that i] by (cases "j = i") auto
    with True show ?thesis
      unfolding subs_lookup_Some_iff [OF inv'] by auto
  next
    case False
    then have "\<not> sub_matches (fst k) (snd k) (subs ! i)"
      using sub_matches_key [OF old] by (metis prod.collapse)
    with False ne show ?thesis
      unfolding subs_lookup_Some_iff [OF inv] fun_upd_other [OF False] subs_lookup_Some_iff [OF inv']
      by (metis length_list_update nth_list_update_eq nth_list_update_neq)
  qed
qed

lemma add_subscription_known:
  assumes "find_index (sub_matches ty name) subs = Some i"
  shows "add_subscription subs ty flags name alias =
    subs[i := (subs ! i)\<lparr>su_alias := alias, su_track := (su_track (subs ! i))\<lparr>tk_flags := flags\<rparr>\<rparr>]"
  using assms by (simp add: add_subscription_def)

lemma sub_matches_restamp [simp]:
  "sub_matches ty name (s\<lparr>su_alias := a, su_track := (su_track s)\<lparr>tk_flags := fl\<rparr>\<rparr>) = sub_matches ty name s"
  by (simp add: sub_matches_def)

lemma add_subscription_correct:
  assumes inv: "subs_inv subs" and name: "name_ok name"
  shows "subs_inv (add_subscription subs ty flags name alias)"
    and "subs_room (ty, name) subs \<Longrightarrow> subs_lookup (add_subscription subs ty flags name alias) =
      (subs_lookup subs)((ty, name) \<mapsto> (flags, alias))"
proof -
  have "subs_inv (add_subscription subs ty flags name alias) \<and>
    (subs_room (ty, name) subs \<longrightarrow> subs_lookup (add_subscription subs ty flags name alias) =
      (subs_lookup subs)((ty, name) \<mapsto> (flags, alias)))"
  proof (cases "find_index (sub_matches ty name) subs")
    case (Some i)
    let ?e = "(subs ! i)\<lparr>su_alias := alias, su_track := (su_track (subs ! i))\<lparr>tk_flags := flags\<rparr>\<rparr>"
    have i: "i < length subs" "sub_matches ty name (subs ! i)"
      using find_index_SomeD [OF Some] by auto
    have inv': "subs_inv (subs[i := ?e])"
    proof (rule subs_inv_update [OF inv i(1)])
      show "name_ok (tk_name (su_track ?e))"
        using i inv by (auto simp: subs_inv_def sub_matches_def)
      show "j = i" if "j < length subs" "sub_matches ty' name' ?e" "sub_matches ty' name' (subs ! j)"
        for j ty' name'
        using that subs_inv_unique [OF inv that(1) i(1) that(3)] by simp
    qed
    have "sub_matches ty name ?e" using i(2) by simp
    from subs_lookup_update [OF inv inv' i(1) this sub_matches_key [OF i(2)]] inv'
    show ?thesis by (simp add: add_subscription_known [OF Some])
  next
    case None
    show ?thesis
    proof (cases "find_index (\<lambda>s. \<not> su_active s) subs")
      case (Some i)
      let ?e = "\<lparr>su_track = \<lparr>tk_type = ty, tk_flags = flags, tk_name = name\<rparr>,
                   su_alias = alias, su_active = True, su_stream = None\<rparr>"
      have i: "i < length subs" "\<not> su_active (subs ! i)"
        using find_index_SomeD [OF Some] by auto
      have e: "sub_matches ty name ?e" by (simp add: sub_matches_def)
      have none: "\<not> sub_matches ty name (subs ! j)" if "j < length subs" for j
        using None that by (simp add: scan_simps)
      have inv': "subs_inv (subs[i := ?e])"
      proof (rule subs_inv_update [OF inv i(1)])
        show "j = i" if "j < length subs" "sub_matches ty' name' ?e" "sub_matches ty' name' (subs ! j)"
          for j ty' name'
          using that none [OF that(1)] sub_matches_key [OF e that(2)] by simp
      qed (use name in simp)
      have "add_subscription subs ty flags name alias = subs[i := ?e]"
        using None Some name by (simp add: add_subscription_def cstr_copy_id name_ok_def)
      with inv' subs_lookup_update [OF inv inv' i(1) e] i(2) show ?thesis
        by (auto simp: sub_matches_def)
    next
      case full: None
      with None have "\<not> subs_room (ty, name) subs"
        by (auto simp: subs_room_def scan_simps)
      with None full inv show ?thesis by (simp add: add_subscription_def)
    qed
  qed
  then show "subs_inv (add_subscription subs ty flags name alias)"
    and "subs_room (ty, name) subs \<Longrightarrow> subs_lookup (add_subscription subs ty flags name alias) =
      (subs_lookup subs)((ty, name) \<mapsto> (flags, alias))" by auto
qed

lemma add_subscription_full:
  "\<not> subs_room (ty, name) subs \<Longrightarrow> add_subscription subs ty flags name alias = subs"
  by (auto simp: add_subscription_def subs_room_def split: option.splits dest!: find_index_SomeD)

lemma remove_subscription_correct:
  assumes inv: "subs_inv subs"
  shows "subs_inv (snd (remove_subscription subs ty name))"
    and "subs_lookup (snd (remove_subscription subs ty name)) = (subs_lookup subs)((ty, name) := None)"
proof -
  have "subs_inv (snd (remove_subscription subs ty name)) \<and>
    subs_lookup (snd (remove_subscription subs ty name)) = (subs_lookup subs)((ty, name) := None)"
  proof (cases "find_index (sub_matches ty name) subs")
    case (Some i)
    let ?e = "(subs ! i)\<lparr>su_active := False, su_stream := None\<rparr>"
    have i: "i < length subs" "sub_matches ty name (subs ! i)"
      using find_index_SomeD [OF Some] by auto
    have inv': "subs_inv (subs[i := ?e])"
      using i inv by (intro subs_inv_update) (auto simp: sub_matches_def)
    with subs_lookup_deactivate [OF inv inv' i(1) _ i(2)] Some show ?thesis
      by (simp add: remove_subscription_def)
  next
    case None
    then have "subs_lookup subs (ty, name) = None" by (simp add: subs_lookup_def)
    with None inv show ?thesis by (auto simp: remove_subscription_def)
  qed
  then show "subs_inv (snd (remove_subscription subs ty name))"
    and "subs_lookup (snd (remove_subscription subs ty name)) = (subs_lookup subs)((ty, name) := None)"
    by auto
qed

interpretation subs_tab: track_table subs_lookup subs_add subs_remove subs_room "\<lambda>k. name_ok (snd k)" subs_inv
proof unfold_locales
  fix t k and v :: "u8 \<times> u8"
  show "\<not> subs_room k t \<Longrightarrow> subs_add k v t = t"
    by (simp add: add_subscription_full)
  show "subs_lookup t k \<noteq> None \<Longrightarrow> subs_room k t"
    by (auto simp: subs_lookup_def subs_room_def dest!: find_index_SomeD)
qed (simp_all add: add_subscription_correct remove_subscription_correct)

section \<open>A bounded map\<close>

text \<open>
  The abstract table: a finite map from tracks to flags and alias with at most 32 keys, where an
  addition of a new key to a full table has no effect.
\<close>

type_synonym track_map = "track_key \<rightharpoonup> u8 \<times> u8"

definition spec_step :: "track_key \<times> (u8 \<times> u8) option \<Rightarrow> track_map \<Rightarrow> track_map" where
  "spec_step e m =
     (case e of
        (k, None) \<Rightarrow> m(k := None)
      | (k, Some v) \<Rightarrow> if k \<in> dom m \<or> card (dom m) < MAX_SUBSCRIPTIONS then m(k \<mapsto> v) else m)"

definition subs_step :: "track_key \<times> (u8 \<times> u8) option \<Rightarrow> track_subscription list \<Rightarrow> track_subscription list" where
  "subs_step e subs =
     (case e of
        (k, None) \<Rightarrow> snd (remove_subscription subs (fst k) (snd k))
      | (k, Some v) \<Rightarrow> add_subscription subs (fst k) (fst v) (snd k) (snd v))"

definition sub_key :: "track_subscription \<Rightarrow> track_key" where
  "sub_key s = (tk_type (su_track s), tk_name (su_track s))"

lemma sub_matches_sub_key: "sub_matches ty name s \<longleftrightarrow> su_active s \<and> sub_key s = (ty, name)"
  by (auto simp: sub_matches_def sub_key_def)

lemma dom_subs_lookup:
  assumes "subs_inv subs"
  shows "dom (subs_lookup subs) = (\<lambda>i. sub_key (subs ! i)) ` {i. i < length subs \<and> su_active (subs ! i)}"
proof (rule set_eqI)
  fix k
  have "k \<in> dom (subs_lookup subs) \<longleftrightarrow> (\<exists>i < length subs. sub_matches (fst k) (snd k) (subs ! i))"
    using subs_lookup_Some_iff [OF assms, of k] by auto
  then show "k \<in> dom (subs_lookup subs) \<longleftrightarrow>
      k \<in> (\<lambda>i. sub_key (subs ! i)) ` {i. i < length subs \<and> su_active (subs ! i)}"
    by (auto simp: sub_matches_sub_key)
qed

lemma card_dom_subs_lookup:
  assumes inv: "subs_inv subs"
  shows "card (dom (subs_lookup subs)) = card {i. i < length subs \<and> su_active (subs ! i)}"
proof -
  have "inj_on (\<lambda>i. sub_key (subs ! i)) {i. i < length subs \<and> su_active (subs ! i)}"
  proof (rule inj_onI)
    fix i j
    assume "i \<in> {i. i < length subs \<and> su_active (subs ! i)}"
      and "j \<in> {i. i < length subs \<and> su_active (subs ! i)}"
      and "sub_key (subs ! i) = sub_key (subs ! j)"
    then show "i = j"
      using subs_inv_unique [OF inv, of i j "fst (sub_key (subs ! i))" "snd (sub_key (subs ! i))"]
      by (simp add: sub_matches_sub_key)
  qed
  then show ?thesis by (simp add: dom_subs_lookup [OF inv] card_image)
qed

lemma subs_room_iff:
  assumes inv: "subs_inv subs"
  shows "subs_room k subs \<longleftrightarrow>
    k \<in> dom (subs_lookup subs) \<or> card (dom (subs_lookup subs)) < MAX_SUBSCRIPTIONS"
proof -
  have len: "length subs = MAX_SUBSCRIPTIONS" using inv by (simp add: subs_inv_def)
  let ?A = "{i. i < length subs \<and> su_active (subs ! i)}"
  have sub: "?A \<subseteq> {..<length subs}" by auto
  have "card ?A < length subs \<longleftrightarrow> ?A \<noteq> {..<length subs}"
  proof
    assume "?A \<noteq> {..<length subs}"
    with sub have "?A \<subset> {..<length subs}" by (rule psubsetI)
    from psubset_card_mono [OF finite_lessThan this] show "card ?A < length subs" by (simp only: card_lessThan)
  qed (metis card_lessThan nat_neq_iff)
  also have "\<dots> \<longleftrightarrow> (\<exists>i < length subs. \<not> su_active (subs ! i))"
    by (auto simp: set_eq_iff)
  also have "\<dots> \<longleftrightarrow> (\<exists>s \<in> set subs. \<not> su_active s)"
    by (metis in_set_conv_nth)
  finally have "card (dom (subs_lookup subs)) < MAX_SUBSCRIPTIONS \<longleftrightarrow> (\<exists>s \<in> set subs. \<not> su_active s)"
    by (simp add: card_dom_subs_lookup [OF inv] len)
  moreover have "k \<in> dom (subs_lookup subs) \<longleftrightarrow> (\<exists>s \<in> set subs. sub_matches (fst k) (snd k) s)"
    using find_index_None_iff [of "sub_matches (fst k) (snd k)" subs]
    by (cases "find_index (sub_matches (fst k) (snd k)) subs") (auto simp: subs_lookup_def dom_def)
  ultimately show ?thesis by (auto simp: subs_room_def)
qed

lemma subs_step_correct:
  assumes "subs_inv subs" "name_ok (snd (fst e))"
  shows "subs_inv (subs_step e subs)" "subs_lookup (subs_step e subs) = spec_step e (subs_lookup subs)"
proof -
  obtain k ov where e: "e = (k, ov)" by (cases e)
  show "subs_inv (subs_step e subs)"
    using assms e by (cases ov) (simp_all add: subs_step_def subs_tab.invar_add subs_tab.invar_remove)
  show "subs_lookup (subs_step e subs) = spec_step e (subs_lookup subs)"
  proof (cases ov)
    case None
    with assms e show ?thesis by (simp add: subs_step_def spec_step_def subs_tab.lookup_remove)
  next
    case (Some v)
    with assms e show ?thesis
      using subs_room_iff [OF assms(1), of k] subs_tab.lookup_add [of subs k v] subs_tab.add_full [of subs k v]
      by (auto simp: subs_step_def spec_step_def)
  qed
qed

definition empty_subs :: "track_subscription list" where
  "empty_subs = replicate MAX_SUBSCRIPTIONS
     \<lparr>su_track = zero_track, su_alias = 0, su_active = False, su_stream = None\<rparr>"

lemma subs_inv_empty: "subs_inv empty_subs"
  by (auto simp: subs_inv_def empty_subs_def sub_matches_def)

lemma subs_lookup_empty: "subs_lookup empty_subs = Map.empty"
  by (rule ext) (simp add: subs_lookup_def scan_simps empty_subs_def sub_matches_def)

lemma subs_fold_correct:
  "subs_inv subs \<Longrightarrow> \<forall>e \<in> set h. name_ok (snd (fst e)) \<Longrightarrow>
   subs_inv (fold subs_step h subs) \<and>
   subs_lookup (fold subs_step h subs) = fold spec_step h (subs_lookup subs)"
  by (induction h arbitrary: subs) (simp_all add: subs_step_correct)

text \<open>
  C21. The subscription table of a connection refines a map with at most 32 tracks. Start from the
  zeroed table of a new connection and run any sequence of subscriptions and unsubscriptions with
  names that fit the 64-byte buffer: the slots always hold each track at most once, and looking a
  track up gives what the same sequence gives on the abstract map, in which re-subscribing updates
  flags and alias and a new track is dropped when 32 are held.
\<close>

theorem subscriptions_refine_map:
  assumes "\<forall>e \<in> set h. name_ok (snd (fst e))"
  shows "subs_inv (fold subs_step h empty_subs) \<and>
    subs_lookup (fold subs_step h empty_subs) = fold spec_step h Map.empty"
  using subs_fold_correct [OF subs_inv_empty assms] by (simp add: subs_lookup_empty)

theorem subscriptions_refine_map_witness:
  "subs_lookup (fold subs_step
      [((4, [97]), Some (1, 8)), ((4, [98]), Some (0, 9)), ((4, [97]), None), ((4, [98]), Some (2, 7))]
      empty_subs) (4, [98]) = Some (2, 7)"
proof -
  have "subs_lookup (fold subs_step
      [((4, [97]), Some (1, 8)), ((4, [98]), Some (0, 9)), ((4, [97]), None), ((4, [98]), Some (2, 7))]
      empty_subs) =
    fold spec_step
      [((4, [97]), Some (1, 8)), ((4, [98]), Some (0, 9)), ((4, [97]), None), ((4, [98]), Some (2, 7))]
      Map.empty"
    by (rule conjunct2 [OF subscriptions_refine_map]) (simp add: name_ok_def)
  then show ?thesis by (simp add: spec_step_def MAX_SUBSCRIPTIONS_def)
qed

section \<open>Aliases\<close>

text \<open>No two active slots share an alias, and the aliases of the slots are outside the range
  \<open>0..7\<close> that stands for the unnamed tracks.\<close>

definition alias_inv :: "track_subscription list \<Rightarrow> bool" where
  "alias_inv subs \<longleftrightarrow>
     (\<forall>s \<in> set subs. su_active s \<longrightarrow> 8 \<le> su_alias s) \<and>
     (\<forall>i < length subs. \<forall>j < length subs.
        su_active (subs ! i) \<longrightarrow> su_active (subs ! j) \<longrightarrow> su_alias (subs ! i) = su_alias (subs ! j) \<longrightarrow> i = j)"

abbreviation alias_scan :: "track_subscription list \<Rightarrow> nat \<Rightarrow> nat" where
  "alias_scan \<equiv> fold (\<lambda>s n. if su_active s \<and> n \<le> unat (su_alias s) then unat (su_alias s) + 1 else n)"

lemma alias_scan_bounds:
  "n \<le> alias_scan subs n" "s \<in> set subs \<Longrightarrow> su_active s \<Longrightarrow> unat (su_alias s) < alias_scan subs n"
proof -
  have ge: "n \<le> alias_scan subs n" for n subs
  proof (induction subs arbitrary: n)
    case (Cons x xs)
    show ?case
      using Cons.IH [of "unat (su_alias x) + 1"] Cons.IH [of n] by auto
  qed simp
  show "n \<le> alias_scan subs n" by (rule ge)
  show "s \<in> set subs \<Longrightarrow> su_active s \<Longrightarrow> unat (su_alias s) < alias_scan subs n"
  proof (induction subs arbitrary: n)
    case (Cons x xs)
    show ?case
    proof (cases "s = x")
      case True
      with Cons.prems ge [of "unat (su_alias x) + 1" xs] ge [of n xs] show ?thesis by auto
    next
      case False
      with Cons show ?thesis by auto
    qed
  qed simp
qed

lemma alias_scan_le:
  "n \<le> b \<Longrightarrow> \<forall>s \<in> set subs. su_active s \<longrightarrow> unat (su_alias s) < b \<Longrightarrow> alias_scan subs n \<le> b"
  by (induction subs arbitrary: n) auto

lemma next_alias_fresh:
  assumes "\<forall>s \<in> set subs. su_active s \<longrightarrow> su_alias s < 255"
  shows "8 \<le> next_alias subs" "s \<in> set subs \<Longrightarrow> su_active s \<Longrightarrow> su_alias s < next_alias subs"
proof -
  have "\<forall>s \<in> set subs. su_active s \<longrightarrow> unat (su_alias s) < 255"
    using assms by (auto simp: word_less_nat_alt)
  then have "alias_scan subs 8 \<le> 255" by (intro alias_scan_le) auto
  then have *: "unat (next_alias subs) = alias_scan subs 8"
    by (simp add: next_alias_def unat_of_nat)
  show "8 \<le> next_alias subs"
    using alias_scan_bounds(1) [of 8 subs] * by (simp add: word_le_nat_alt)
  show "s \<in> set subs \<Longrightarrow> su_active s \<Longrightarrow> su_alias s < next_alias subs"
    using alias_scan_bounds(2) [of s subs 8] * by (simp add: word_less_nat_alt)
qed

lemma find_subscription_by_alias_slot:
  assumes "alias_inv subs" "i < length subs" "su_active (subs ! i)"
  shows "find_subscription_by_alias subs (su_alias (subs ! i)) out = Some (su_track (subs ! i))"
proof -
  have "find_index (\<lambda>s. su_active s \<and> su_alias s = su_alias (subs ! i)) subs = Some i"
    using assms by (intro find_index_unique) (auto simp: alias_inv_def)
  moreover have "\<not> su_alias (subs ! i) < 8"
    using assms by (auto simp: alias_inv_def not_less)
  ultimately show ?thesis by (simp add: find_subscription_by_alias_def)
qed

lemma alias_inv_update:
  assumes inv: "alias_inv subs" and i: "i < length subs" and al: "8 \<le> su_alias e"
    and fresh: "\<And>s. s \<in> set subs \<Longrightarrow> su_active s \<Longrightarrow> su_alias s \<noteq> su_alias e"
  shows "alias_inv (subs[i := e])"
proof -
  have fr: "su_alias (subs ! j) \<noteq> su_alias e" if "j < length subs" "su_active (subs ! j)" for j
    using fresh that by (metis nth_mem)
  have "a = b" if "a < length subs" "b < length subs" "su_active (subs[i := e] ! a)"
    "su_active (subs[i := e] ! b)" "su_alias (subs[i := e] ! a) = su_alias (subs[i := e] ! b)" for a b
  proof (cases "a = i")
    case True
    with that fr [of b] i show ?thesis by (cases "b = i") auto
  next
    case False
    with that fr [of a] i inv show ?thesis by (cases "b = i") (auto simp: alias_inv_def)
  qed
  moreover have "set (subs[i := e]) \<subseteq> insert e (set subs)"
    by (rule set_update_subset_insert)
  ultimately show ?thesis using inv al unfolding alias_inv_def by auto
qed

lemma subscribe_alias_known:
  assumes inv: "alias_inv subs" and name: "tk_name track \<noteq> []"
    and known: "find_alias_by_track subs track = Some a"
  shows "\<exists>tr. find_subscription_by_alias subs a out = Some tr \<and>
    tk_type tr = tk_type track \<and> tk_name tr = tk_name track"
proof -
  obtain i where i: "find_index (sub_matches (tk_type track) (tk_name track)) subs = Some i"
    and a: "a = su_alias (subs ! i)"
    using known name by (auto simp: find_alias_by_track_def)
  have "i < length subs" "su_active (subs ! i)" "tk_type (su_track (subs ! i)) = tk_type track"
    "tk_name (su_track (subs ! i)) = tk_name track"
    using find_index_SomeD [OF i] by (auto simp: sub_matches_def)
  with find_subscription_by_alias_slot [OF inv, of i out] a show ?thesis by auto
qed

lemma subscribe_alias_new:
  assumes inv: "alias_inv subs" and name: "name_ok (tk_name track)" "tk_name track \<noteq> []"
    and low: "\<forall>s \<in> set subs. su_active s \<longrightarrow> su_alias s < 255"
    and room: "subs_room (tk_type track, tk_name track) subs"
    and new: "find_alias_by_track subs track = None"
  shows "alias_inv (snd (subscribe_alias subs track))"
    and "find_subscription_by_alias (snd (subscribe_alias subs track)) (fst (subscribe_alias subs track)) out =
      Some track"
proof -
  have none: "find_index (sub_matches (tk_type track) (tk_name track)) subs = None"
    using new name(2) by (simp add: find_alias_by_track_def)
  then obtain i where i: "find_index (\<lambda>s. \<not> su_active s) subs = Some i"
    using room by (cases "find_index (\<lambda>s. \<not> su_active s) subs") (auto simp: subs_room_def scan_simps)
  have il: "i < length subs" using find_index_SomeD [OF i] by simp
  let ?e = "\<lparr>su_track = track, su_alias = next_alias subs, su_active = True, su_stream = None\<rparr>"
  have sub: "subscribe_alias subs track = (next_alias subs, subs[i := ?e])"
    using new none i name
    by (cases track) (simp add: subscribe_alias_def add_subscription_def cstr_copy_id name_ok_def Let_def)
  have al: "alias_inv (subs[i := ?e])"
    using next_alias_fresh [OF low] by (intro alias_inv_update [OF inv il]) fastforce+
  then show "alias_inv (snd (subscribe_alias subs track))" by (simp add: sub)
  show "find_subscription_by_alias (snd (subscribe_alias subs track)) (fst (subscribe_alias subs track)) out =
      Some track"
    using find_subscription_by_alias_slot [OF al, of i out] il by (simp add: sub)
qed

text \<open>
  C22. The alias that \<^verbatim>\<open>transport_subscribe\<close> settles on resolves back to the track: when the
  active aliases are distinct and lie in \<open>8..254\<close> and the table has room for a named track, then
  after the call \<^verbatim>\<open>find_subscription_by_alias\<close> on the chosen alias returns a track of the same
  type and name, and the active aliases are still distinct and at least 8.
\<close>

theorem subscribe_alias_resolves:
  assumes "alias_inv subs" "name_ok (tk_name track)" "tk_name track \<noteq> []"
    "\<forall>s \<in> set subs. su_active s \<longrightarrow> su_alias s < 255"
    "subs_room (tk_type track, tk_name track) subs"
  shows "alias_inv (snd (subscribe_alias subs track)) \<and>
    (\<exists>tr. find_subscription_by_alias (snd (subscribe_alias subs track))
            (fst (subscribe_alias subs track)) out = Some tr \<and>
          tk_type tr = tk_type track \<and> tk_name tr = tk_name track)"
proof (cases "find_alias_by_track subs track")
  case None
  with subscribe_alias_new [OF assms] show ?thesis by simp
next
  case (Some a)
  with subscribe_alias_known [OF assms(1,3) Some] assms(1) show ?thesis
    by (simp add: subscribe_alias_def)
qed

theorem subscribe_alias_resolves_witness:
  "\<exists>tr. find_subscription_by_alias
      (snd (subscribe_alias empty_subs \<lparr>tk_type = 4, tk_flags = 0, tk_name = [97]\<rparr>))
      (fst (subscribe_alias empty_subs \<lparr>tk_type = 4, tk_flags = 0, tk_name = [97]\<rparr>)) zero_track = Some tr \<and>
    tk_type tr = 4 \<and> tk_name tr = [97]"
proof -
  have "alias_inv empty_subs" "\<forall>s \<in> set empty_subs. su_active s \<longrightarrow> su_alias s < 255"
    "subs_room (4, [97]) empty_subs" "name_ok [97]"
    by (auto simp: alias_inv_def empty_subs_def subs_room_def name_ok_def MAX_SUBSCRIPTIONS_def)
  with subscribe_alias_resolves [of empty_subs "\<lparr>tk_type = 4, tk_flags = 0, tk_name = [97]\<rparr>" zero_track]
  show ?thesis by simp
qed

end
