(* ===== verification/Transport.thy ===== *)
theory Transport
  imports Fec_Cache Arena Subscriptions
begin

text \<open>
  The state of \<^verbatim>\<open>transport_quicly.c\<close> and the interface to the code around it. A transport is
  the record \<open>transport\<close> (\<^verbatim>\<open>struct transport_t\<close>); its connections are objects of a heap, named
  by pointers, because the application and the QUIC library hold pointers to them too. quicly,
  picotls, pathflow and the operating system are not part of the repository: their state is the
  opaque component \<open>t_world\<close>, their operations are the fields of the parameter record \<open>env\<close>, and
  so is the application's event callback, which may change the whole transport.

  Allocations the sources test for failure go through \<open>e_alloc\<close>; the ones they do not test are
  taken to succeed.
\<close>

section \<open>Connections\<close>

type_synonym cptr = nat
type_synonym sptr = nat
type_synonym qptr = nat

text \<open>
  \<^verbatim>\<open>frame_assembler_t\<close>. A slot whose \<^verbatim>\<open>buffers\<close> is NULL has \<open>fa_buffers = None\<close>. The array
  \<^verbatim>\<open>missing_indices\<close> is filled and read within one call, so it is not part of the state.
\<close>

record frame_assembler =
  fa_track_id :: u8
  fa_group_id :: u32
  fa_object_id :: u32
  fa_total_symbols :: u16
  fa_data_symbols :: u16
  fa_symbol_size :: u16
  fa_original_size :: u32
  fa_received_count :: u16
  fa_capacity_symbols :: u16
  fa_capacity_symbol_size :: u16
  fa_buffers :: "bytes list option"
  fa_received_mask :: "bool list"
  fa_decoded :: bool
  fa_priority :: u8
  fa_nack_sent :: bool

definition ASSEMBLER_CACHE_SIZE :: nat where "ASSEMBLER_CACHE_SIZE = 16"
definition MAX_CONNECTIONS :: nat where "MAX_CONNECTIONS = 32"
definition SENT_CACHE_SIZE :: nat where "SENT_CACHE_SIZE = 32"
definition TRANSPORT_MAX_PATHS :: nat where "TRANSPORT_MAX_PATHS = 4"

record conn =
  c_quic :: qptr
  c_id :: u32
  c_subscriptions :: "track_subscription list"
  c_handshake_complete :: bool
  c_authenticated :: bool
  c_stream :: "sptr option"
  c_assemblers :: "frame_assembler list"
  c_assembler_index :: nat

definition empty_assembler :: frame_assembler where
  "empty_assembler = \<lparr>fa_track_id = 0, fa_group_id = 0, fa_object_id = 0, fa_total_symbols = 0,
     fa_data_symbols = 0, fa_symbol_size = 0, fa_original_size = 0, fa_received_count = 0,
     fa_capacity_symbols = 0, fa_capacity_symbol_size = 0, fa_buffers = None,
     fa_received_mask = [], fa_decoded = False, fa_priority = 0, fa_nack_sent = False\<rparr>"

text \<open>What \<^verbatim>\<open>calloc (1, sizeof (transport_conn_t))\<close> makes, with its QUIC connection.\<close>

definition new_conn :: "qptr \<Rightarrow> conn" where
  "new_conn q = \<lparr>c_quic = q, c_id = 0, c_subscriptions = empty_subs, c_handshake_complete = False,
     c_authenticated = False, c_stream = None,
     c_assemblers = replicate ASSEMBLER_CACHE_SIZE empty_assembler, c_assembler_index = 0\<rparr>"

section \<open>The transport\<close>

record stream_ctx =
  sx_is_control :: bool
  sx_header_received :: bool
  sx_alias :: u8

text \<open>\<^verbatim>\<open>sent_object_cache_t\<close>; \<open>se_data = None\<close> is a NULL data pointer.\<close>

record sent_object =
  se_track :: moq_track_id
  se_group_id :: u32
  se_object_id :: u32
  se_data :: "bytes option"
  se_size :: nat
  se_priority :: u8
  se_is_keyframe :: bool
  se_total_symbols :: u16
  se_data_symbols :: u16
  se_symbol_size :: u16

definition empty_sent :: sent_object where
  "empty_sent = \<lparr>se_track = zero_track, se_group_id = 0, se_object_id = 0, se_data = None,
     se_size = 0, se_priority = 0, se_is_keyframe = False, se_total_symbols = 0,
     se_data_symbols = 0, se_symbol_size = 0\<rparr>"

datatype sockaddr = SockIn u32 u16 | SockIn6 "u8 list" u16 | SockNone

text \<open>The fields of pathflow's per-path state that the sources read; fixed-point values are integers.\<close>

record path_state =
  ps_b_ewma :: int
  ps_l_ewma :: int
  ps_p_ewma :: int
  ps_q_ewma :: nat

record ('rs, 'w) transport =
  t_is_server :: bool
  t_fds :: "int list"
  t_num_fds :: nat
  t_local_addrs :: "sockaddr list"
  t_remote_addrs :: "sockaddr list"
  t_ifmon_open :: bool
  t_path_states :: "path_state list"
  t_last_pathflow_update :: u64
  t_min_owd_ns :: "u64 list"
  t_latest_owd_fp :: "int list"
  t_last_telemetry_s_ns :: "u64 list"
  t_last_telemetry_r_ns :: "u64 list"
  t_conns :: "cptr list"
  t_client_conn :: "cptr option"
  t_heap :: "cptr \<Rightarrow> conn option"
  t_streams :: "sptr \<Rightarrow> stream_ctx option"
  t_sent_cache :: "sent_object list"
  t_sent_cache_index :: nat
  t_arena :: arena
  t_fec_buf :: bytes
  t_fec_buf_cap :: nat
  t_fec_first_pkt_time :: u64
  t_fec_track_id :: moq_track_id
  t_fec_object_id :: u32
  t_fec_pkt_count :: u32
  t_fec_priority :: u8
  t_rr_path :: nat
  t_fec_cache :: "'rs fec_cache_entry list"
  t_world :: 'w

section \<open>The environment\<close>

record quic_stats =
  qs_rtt_smoothed :: u32
  qs_cwnd :: u32
  qs_delivery_rate :: u64

record quic_path_stats =
  qp_local :: sockaddr
  qp_sent :: u64
  qp_lost :: u64
  qp_rtt_smoothed :: u32
  qp_bytes_in_flight :: nat
  qp_cwnd :: nat

record path =
  pa_b :: int
  pa_l :: int
  pa_p :: int
  pa_q :: nat
  pa_m :: nat
  pa_x :: nat

record ('rs, 'rq, 'sc, 'w) env =
  e_fec :: "('rs, 'rq, 'sc) fec_lib"
  e_alloc :: "nat \<Rightarrow> bool"
  e_malloc :: "u64 \<Rightarrow> nat option"
  e_uninit :: "nat \<Rightarrow> bytes"
  e_uninit_track :: moq_track_id
  e_callback :: "transport_event \<Rightarrow> cptr \<Rightarrow> ('rs, 'w) transport \<Rightarrow> ('rs, 'w) transport"
  e_time_ns :: "'w \<Rightarrow> u64 \<times> 'w"
  e_time_ms :: "'w \<Rightarrow> u64 \<times> 'w"
  e_ingress_get :: "sptr \<Rightarrow> 'w \<Rightarrow> bytes"
  e_ingress_shift :: "sptr \<Rightarrow> nat \<Rightarrow> 'w \<Rightarrow> 'w"
  e_ingress_receive :: "sptr \<Rightarrow> nat \<Rightarrow> bytes \<Rightarrow> 'w \<Rightarrow> bool \<times> 'w"
  e_egress_write :: "sptr \<Rightarrow> bytes \<Rightarrow> 'w \<Rightarrow> 'w"
  e_egress_shutdown :: "sptr \<Rightarrow> 'w \<Rightarrow> 'w"
  e_egress_vecs :: "sptr \<Rightarrow> 'w \<Rightarrow> nat"
  e_sendstate_is_open :: "sptr \<Rightarrow> 'w \<Rightarrow> bool"
  e_open_stream :: "qptr \<Rightarrow> 'w \<Rightarrow> sptr option \<times> 'w"
  e_reset_stream :: "sptr \<Rightarrow> int \<Rightarrow> 'w \<Rightarrow> 'w"
  e_stream_id :: "sptr \<Rightarrow> 'w \<Rightarrow> nat"
  e_stream_quic :: "sptr \<Rightarrow> 'w \<Rightarrow> qptr"
  e_conn_data :: "qptr \<Rightarrow> 'w \<Rightarrow> cptr option"
  e_close :: "qptr \<Rightarrow> string \<Rightarrow> 'w \<Rightarrow> 'w"
  e_is_closing :: "qptr \<Rightarrow> 'w \<Rightarrow> bool"
  e_send_datagram :: "qptr \<Rightarrow> bytes \<Rightarrow> 'w \<Rightarrow> 'w"
  e_send_datagram_path :: "qptr \<Rightarrow> nat \<Rightarrow> bytes \<Rightarrow> 'w \<Rightarrow> 'w"
  e_get_stats :: "qptr \<Rightarrow> 'w \<Rightarrow> quic_stats option"
  e_get_path_stats :: "qptr \<Rightarrow> nat \<Rightarrow> 'w \<Rightarrow> quic_path_stats option"
  e_max_udp_payload :: nat
  e_fp_from_int :: "nat \<Rightarrow> int"
  e_fp_from_milli :: "nat \<Rightarrow> int"
  e_fp_div :: "int \<Rightarrow> int \<Rightarrow> int"
  e_owd_fp :: "u32 \<Rightarrow> int"
  e_pathflow_optimize :: "nat \<Rightarrow> nat \<Rightarrow> path list \<Rightarrow> int \<Rightarrow> nat \<Rightarrow> path list"

section \<open>Access\<close>

definition upd_world :: "('w \<Rightarrow> 'w) \<Rightarrow> ('rs, 'w) transport \<Rightarrow> ('rs, 'w) transport" where
  "upd_world f t = t\<lparr>t_world := f (t_world t)\<rparr>"

definition put_conn :: "cptr \<Rightarrow> conn \<Rightarrow> ('rs, 'w) transport \<Rightarrow> ('rs, 'w) transport" where
  "put_conn c k t = t\<lparr>t_heap := (t_heap t)(c \<mapsto> k)\<rparr>"

text \<open>Reading through a connection pointer; a pointer to no live connection faults.\<close>

definition with_conn ::
  "cptr \<Rightarrow> ('rs, 'w) transport \<Rightarrow> (conn \<Rightarrow> fault + 'a) \<Rightarrow> fault + 'a" where
  "with_conn c t f = (case t_heap t c of None \<Rightarrow> Inl NullDeref | Some k \<Rightarrow> f k)"

lemma with_conn_live [simp]: "t_heap t c = Some k \<Longrightarrow> with_conn c t f = f k"
  by (simp add: with_conn_def)

lemma with_conn_Inr_iff: "with_conn c t f = Inr y \<longleftrightarrow> (\<exists>k. t_heap t c = Some k \<and> f k = Inr y)"
  by (simp add: with_conn_def split: option.splits)

lemma upd_world_simps [simp]:
  "t_world (upd_world f t) = f (t_world t)" "t_heap (upd_world f t) = t_heap t"
  "t_is_server (upd_world f t) = t_is_server t" "t_conns (upd_world f t) = t_conns t"
  "t_client_conn (upd_world f t) = t_client_conn t" "t_fec_cache (upd_world f t) = t_fec_cache t"
  "t_sent_cache (upd_world f t) = t_sent_cache t" "t_streams (upd_world f t) = t_streams t"
  by (simp_all add: upd_world_def)

lemma put_conn_simps [simp]:
  "t_world (put_conn c k t) = t_world t" "t_heap (put_conn c k t) = (t_heap t)(c \<mapsto> k)"
  "t_is_server (put_conn c k t) = t_is_server t" "t_conns (put_conn c k t) = t_conns t"
  "t_client_conn (put_conn c k t) = t_client_conn t" "t_fec_cache (put_conn c k t) = t_fec_cache t"
  "t_sent_cache (put_conn c k t) = t_sent_cache t" "t_streams (put_conn c k t) = t_streams t"
  by (simp_all add: put_conn_def)

section \<open>Stream callbacks\<close>

text \<open>
  \<^verbatim>\<open>on_stream_open\<close>, called by quicly for every stream it makes: stream 0 is the control stream.
\<close>

definition on_stream_open ::
  "('rs, 'rq, 'sc, 'w) env \<Rightarrow> sptr \<Rightarrow> ('rs, 'w) transport \<Rightarrow> ('rs, 'w) transport" where
  "on_stream_open E s t =
     (let ctl = (e_stream_id E s (t_world t) = 0);
          t1 = t\<lparr>t_streams := (t_streams t)(s \<mapsto>
                   \<lparr>sx_is_control = ctl, sx_header_received = False, sx_alias = 0\<rparr>)\<rparr>
      in (case e_conn_data E (e_stream_quic E s (t_world t)) (t_world t) of
            Some c \<Rightarrow>
              (case t_heap t1 c of
                 Some k \<Rightarrow> if ctl then put_conn c (k\<lparr>c_stream := Some s\<rparr>) t1 else t1
               | None \<Rightarrow> t1)
          | None \<Rightarrow> t1))"

definition on_stream_destroy ::
  "('rs, 'rq, 'sc, 'w) env \<Rightarrow> sptr \<Rightarrow> ('rs, 'w) transport \<Rightarrow> ('rs, 'w) transport" where
  "on_stream_destroy E s t =
     (let t1 = (case e_conn_data E (e_stream_quic E s (t_world t)) (t_world t) of
                  Some c \<Rightarrow>
                    (case t_heap t c of
                       Some k \<Rightarrow>
                         put_conn c (k\<lparr>c_subscriptions := clear_subscription_stream (c_subscriptions k) s\<rparr>) t
                     | None \<Rightarrow> t)
                | None \<Rightarrow> t)
      in t1\<lparr>t_streams := (t_streams t1)(s := None)\<rparr>)"

text \<open>The peer stops reading or resets a stream: losing the control stream ends the connection.\<close>

definition on_stop_sending ::
  "('rs, 'rq, 'sc, 'w) env \<Rightarrow> sptr \<Rightarrow> int \<Rightarrow> ('rs, 'w) transport \<Rightarrow> ('rs, 'w) transport" where
  "on_stop_sending E s err t =
     (case t_streams t s of
        Some x \<Rightarrow>
          if sx_is_control x then upd_world (e_close E (e_stream_quic E s (t_world t)) []) t
          else upd_world (e_reset_stream E s err) t
      | None \<Rightarrow> upd_world (e_reset_stream E s err) t)"

definition on_receive_reset ::
  "('rs, 'rq, 'sc, 'w) env \<Rightarrow> sptr \<Rightarrow> int \<Rightarrow> ('rs, 'w) transport \<Rightarrow> ('rs, 'w) transport" where
  "on_receive_reset E s err t =
     (case t_streams t s of
        Some x \<Rightarrow>
          if sx_is_control x then upd_world (e_close E (e_stream_quic E s (t_world t)) []) t
          else upd_world (e_reset_stream E s err) t
      | None \<Rightarrow> upd_world (e_reset_stream E s err) t)"

section \<open>FEC contexts of a transport\<close>

text \<open>\<^verbatim>\<open>get_cached_fec\<close> as it is called, on the transport's cache and with the clock read.\<close>

definition transport_get_fec ::
  "('rs, 'rq, 'sc, 'w) env \<Rightarrow> fec_type \<Rightarrow> nat \<Rightarrow> nat \<Rightarrow> nat \<Rightarrow> ('rs, 'w) transport \<Rightarrow>
   'rs fec option \<times> ('rs, 'w) transport" where
  "transport_get_fec E ty k m sz t =
     (let (now, w) = e_time_ns E (t_world t);
          (f, cache) = get_cached_fec (e_fec E) (e_alloc E, now) (t_fec_cache t) ty k m sz
      in (f, t\<lparr>t_world := w, t_fec_cache := cache\<rparr>))"

section \<open>A recording environment\<close>

text \<open>
  A concrete environment, for evaluating the model: the world records the events, stream writes,
  datagrams and closings, streams hold the bytes to read, and the clock ticks at every reading.
\<close>

record trace_world =
  tw_events :: "(cptr \<times> transport_event) list"
  tw_ingress :: "sptr \<Rightarrow> bytes"
  tw_egress :: "(sptr \<times> bytes) list"
  tw_dgrams :: "(qptr \<times> nat \<times> bytes) list"
  tw_closed :: "(qptr \<times> string) list"
  tw_opened :: nat
  tw_time :: u64

definition empty_trace :: trace_world where
  "empty_trace = \<lparr>tw_events = [], tw_ingress = (\<lambda>_. []), tw_egress = [], tw_dgrams = [],
     tw_closed = [], tw_opened = 0, tw_time = 1\<rparr>"

definition trace_env :: "(nat, nat, unit, trace_world) env" where
  "trace_env = \<lparr>
     e_fec = repetition_lib,
     e_alloc = (\<lambda>_. True),
     e_malloc = (\<lambda>_. None),
     e_uninit = (\<lambda>_. []),
     e_uninit_track = zero_track,
     e_callback = (\<lambda>ev c t. t\<lparr>t_world := (t_world t)\<lparr>tw_events := tw_events (t_world t) @ [(c, ev)]\<rparr>\<rparr>),
     e_time_ns = (\<lambda>w. (tw_time w, w\<lparr>tw_time := tw_time w + 1\<rparr>)),
     e_time_ms = (\<lambda>w. (tw_time w, w\<lparr>tw_time := tw_time w + 1\<rparr>)),
     e_ingress_get = (\<lambda>s w. tw_ingress w s),
     e_ingress_shift = (\<lambda>s n w. w\<lparr>tw_ingress := (tw_ingress w)(s := drop n (tw_ingress w s))\<rparr>),
     e_ingress_receive = (\<lambda>s off bs w. (True, w\<lparr>tw_ingress := (tw_ingress w)(s := tw_ingress w s @ bs)\<rparr>)),
     e_egress_write = (\<lambda>s bs w. w\<lparr>tw_egress := tw_egress w @ [(s, bs)]\<rparr>),
     e_egress_shutdown = (\<lambda>s w. w),
     e_egress_vecs = (\<lambda>s w. length (filter (\<lambda>e. fst e = s) (tw_egress w))),
     e_sendstate_is_open = (\<lambda>s w. True),
     e_open_stream = (\<lambda>q w. (Some (100 + tw_opened w), w\<lparr>tw_opened := tw_opened w + 1\<rparr>)),
     e_reset_stream = (\<lambda>s err w. w),
     e_stream_id = (\<lambda>s w. s),
     e_stream_quic = (\<lambda>s w. 7),
     e_conn_data = (\<lambda>q w. Some 0),
     e_close = (\<lambda>q why w. w\<lparr>tw_closed := tw_closed w @ [(q, why)]\<rparr>),
     e_is_closing = (\<lambda>q w. q \<in> fst ` set (tw_closed w)),
     e_send_datagram = (\<lambda>q bs w. w\<lparr>tw_dgrams := tw_dgrams w @ [(q, 0, bs)]\<rparr>),
     e_send_datagram_path = (\<lambda>q p bs w. w\<lparr>tw_dgrams := tw_dgrams w @ [(q, p, bs)]\<rparr>),
     e_get_stats = (\<lambda>q w. None),
     e_get_path_stats = (\<lambda>q p w. None),
     e_max_udp_payload = 1280,
     e_fp_from_int = int,
     e_fp_from_milli = (\<lambda>n. int n div 1000),
     e_fp_div = (div),
     e_owd_fp = (\<lambda>us. uint us div 1000000),
     e_pathflow_optimize = (\<lambda>n k ps horizon rel. map (\<lambda>p. p\<lparr>pa_m := k, pa_x := k + 1\<rparr>) ps)\<rparr>"

text \<open>A transport with no connections, as \<^verbatim>\<open>calloc\<close> leaves it.\<close>

definition blank_transport :: "'w \<Rightarrow> ('rs, 'w) transport" where
  "blank_transport w = \<lparr>t_is_server = False, t_fds = replicate TRANSPORT_MAX_PATHS 0, t_num_fds = 0,
     t_local_addrs = replicate TRANSPORT_MAX_PATHS SockNone, t_remote_addrs = [], t_ifmon_open = False,
     t_path_states = replicate TRANSPORT_MAX_PATHS \<lparr>ps_b_ewma = 0, ps_l_ewma = 0, ps_p_ewma = 0, ps_q_ewma = 0\<rparr>,
     t_last_pathflow_update = 0, t_min_owd_ns = replicate TRANSPORT_MAX_PATHS 0,
     t_latest_owd_fp = replicate TRANSPORT_MAX_PATHS 0,
     t_last_telemetry_s_ns = replicate TRANSPORT_MAX_PATHS 0,
     t_last_telemetry_r_ns = replicate TRANSPORT_MAX_PATHS 0,
     t_conns = [], t_client_conn = None, t_heap = Map.empty, t_streams = Map.empty,
     t_sent_cache = replicate SENT_CACHE_SIZE empty_sent, t_sent_cache_index = 0,
     t_arena = \<lparr>ar_buffer = (\<lambda>_. 0), ar_capacity = 0, ar_offset = 0, ar_fallbacks = []\<rparr>,
     t_fec_buf = [], t_fec_buf_cap = 0, t_fec_first_pkt_time = 0, t_fec_track_id = zero_track,
     t_fec_object_id = 0, t_fec_pkt_count = 0, t_fec_priority = 0, t_rr_path = 0,
     t_fec_cache = empty_fec_cache, t_world = w\<rparr>"

end
