(* ===== verification/Assembler.thy ===== *)
theory Assembler
  imports Transport "HOL-Library.Signed_Division"
begin

text \<open>
  Reception of datagrams: \<^verbatim>\<open>on_receive_datagram_frame\<close> and \<^verbatim>\<open>send_nack\<close> of
  \<^verbatim>\<open>transport_quicly.c\<close>. Telemetry datagrams update the one-way-delay estimates; every other
  datagram is one symbol of an object, collected in one of the sixteen frame assemblers of the
  connection until the object can be decoded and is handed to the application. The C code trusts
  several header fields; where it would leave an array, the model returns a fault.
\<close>

section \<open>Telemetry\<close>

definition recv_telemetry ::
  "('rs, 'rq, 'sc, 'w) env \<Rightarrow> bytes \<Rightarrow> ('rs, 'w) transport \<Rightarrow> ('rs, 'w) transport" where
  "recv_telemetry E payload t =
     (case telemetry_read payload of
        None \<Rightarrow> t
      | Some d \<Rightarrow>
          let pid = unat (td_path_id d) in
          if pid < TRANSPORT_MAX_PATHS then
            let s_ns = td_send_time_ns d; r_ns = td_recv_time_ns d;
                current_owd = r_ns - s_ns;
                min_owd = (if t_min_owd_ns t ! pid = 0 \<or> current_owd <s t_min_owd_ns t ! pid
                           then current_owd else t_min_owd_ns t ! pid);
                relative_owd_ns = current_owd - min_owd;
                relative_owd_us = (word_of_int (sint relative_owd_ns sdiv 1000) :: u32)
            in t\<lparr>t_min_owd_ns := (t_min_owd_ns t)[pid := min_owd],
                 t_latest_owd_fp := (t_latest_owd_fp t)[pid := e_owd_fp E relative_owd_us],
                 t_last_telemetry_s_ns := (t_last_telemetry_s_ns t)[pid := s_ns],
                 t_last_telemetry_r_ns := (t_last_telemetry_r_ns t)[pid := r_ns]\<rparr>
          else t)"

text \<open>The reply that lets the sender measure the delay of the path the symbol came on.\<close>

definition telemetry_reply ::
  "('rs, 'rq, 'sc, 'w) env \<Rightarrow> qptr \<Rightarrow> fec_packet_header \<Rightarrow> ('rs, 'w) transport \<Rightarrow> ('rs, 'w) transport" where
  "telemetry_reply E q hdr t =
     (let (now, w) = e_time_ns E (t_world t);
          reply = \<lparr>td_track_id = 6, td_path_id = h_path_id hdr,
                   td_send_time_ns = h_send_time_ns hdr, td_recv_time_ns = now\<rparr>
      in t\<lparr>t_world := e_send_datagram_path E q (unat (h_path_id hdr)) (telemetry_bytes reply) w\<rparr>)"

section \<open>Negative acknowledgements\<close>

definition nack_bytes :: "u8 \<Rightarrow> u32 \<Rightarrow> u32 \<Rightarrow> u16 list \<Rightarrow> bytes" where
  "nack_bytes alias group_id object_id missing =
     [8, alias] @ be_bytes 4 (unat group_id) @ be_bytes 4 (unat object_id) @
     be_bytes 2 (length missing) @ concat (map (\<lambda>i. be_bytes 2 (unat i)) missing)"

definition send_nack ::
  "('rs, 'rq, 'sc, 'w) env \<Rightarrow> cptr \<Rightarrow> u8 \<Rightarrow> u32 \<Rightarrow> u32 \<Rightarrow> u16 list \<Rightarrow> ('rs, 'w) transport \<Rightarrow>
   fault + ('rs, 'w) transport" where
  "send_nack E c alias group_id object_id missing t =
     with_conn c t (\<lambda>k.
       case c_stream k of
         None \<Rightarrow> Inr t
       | Some s \<Rightarrow>
           if \<not> e_sendstate_is_open E s (t_world t) then Inr t
           else
             let payload_len = 12 + length missing * 2 in
             if 1024 < payload_len \<and> \<not> e_alloc E payload_len then Inr t
             else Inr (upd_world (e_egress_write E s (nack_bytes alias group_id object_id missing)) t))"

section \<open>Slots\<close>

definition asm_matches :: "fec_packet_header \<Rightarrow> frame_assembler \<Rightarrow> bool" where
  "asm_matches hdr a \<longleftrightarrow>
     0 < fa_total_symbols a \<and> fa_track_id a = h_track_id hdr \<and>
     fa_group_id a = h_group_id hdr \<and> fa_object_id a = h_object_id hdr"

text \<open>Reuse of a slot for a new object: grow its memory if needed, forget the old symbols.\<close>

definition asm_reset :: "fec_packet_header \<Rightarrow> frame_assembler \<Rightarrow> frame_assembler" where
  "asm_reset hdr a =
     (let total_symbols = h_total_symbols hdr; symbol_size = h_symbol_size hdr;
          a1 = (if fa_buffers a = None \<or> fa_capacity_symbols a < total_symbols \<or>
                   fa_capacity_symbol_size a < symbol_size
                then
                  let cap = (if 256 < total_symbols then total_symbols else 256);
                      cap_sz = (if 1250 < symbol_size then symbol_size else 1250)
                  in a\<lparr>fa_capacity_symbols := cap, fa_capacity_symbol_size := cap_sz,
                       fa_buffers := Some (replicate (unat cap) (replicate (unat cap_sz) 0))\<rparr>
                else a)
      in a1\<lparr>fa_received_mask := replicate (unat (fa_capacity_symbols a1)) False,
            fa_track_id := h_track_id hdr, fa_group_id := h_group_id hdr,
            fa_object_id := h_object_id hdr, fa_total_symbols := total_symbols,
            fa_data_symbols := h_data_symbols hdr, fa_symbol_size := symbol_size,
            fa_original_size := h_original_size hdr, fa_priority := h_priority hdr,
            fa_decoded := False, fa_received_count := 0, fa_nack_sent := False\<rparr>)"

text \<open>Storing the symbol of a datagram; \<open>body\<close> is what follows the header.\<close>

definition asm_store :: "fec_packet_header \<Rightarrow> bytes \<Rightarrow> frame_assembler \<Rightarrow> fault + frame_assembler" where
  "asm_store hdr body a =
     (let i = unat (h_symbol_index hdr) in
      if length (fa_received_mask a) \<le> i then Inl OutOfBounds
      else if fa_received_mask a ! i then Inr a
      else case fa_buffers a of
             None \<Rightarrow> Inl NullDeref
           | Some bufs \<Rightarrow>
               if length bufs \<le> i then Inl OutOfBounds
               else bindf (put_bytes 0 (take (unat (h_symbol_size hdr)) body) (bufs ! i))
                      (\<lambda>b. Inr (a\<lparr>fa_buffers := Some (bufs[i := b]),
                                  fa_received_mask := (fa_received_mask a)[i := True],
                                  fa_received_count := fa_received_count a + 1\<rparr>)))"

definition asm_missing :: "frame_assembler \<Rightarrow> fault + u16 list" where
  "asm_missing a =
     (if length (fa_received_mask a) < unat (fa_total_symbols a) then Inl OutOfBounds
      else Inr (map of_nat (filter (\<lambda>i. \<not> fa_received_mask a ! i) [0..<unat (fa_total_symbols a)])))"

definition asm_wants_nack :: "moq_track_id \<Rightarrow> frame_assembler \<Rightarrow> bool" where
  "asm_wants_nack track a \<longleftrightarrow>
     tk_type track = MOQ_TRACK_DATA \<and> \<not> fa_decoded a \<and> \<not> fa_nack_sent a \<and>
     (unat (fa_data_symbols a) + 1) div 2 \<le> unat (fa_received_count a)"

text \<open>The scan for a missing data symbol stops at the first one.\<close>

definition got_all_data :: "bool list \<Rightarrow> nat \<Rightarrow> fault + bool" where
  "got_all_data rmask n =
     (if n \<le> length rmask then Inr (\<forall>b \<in> set (take n rmask). b)
      else if \<forall>b \<in> set rmask. b then Inl OutOfBounds else Inr False)"

text \<open>The 256-entry array of lost symbols that the decoder is given.\<close>

definition missing_array :: "bool list \<Rightarrow> nat \<Rightarrow> fault + bool list" where
  "missing_array rmask total_symbols =
     (if 256 < total_symbols \<or> length rmask < total_symbols then Inl OutOfBounds
      else Inr (map (\<lambda>i. if i < total_symbols then \<not> rmask ! i else False) [0..<256]))"

text \<open>
  \<^verbatim>\<open>fec_decode\<close> on the slot's buffers: the codec works in place on the first \<open>sz\<close> bytes of
  each block. \<open>overlay\<close> writes the blocks it leaves back into the buffers.
\<close>

definition overlay :: "nat \<Rightarrow> bytes list \<Rightarrow> bytes list \<Rightarrow> bytes list" where
  "overlay sz out bufs =
     map (\<lambda>i. if i < length out then take sz (out ! i) @ drop (min sz (length (out ! i))) (bufs ! i)
              else bufs ! i) [0..<length bufs]"

definition decode_buffers ::
  "('rs, 'rq, 'sc) fec_lib \<Rightarrow> 'rs fec \<Rightarrow> bytes list \<Rightarrow> bool list \<Rightarrow> fault + bool \<times> bytes list" where
  "decode_buffers L f bufs missing =
     (let sz = f_symbol_size f; n = f_data_symbols f + f_parity_symbols f in
      if \<exists>b \<in> set (take n bufs). length b < sz then Inl OutOfBounds
      else bindf (fec_decode L f (map (take sz) bufs) missing)
             (\<lambda>(ok, out). Inr (ok, overlay sz out bufs)))"

definition recv_fec_type :: "moq_track_id \<Rightarrow> nat \<Rightarrow> fec_type" where
  "recv_fec_type track total_symbols =
     (if tk_type track = MOQ_TRACK_DATA \<and> 255 < total_symbols then FEC_RAPTORQ else FEC_REED_SOLOMON)"

text \<open>
  The decoding step once enough symbols arrived: success, the slot with its restored buffers and
  the transport with its FEC cache. The number of parity symbols is a \<^verbatim>\<open>size_t\<close> difference.
\<close>

definition asm_decode ::
  "('rs, 'rq, 'sc, 'w) env \<Rightarrow> moq_track_id \<Rightarrow> fec_packet_header \<Rightarrow> frame_assembler \<Rightarrow>
   ('rs, 'w) transport \<Rightarrow> fault + bool \<times> frame_assembler \<times> ('rs, 'w) transport" where
  "asm_decode E track hdr a t =
     bindf (got_all_data (fa_received_mask a) (unat (h_data_symbols hdr))) (\<lambda>all.
       if all then Inr (True, a, t)
       else
         let total_symbols = unat (h_total_symbols hdr); data = unat (h_data_symbols hdr);
             parity = unat ((ucast (h_total_symbols hdr) :: u64) - ucast (h_data_symbols hdr))
         in
         if parity = 0 then Inr (False, a, t)
         else case transport_get_fec E (recv_fec_type track total_symbols) data parity
                     (unat (h_symbol_size hdr)) t of
                (None, t1) \<Rightarrow> Inr (False, a, t1)
              | (Some f, t1) \<Rightarrow>
                  bindf (missing_array (fa_received_mask a) total_symbols) (\<lambda>missing.
                    case fa_buffers a of
                      None \<Rightarrow> Inl NullDeref
                    | Some bufs \<Rightarrow>
                        bindf (decode_buffers (e_fec E) f bufs missing) (\<lambda>(ok, bufs').
                          Inr (ok, a\<lparr>fa_buffers := Some bufs'\<rparr>, t1))))"

text \<open>Copying the data symbols into the object, the last one cut to the original size.\<close>

fun copy_chunks :: "bytes list \<Rightarrow> nat \<Rightarrow> nat \<Rightarrow> nat \<Rightarrow> nat \<Rightarrow> bytes \<Rightarrow> fault + bytes" where
  "copy_chunks bufs sz i 0 bytes_left full = Inr full"
| "copy_chunks bufs sz i (Suc n) bytes_left full =
     (let chunk = (if bytes_left < sz then bytes_left else sz) in
      if 0 < chunk then
        if length bufs \<le> i \<or> length (bufs ! i) < chunk then Inl OutOfBounds
        else bindf (put_bytes (i * sz) (take chunk (bufs ! i)) full)
               (copy_chunks bufs sz (Suc i) n (bytes_left - chunk))
      else copy_chunks bufs sz (Suc i) n bytes_left full)"

definition asm_object ::
  "('rs, 'rq, 'sc, 'w) env \<Rightarrow> moq_track_id \<Rightarrow> fec_packet_header \<Rightarrow> frame_assembler \<Rightarrow> fault + moq_object" where
  "asm_object E track hdr a =
     (case fa_buffers a of
        None \<Rightarrow> Inl NullDeref
      | Some bufs \<Rightarrow>
          let size = unat (h_original_size hdr);
              tr = track\<lparr>tk_flags := (tk_flags track OR MOQ_TRACK_FLAG_FEC_ENABLED)
                                     AND NOT MOQ_TRACK_FLAG_RELIABLE\<rparr>
          in bindf (copy_chunks bufs (unat (h_symbol_size hdr)) 0 (unat (h_data_symbols hdr)) size
                      (take size (e_uninit E size @ replicate size 0)))
               (\<lambda>full. Inr \<lparr>ob_track = tr, ob_group_id = ucast (h_group_id hdr),
                  ob_object_id = ucast (h_object_id hdr), ob_data = full,
                  ob_is_keyframe = (h_is_keyframe hdr \<noteq> 0), ob_priority = fa_priority a\<rparr>))"

section \<open>The datagram handler\<close>

text \<open>The slot for a datagram: the matching one, or the next one of the ring after its eviction.\<close>

definition put_slot :: "nat \<Rightarrow> frame_assembler \<Rightarrow> conn \<Rightarrow> conn" where
  "put_slot i a k = k\<lparr>c_assemblers := (c_assemblers k)[i := a]\<rparr>"

definition evict_event :: "('rs, 'rq, 'sc, 'w) env \<Rightarrow> conn \<Rightarrow> frame_assembler \<Rightarrow> transport_event option" where
  "evict_event E k a =
     (if 0 < fa_total_symbols a \<and> \<not> fa_decoded a
      then map_option (\<lambda>tr. ObjectLost tr (ucast (fa_group_id a)) (ucast (fa_object_id a)))
             (find_subscription_by_alias (c_subscriptions k) (fa_track_id a) (e_uninit_track E))
      else None)"

definition asm_slot_for ::
  "('rs, 'rq, 'sc, 'w) env \<Rightarrow> cptr \<Rightarrow> fec_packet_header \<Rightarrow> ('rs, 'w) transport \<Rightarrow>
   fault + nat \<times> ('rs, 'w) transport" where
  "asm_slot_for E c hdr t =
     with_conn c t (\<lambda>k.
       case find_index (asm_matches hdr) (c_assemblers k) of
         Some i \<Rightarrow> Inr (i, t)
       | None \<Rightarrow>
           let i = c_assembler_index k;
               t1 = put_conn c (k\<lparr>c_assembler_index := (i + 1) mod ASSEMBLER_CACHE_SIZE\<rparr>) t;
               t2 = (case evict_event E k (c_assemblers k ! i) of
                       Some ev \<Rightarrow> e_callback E ev c t1
                     | None \<Rightarrow> t1)
           in with_conn c t2 (\<lambda>k2.
                Inr (i, put_conn c (put_slot i (asm_reset hdr (c_assemblers k2 ! i)) k2) t2)))"

text \<open>The negative acknowledgement for a half-complete data object, sent once per slot.\<close>

definition asm_nack ::
  "('rs, 'rq, 'sc, 'w) env \<Rightarrow> cptr \<Rightarrow> nat \<Rightarrow> moq_track_id \<Rightarrow> fec_packet_header \<Rightarrow> frame_assembler \<Rightarrow>
   ('rs, 'w) transport \<Rightarrow> fault + frame_assembler \<times> ('rs, 'w) transport" where
  "asm_nack E c i track hdr a t =
     (if asm_wants_nack track a then
        bindf (asm_missing a) (\<lambda>missing.
          if missing \<noteq> [] then
            bindf (send_nack E c (h_track_id hdr) (h_group_id hdr) (h_object_id hdr) missing t)
              (\<lambda>t1. Inr (a\<lparr>fa_nack_sent := True\<rparr>, t1))
          else Inr (a, t))
      else Inr (a, t))"

definition asm_finish ::
  "('rs, 'rq, 'sc, 'w) env \<Rightarrow> cptr \<Rightarrow> nat \<Rightarrow> moq_track_id \<Rightarrow> fec_packet_header \<Rightarrow> frame_assembler \<Rightarrow>
   ('rs, 'w) transport \<Rightarrow> fault + ('rs, 'w) transport" where
  "asm_finish E c i track hdr a t =
     (if unat (h_data_symbols hdr) \<le> unat (fa_received_count a) then
        bindf (asm_decode E track hdr a t) (\<lambda>(ok, a1, t1).
          with_conn c t1 (\<lambda>k.
            let t2 = put_conn c (put_slot i a1 k) t1 in
            if ok then
              bindf (asm_object E track hdr a1) (\<lambda>obj.
                let t3 = e_callback E (ObjectReceived (ob_track obj) obj) c t2 in
                with_conn c t3 (\<lambda>k3.
                  Inr (put_conn c
                         (put_slot i ((c_assemblers k3 ! i)\<lparr>fa_decoded := True\<rparr>) k3) t3)))
            else Inr t2))
      else with_conn c t (\<lambda>k. Inr (put_conn c (put_slot i a k) t)))"

definition recv_symbol ::
  "('rs, 'rq, 'sc, 'w) env \<Rightarrow> cptr \<Rightarrow> moq_track_id \<Rightarrow> fec_packet_header \<Rightarrow> bytes \<Rightarrow>
   ('rs, 'w) transport \<Rightarrow> fault + ('rs, 'w) transport" where
  "recv_symbol E c track hdr body t =
     bindf (asm_slot_for E c hdr t) (\<lambda>(i, t1).
       with_conn c t1 (\<lambda>k.
         let a = c_assemblers k ! i in
         if fa_decoded a then Inr t1
         else if h_total_symbols hdr \<le> h_symbol_index hdr then Inr t1
         else bindf (asm_store hdr body a) (\<lambda>a1.
                bindf (asm_nack E c i track hdr a1 t1) (\<lambda>(a2, t2).
                  asm_finish E c i track hdr a2 t2))))"

definition on_receive_datagram_frame ::
  "('rs, 'rq, 'sc, 'w) env \<Rightarrow> qptr \<Rightarrow> bytes \<Rightarrow> ('rs, 'w) transport \<Rightarrow> fault + ('rs, 'w) transport" where
  "on_receive_datagram_frame E q payload t =
     (case e_conn_data E q (t_world t) of
        None \<Rightarrow> Inr t
      | Some c \<Rightarrow>
          with_conn c t (\<lambda>k.
            if t_is_server t \<and> \<not> c_authenticated k then Inr t
            else if payload = [] then Inr t
            else if payload ! 0 = ucast MOQ_TRACK_TELEMETRY then Inr (recv_telemetry E payload t)
            else case fec_header_read payload of
                   None \<Rightarrow> Inr t
                 | Some hdr \<Rightarrow>
                     (case find_subscription_by_alias (c_subscriptions k) (h_track_id hdr)
                             (e_uninit_track E) of
                        None \<Rightarrow> Inr t
                      | Some track \<Rightarrow>
                          let t1 = telemetry_reply E q hdr t in
                          if 16384 < h_total_symbols hdr \<or> 4096 < h_symbol_size hdr then Inr t1
                          else if length payload < FEC_HEADER_SIZE + unat (h_symbol_size hdr)
                          then Inr t1
                          else recv_symbol E c track hdr (drop FEC_HEADER_SIZE payload) t1)))"

section \<open>Copying out\<close>

lemma copy_chunks_none [simp]: "copy_chunks bufs sz i n 0 full = Inr full"
  by (induction n arbitrary: i) auto

lemma copy_chunks_total:
  "i + n \<le> length bufs \<Longrightarrow> \<forall>b \<in> set bufs. sz \<le> length b \<Longrightarrow> left = 0 \<or> i * sz + left \<le> length full \<Longrightarrow>
   \<exists>d. copy_chunks bufs sz i n left full = Inr d \<and> length d = length full"
proof (induction n arbitrary: i left full)
  case (Suc n)
  show ?case
  proof (cases "left = 0")
    case False
    let ?chunk = "if left < sz then left else sz"
    have buf: "sz \<le> length (bufs ! i)" "i < length bufs" using Suc.prems by auto
    show ?thesis
    proof (cases "sz = 0")
      case True
      with Suc.prems False Suc.IH [of "Suc i" left full] show ?thesis by simp
    next
      case sz: False
      have fit: "i * sz + ?chunk \<le> length full" using Suc.prems(3) False by auto
      define full' where "full' = take (i * sz) full @ take ?chunk (bufs ! i) @ drop (i * sz + ?chunk) full"
      have put: "put_bytes (i * sz) (take ?chunk (bufs ! i)) full = Inr full'"
        using fit buf by (auto simp: put_bytes_def full'_def)
      have len: "length full' = length full" using length_put_bytes [OF put] .
      have "\<exists>d. copy_chunks bufs sz (Suc i) n (left - ?chunk) full' = Inr d \<and> length d = length full'"
        using Suc.prems False len by (intro Suc.IH) auto
      with put buf False sz len show ?thesis by (auto simp: Let_def not_le)
    qed
  qed simp
qed simp

lemma copy_chunks_data:
  "i + n \<le> length bufs \<Longrightarrow> \<forall>b \<in> set bufs. sz \<le> length b \<Longrightarrow> left \<le> n * sz \<Longrightarrow>
   length full = i * sz + left \<Longrightarrow>
   copy_chunks bufs sz i n left full =
     Inr (take (i * sz) full @ take left (concat (map (\<lambda>j. take sz (bufs ! j)) [i..<i + n])))"
proof (induction n arbitrary: i left full)
  case (Suc n)
  have buf: "sz \<le> length (bufs ! i)" "i < length bufs" using Suc.prems by auto
  have upt: "[i..<Suc (i + n)] = i # [Suc i..<Suc (i + n)]" by (simp add: upt_rec)
  show ?case
  proof (cases "left < sz")
    case True
    then have "left \<le> length (bufs ! i)" using buf by simp
    with True Suc.prems(3,4) buf show ?thesis
      by (cases "left = 0") (auto simp: Let_def put_bytes_def upt simp del: upt_Suc)
  next
    case False
    define full' where "full' = take (i * sz) full @ take sz (bufs ! i) @ drop (i * sz + sz) full"
    have put: "put_bytes (i * sz) (take sz (bufs ! i)) full = Inr full'"
      using False buf Suc.prems by (auto simp: put_bytes_def full'_def)
    have IH: "copy_chunks bufs sz (Suc i) n (left - sz) full' =
        Inr (take (Suc i * sz) full' @
             take (left - sz) (concat (map (\<lambda>j. take sz (bufs ! j)) [Suc i..<Suc i + n])))"
      using False buf Suc.prems length_put_bytes [OF put] by (intro Suc.IH) auto
    have "take (Suc i * sz) full' = take (i * sz) full @ take sz (bufs ! i)"
      using buf Suc.prems by (simp add: full'_def)
    with IH put buf False Suc.prems(3,4) show ?thesis
      by (cases "sz = 0") (auto simp: Let_def upt min_def simp del: upt_Suc)
  qed
qed simp

end
