(* ===== verification/Loops.thy ===== *)
theory Loops
  imports Prelude
begin

text \<open>
  The \<^verbatim>\<open>while\<close> loops of the sources that consume input: one turn is a step function that faults,
  stops or asks for another turn, and the loop, a \<^theory_text>\<open>partial_function\<close> in which \<open>None\<close> is divergence,
  is its iteration. The locale \<open>parser_loop\<close> states what makes such a loop return: a measure that every
  further turn decreases.
\<close>

datatype 's flow = Stop 's | More 's

fun flow_state :: "'s flow \<Rightarrow> 's" where
  "flow_state (Stop t) = t"
| "flow_state (More t) = t"

text \<open>Sequencing of operations that may fault or not return.\<close>

definition bindr :: "('e + 'a) option \<Rightarrow> ('a \<Rightarrow> ('e + 'b) option) \<Rightarrow> ('e + 'b) option" where
  "bindr m f = (case m of None \<Rightarrow> None | Some (Inl e) \<Rightarrow> Some (Inl e) | Some (Inr x) \<Rightarrow> f x)"

lemma bindr_simps [simp]:
  "bindr None f = None" "bindr (Some (Inl e)) f = Some (Inl e)" "bindr (Some (Inr x)) f = f x"
  by (simp_all add: bindr_def)

lemma bindr_Inr_iff: "bindr m f = Some (Inr y) \<longleftrightarrow> (\<exists>x. m = Some (Inr x) \<and> f x = Some (Inr y))"
  by (auto simp: bindr_def split: option.splits sum.splits)

locale parser_loop =
  fixes step :: "'s \<Rightarrow> 'e + 's flow" and loop :: "'s \<Rightarrow> ('e + 's) option"
    and inv :: "'s \<Rightarrow> bool" and size_of :: "'s \<Rightarrow> nat"
  assumes loop_unfold: "loop t = (case step t of Inl e \<Rightarrow> Some (Inl e)
      | Inr fl \<Rightarrow> (case fl of Stop t' \<Rightarrow> Some (Inr t') | More t' \<Rightarrow> loop t'))"
    and step_inv: "inv t \<Longrightarrow> step t = Inr (More t') \<Longrightarrow> inv t'"
    and step_shrinks: "inv t \<Longrightarrow> step t = Inr (More t') \<Longrightarrow> size_of t' < size_of t"
begin

lemma loop_stop: "step t = Inr (Stop t') \<Longrightarrow> loop t = Some (Inr t')"
  by (subst loop_unfold) simp

lemma loop_more: "step t = Inr (More t') \<Longrightarrow> loop t = loop t'"
  by (subst loop_unfold) simp

lemma loop_fault: "step t = Inl e \<Longrightarrow> loop t = Some (Inl e)"
  by (subst loop_unfold) simp

lemma loop_terminates: "inv t \<Longrightarrow> \<exists>r. loop t = Some r"
proof (induction "size_of t" arbitrary: t rule: less_induct)
  case less
  show ?case
  proof (cases "step t")
    case (Inr fl)
    then show ?thesis
      using less step_inv [OF less.prems] step_shrinks [OF less.prems]
      by (cases fl) (auto simp: loop_stop loop_more)
  qed (simp add: loop_fault)
qed

text \<open>A property of states that every turn keeps holds of the result.\<close>

lemma loop_keeps:
  assumes "inv t" "P t" "loop t = Some (Inr t')"
    and keep: "\<And>t t'. inv t \<Longrightarrow> P t \<Longrightarrow> step t = Inr (More t') \<or> step t = Inr (Stop t') \<Longrightarrow> P t'"
  shows "P t'"
  using assms(1-3)
proof (induction "size_of t" arbitrary: t rule: less_induct)
  case less
  show ?case
  proof (cases "step t")
    case (Inl e)
    with less.prems(3) show ?thesis by (simp add: loop_fault)
  next
    case (Inr fl)
    show ?thesis
    proof (cases fl)
      case (Stop t2)
      with Inr less.prems(3) have "t2 = t'" by (simp add: loop_stop)
      with keep [OF less.prems(1,2)] Inr Stop show ?thesis by blast
    next
      case (More t2)
      with Inr have m: "step t = Inr (More t2)" by simp
      have "P t2" using keep [OF less.prems(1,2)] m by blast
      with less.hyps [OF step_shrinks [OF less.prems(1) m] step_inv [OF less.prems(1) m]] m less.prems(3)
      show ?thesis by (simp add: loop_more)
    qed
  qed
qed

end

section \<open>Option loops\<close>

text \<open>
  The loop over the arguments of a program. A step is given an argument, those after it and the settings, and
  says whether it took the next argument too. What every step keeps, given that the arguments
  satisfy \<open>Q\<close>, holds of the final settings.
\<close>

locale option_loop =
  fixes step :: "'a \<Rightarrow> 'a list \<Rightarrow> 'c \<Rightarrow> bool \<times> 'c" and loop :: "'a list \<Rightarrow> 'c \<Rightarrow> 'c"
  assumes loop_nil: "loop [] c = c"
    and loop_cons: "loop (a # as) c = (let (took, c') = step a as c in loop (if took then tl as else as) c')"
begin

lemma loop_invariant:
  assumes keep: "\<And>a as c. P c \<Longrightarrow> \<forall>x \<in> set as. Q x \<Longrightarrow> P (snd (step a as c))"
  shows "P c \<Longrightarrow> \<forall>x \<in> set as. Q x \<Longrightarrow> P (loop as c)"
proof (induction "length as" arbitrary: as c rule: less_induct)
  case less
  show ?case
  proof (cases as)
    case (Cons a bs)
    obtain took c' where o: "step a bs c = (took, c')" by force
    have "P c'" using keep [OF less.prems(1), of bs a] less.prems(2) Cons o by simp
    moreover have "length (if took then tl bs else bs) < length as" "\<forall>x \<in> set (if took then tl bs else bs). Q x"
      using less.prems(2) Cons by (cases bs; auto)+
    ultimately show ?thesis using less.hyps o Cons by (simp add: loop_cons)
  qed (simp add: loop_nil less.prems)
qed

end

end
