(* ===== verification/Control.thy ===== *)
theory Control
  imports Assembler Loops
begin

text \<open>
  The stream parsers of \<^verbatim>\<open>transport_quicly.c\<close>: \<^verbatim>\<open>parse_control_messages\<close> for the control
  stream (subscriptions, private data, authentication, reliable objects, retransmission requests),
  \<^verbatim>\<open>parse_track_stream_messages\<close> for the one-track streams, and \<^verbatim>\<open>on_receive\<close> that
  feeds them. One turn of a parser's \<^verbatim>\<open>while (1)\<close> is a step function that either stops or asks
  for another turn; the loops are \<^theory_text>\<open>partial_function\<close>s in which \<open>None\<close> is divergence.
\<close>

section \<open>Control messages\<close>

definition unauthorized :: "('rs, 'w) transport \<Rightarrow> conn \<Rightarrow> bool" where
  "unauthorized t k \<longleftrightarrow> t_is_server t \<and> \<not> c_authenticated k"

text \<open>Types 1, 2, 6: subscribe, unsubscribe, keyframe request.\<close>

definition ctl_track_update ::
  "('rs, 'rq, 'sc, 'w) env \<Rightarrow> cptr \<Rightarrow> conn \<Rightarrow> u8 \<Rightarrow> u8 \<Rightarrow> moq_track_id \<Rightarrow> ('rs, 'w) transport \<Rightarrow> ('rs, 'w) transport" where
  "ctl_track_update E c k ty alias track t =
     (if ty = 1 then
        put_conn c (k\<lparr>c_subscriptions :=
          add_subscription (c_subscriptions k) (tk_type track) (tk_flags track) (tk_name track) alias\<rparr>) t
      else if ty = 2 then
        (let (gone, subs) = remove_subscription (c_subscriptions k) (tk_type track) (tk_name track);
             t1 = put_conn c (k\<lparr>c_subscriptions := subs\<rparr>) t
         in (case gone of Some st \<Rightarrow> upd_world (e_egress_shutdown E st) t1 | None \<Rightarrow> t1))
      else t)"

definition ctl_track_event :: "u8 \<Rightarrow> moq_track_id \<Rightarrow> transport_event" where
  "ctl_track_event ty track =
     (if ty = 2 then Unsubscribe track else if ty = 6 then KeyframeRequest track else Subscribe track)"

definition ctl_track_msg ::
  "('rs, 'rq, 'sc, 'w) env \<Rightarrow> cptr \<Rightarrow> sptr \<Rightarrow> bytes \<Rightarrow> ('rs, 'w) transport \<Rightarrow>
   fault + ('rs, 'w) transport flow" where
  "ctl_track_msg E c s input t =
     (if length input < 5 then Inr (Stop t)
      else with_conn c t (\<lambda>k.
        if unauthorized t k then Inr (Stop (upd_world (e_close E (c_quic k) ''unauthorized'') t))
        else
          let name_len = unat (input ! 4) in
          if length input < 5 + name_len then Inr (Stop t)
          else
            let copy_len = (if name_len < 63 then name_len else 63);
                track = \<lparr>tk_type = ucast (input ! 2), tk_flags = input ! 3,
                         tk_name = cstr_of (bslice 5 copy_len input)\<rparr>;
                t1 = ctl_track_update E c k (input ! 0) (input ! 1) track t;
                t2 = e_callback E (ctl_track_event (input ! 0) track) c t1
            in Inr (More (upd_world (e_ingress_shift E s (5 + name_len)) t2))))"

text \<open>Type 3: private data for this connection, delivered as input.\<close>

definition MAX_CTL_PAYLOAD :: nat where "MAX_CTL_PAYLOAD = 1048576"

definition plain_object :: "moq_track_id \<Rightarrow> bytes \<Rightarrow> bool \<Rightarrow> moq_object" where
  "plain_object track data key = \<lparr>ob_track = track, ob_group_id = 0, ob_object_id = 0, ob_data = data,
     ob_is_keyframe = key, ob_priority = 0\<rparr>"

definition input_track :: moq_track_id where
  "input_track = zero_track\<lparr>tk_type := MOQ_TRACK_INPUT\<rparr>"

definition ctl_input_msg ::
  "('rs, 'rq, 'sc, 'w) env \<Rightarrow> cptr \<Rightarrow> sptr \<Rightarrow> bytes \<Rightarrow> ('rs, 'w) transport \<Rightarrow>
   fault + ('rs, 'w) transport flow" where
  "ctl_input_msg E c s input t =
     (if length input < 5 then Inr (Stop t)
      else
        let payload_size = be_val (bslice 1 4 input) in
        with_conn c t (\<lambda>k.
          if MAX_CTL_PAYLOAD < payload_size
          then Inr (Stop (upd_world (e_close E (c_quic k) ''protocol error: payload too large'') t))
          else if length input < 5 + payload_size then Inr (Stop t)
          else if unauthorized t k
          then Inr (Stop (upd_world (e_close E (c_quic k) ''unauthorized'') t))
          else
            let t1 = e_callback E (ObjectReceived input_track
                       (plain_object input_track (bslice 5 payload_size input) False)) c t
            in Inr (More (upd_world (e_ingress_shift E s (5 + payload_size)) t1))))"

text \<open>Type 4: an authentication token; type 5: the answer to one.\<close>

definition ctl_auth_msg ::
  "('rs, 'rq, 'sc, 'w) env \<Rightarrow> cptr \<Rightarrow> sptr \<Rightarrow> bytes \<Rightarrow> ('rs, 'w) transport \<Rightarrow>
   fault + ('rs, 'w) transport flow" where
  "ctl_auth_msg E c s input t =
     (if length input < 3 then Inr (Stop t)
      else
        let token_len = be_val (bslice 1 2 input) in
        if length input < 3 + token_len then Inr (Stop t)
        else
          let t1 = e_callback E (Auth (bslice 3 token_len input)) c t
          in Inr (More (upd_world (e_ingress_shift E s (3 + token_len)) t1)))"

definition ctl_status_msg ::
  "('rs, 'rq, 'sc, 'w) env \<Rightarrow> cptr \<Rightarrow> sptr \<Rightarrow> bytes \<Rightarrow> ('rs, 'w) transport \<Rightarrow>
   fault + ('rs, 'w) transport flow" where
  "ctl_status_msg E c s input t =
     (if length input < 2 then Inr (Stop t)
      else with_conn c t (\<lambda>k.
        let status = input ! 1;
            t1 = (if status = 1 then put_conn c (k\<lparr>c_authenticated := True\<rparr>) t else t);
            t2 = e_callback E (AuthComplete (status = 1)) c t1
        in Inr (More (upd_world (e_ingress_shift E s 2) t2))))"

text \<open>Type 7: an object of a track, sent reliably over the control stream.\<close>

definition ctl_reliable_msg ::
  "('rs, 'rq, 'sc, 'w) env \<Rightarrow> cptr \<Rightarrow> sptr \<Rightarrow> bytes \<Rightarrow> ('rs, 'w) transport \<Rightarrow>
   fault + ('rs, 'w) transport flow" where
  "ctl_reliable_msg E c s input t =
     (if length input < 6 then Inr (Stop t)
      else
        let alias = input ! 1; payload_size = be_val (bslice 2 4 input) in
        with_conn c t (\<lambda>k.
          if MAX_CTL_PAYLOAD < payload_size
          then Inr (Stop (upd_world (e_close E (c_quic k) ''protocol error: payload too large'') t))
          else if length input < 6 + payload_size then Inr (Stop t)
          else if unauthorized t k
          then Inr (Stop (upd_world (e_close E (c_quic k) ''unauthorized'') t))
          else
            let t1 = (case find_subscription_by_alias (c_subscriptions k) alias zero_track of
                        None \<Rightarrow> t
                      | Some tr \<Rightarrow>
                          let track = tr\<lparr>tk_flags := (tk_flags tr AND NOT MOQ_TRACK_FLAG_FEC_ENABLED)
                                                      OR MOQ_TRACK_FLAG_RELIABLE\<rparr>
                          in e_callback E (ObjectReceived track
                               (plain_object track (bslice 6 payload_size input) True)) c t)
            in Inr (More (upd_world (e_ingress_shift E s (6 + payload_size)) t1))))"

section \<open>Retransmission\<close>

definition sent_matches :: "moq_track_id \<Rightarrow> u32 \<Rightarrow> u32 \<Rightarrow> sent_object \<Rightarrow> bool" where
  "sent_matches track group_id object_id e \<longleftrightarrow>
     se_data e \<noteq> None \<and> tk_type (se_track e) = tk_type track \<and> tk_name (se_track e) = tk_name track \<and>
     se_group_id e = group_id \<and> se_object_id e = object_id"

text \<open>Symbol \<open>i\<close> of an object, the last one padded with zeros.\<close>

definition data_block :: "bytes \<Rightarrow> nat \<Rightarrow> nat \<Rightarrow> nat \<Rightarrow> bytes" where
  "data_block data sz symbol_size i =
     (let off = i * symbol_size;
          chunk0 = (if off < sz then sz - off else 0);
          chunk = (if symbol_size < chunk0 then symbol_size else chunk0)
      in bslice off chunk data @ replicate (symbol_size - chunk) 0)"

definition resend_blocks ::
  "('rs, 'rq, 'sc, 'w) env \<Rightarrow> sent_object \<Rightarrow> bytes \<Rightarrow> ('rs, 'w) transport \<Rightarrow>
   fault + bytes list \<times> bytes list \<times> ('rs, 'w) transport" where
  "resend_blocks E e data t =
     (let k = unat (se_data_symbols e); n = unat (se_total_symbols e);
          m = unat ((ucast (se_total_symbols e) :: u64) - ucast (se_data_symbols e));
          symbol_size = unat (se_symbol_size e);
          data_blocks = map (data_block data (se_size e) symbol_size) [0..<k];
          parity_blocks = replicate m (replicate symbol_size 0)
      in if 0 < m then
           (case transport_get_fec E (if 255 < n then FEC_RAPTORQ else FEC_REED_SOLOMON) k m symbol_size t of
              (None, t1) \<Rightarrow> Inr (data_blocks, parity_blocks, t1)
            | (Some f, t1) \<Rightarrow>
                bindf (fec_encode (e_fec E) f data_blocks parity_blocks)
                  (\<lambda>(d, p). Inr (d, p, t1)))
         else Inr (data_blocks, parity_blocks, t))"

definition resend_header :: "u8 \<Rightarrow> sent_object \<Rightarrow> u16 \<Rightarrow> u64 \<Rightarrow> fec_packet_header" where
  "resend_header alias e s now = \<lparr>h_track_id = alias, h_is_keyframe = (if se_is_keyframe e then 1 else 0),
     h_priority = se_priority e, h_group_id = se_group_id e, h_object_id = se_object_id e,
     h_symbol_index = s, h_total_symbols = se_total_symbols e, h_data_symbols = se_data_symbols e,
     h_symbol_size = se_symbol_size e, h_original_size = of_nat (se_size e), h_path_id = 0,
     h_send_time_ns = now\<rparr>"

text \<open>One datagram per requested symbol, built in a buffer of 2048 bytes.\<close>

fun resend_symbols ::
  "('rs, 'rq, 'sc, 'w) env \<Rightarrow> qptr \<Rightarrow> u8 \<Rightarrow> sent_object \<Rightarrow> bytes list \<Rightarrow> bytes list \<Rightarrow> u16 list \<Rightarrow>
   ('rs, 'w) transport \<Rightarrow> fault + ('rs, 'w) transport" where
  "resend_symbols E q alias e data_blocks parity_blocks [] t = Inr t"
| "resend_symbols E q alias e data_blocks parity_blocks (s # ss) t =
     (if se_total_symbols e \<le> s then resend_symbols E q alias e data_blocks parity_blocks ss t
      else if 2048 < FEC_HEADER_SIZE + unat (se_symbol_size e) then Inl OutOfBounds
      else
        let (now, w) = e_time_ns E (t_world t);
            block = (if unat s < unat (se_data_symbols e) then data_blocks ! unat s
                     else parity_blocks ! (unat s - unat (se_data_symbols e)));
            dgram = fec_header_bytes (resend_header alias e s now) @ block
        in resend_symbols E q alias e data_blocks parity_blocks ss
             (t\<lparr>t_world := e_send_datagram E q dgram w\<rparr>))"

definition nack_indices :: "bytes \<Rightarrow> nat \<Rightarrow> u16 list" where
  "nack_indices input n = map (\<lambda>i. of_nat (be_val (bslice (12 + i * 2) 2 input))) [0..<n]"

text \<open>Type 8: the peer misses symbols of an object sent earlier.\<close>

definition ctl_nack_reply ::
  "('rs, 'rq, 'sc, 'w) env \<Rightarrow> conn \<Rightarrow> u8 \<Rightarrow> u32 \<Rightarrow> u32 \<Rightarrow> u16 list \<Rightarrow> ('rs, 'w) transport \<Rightarrow>
   fault + ('rs, 'w) transport" where
  "ctl_nack_reply E k alias group_id object_id missing t =
     (case find_subscription_by_alias (c_subscriptions k) alias (e_uninit_track E) of
        None \<Rightarrow> Inr t
      | Some track \<Rightarrow>
          (case find_index (sent_matches track group_id object_id) (t_sent_cache t) of
             None \<Rightarrow> Inr t
           | Some i \<Rightarrow>
               let e = t_sent_cache t ! i in
               (case se_data e of
                  None \<Rightarrow> Inr t
                | Some data \<Rightarrow>
                    bindf (resend_blocks E e data t) (\<lambda>(data_blocks, parity_blocks, t1).
                      resend_symbols E (c_quic k) alias e data_blocks parity_blocks missing t1))))"

definition ctl_nack_msg ::
  "('rs, 'rq, 'sc, 'w) env \<Rightarrow> cptr \<Rightarrow> sptr \<Rightarrow> bytes \<Rightarrow> ('rs, 'w) transport \<Rightarrow>
   fault + ('rs, 'w) transport flow" where
  "ctl_nack_msg E c s input t =
     (if length input < 12 then Inr (Stop t)
      else
        let alias = input ! 1;
            group_id = of_nat (be_val (bslice 2 4 input));
            object_id = of_nat (be_val (bslice 6 4 input));
            missing_count0 = be_val (bslice 10 2 input)
        in if length input < 12 + missing_count0 * 2 then Inr (Stop t)
        else with_conn c t (\<lambda>k.
          if unauthorized t k
          then Inr (Stop (upd_world (e_close E (c_quic k) ''unauthorized'') t))
          else
            let missing_count = (if 256 < missing_count0 then 256 else missing_count0) in
            bindf (ctl_nack_reply E k alias group_id object_id (nack_indices input missing_count) t)
              (\<lambda>t1. Inr (More (upd_world (e_ingress_shift E s (12 + missing_count * 2)) t1)))))"

section \<open>The control loop\<close>

definition control_step ::
  "('rs, 'rq, 'sc, 'w) env \<Rightarrow> cptr \<Rightarrow> sptr \<Rightarrow> ('rs, 'w) transport \<Rightarrow> fault + ('rs, 'w) transport flow" where
  "control_step E c s t =
     (let input = e_ingress_get E s (t_world t) in
      if input = [] then Inr (Stop t)
      else
        let ty = input ! 0 in
        if ty = 1 \<or> ty = 2 \<or> ty = 6 then ctl_track_msg E c s input t
        else if ty = 3 then ctl_input_msg E c s input t
        else if ty = 4 then ctl_auth_msg E c s input t
        else if ty = 5 then ctl_status_msg E c s input t
        else if ty = 7 then ctl_reliable_msg E c s input t
        else if ty = 8 then ctl_nack_msg E c s input t
        else Inr (More (upd_world (e_ingress_shift E s 1) t)))"

partial_function (option) parse_control_messages ::
  "('rs, 'rq, 'sc, 'w) env \<Rightarrow> cptr \<Rightarrow> sptr \<Rightarrow> ('rs, 'w) transport \<Rightarrow> (fault + ('rs, 'w) transport) option" where
  "parse_control_messages E c s t =
     (case control_step E c s t of
        Inl e \<Rightarrow> Some (Inl e)
      | Inr fl \<Rightarrow> (case fl of Stop t' \<Rightarrow> Some (Inr t') | More t' \<Rightarrow> parse_control_messages E c s t'))"

section \<open>Track streams\<close>

text \<open>The first byte of a track stream names its alias.\<close>

definition track_stream_open ::
  "('rs, 'rq, 'sc, 'w) env \<Rightarrow> cptr \<Rightarrow> sptr \<Rightarrow> stream_ctx \<Rightarrow> conn \<Rightarrow> bytes \<Rightarrow> ('rs, 'w) transport \<Rightarrow>
   stream_ctx \<times> conn \<times> ('rs, 'w) transport" where
  "track_stream_open E c s x k input t =
     (if sx_header_received x then (x, k, t)
      else
        let x1 = x\<lparr>sx_alias := input ! 0, sx_header_received := True\<rparr>;
            k1 = k\<lparr>c_subscriptions := map_stream_to_alias (c_subscriptions k) (input ! 0) s\<rparr>;
            t1 = upd_world (e_ingress_shift E s 1) (t\<lparr>t_streams := (t_streams t)(s \<mapsto> x1)\<rparr>)
        in (x1, k1, put_conn c k1 t1))"

definition track_stream_step ::
  "('rs, 'rq, 'sc, 'w) env \<Rightarrow> cptr \<Rightarrow> sptr \<Rightarrow> ('rs, 'w) transport \<Rightarrow> fault + ('rs, 'w) transport flow" where
  "track_stream_step E c s t =
     (case t_streams t s of
        None \<Rightarrow> Inl NullDeref
      | Some x0 \<Rightarrow>
          with_conn c t (\<lambda>k0.
            let input0 = e_ingress_get E s (t_world t) in
            if input0 = [] then Inr (Stop t)
            else
              let (x, k, t1) = track_stream_open E c s x0 k0 input0 t;
                  input = e_ingress_get E s (t_world t1)
              in
              if length input < 4 then Inr (Stop t1)
              else
                let payload_size = be_val (bslice 0 4 input) in
                if length input < 4 + payload_size then Inr (Stop t1)
                else if unauthorized t1 k
                then Inr (Stop (upd_world (e_close E (c_quic k) ''unauthorized'') t1))
                else
                  let t2 = (case find_subscription_by_alias (c_subscriptions k) (sx_alias x) zero_track of
                              None \<Rightarrow> t1
                            | Some track \<Rightarrow>
                                e_callback E (ObjectReceived track
                                  (plain_object track (bslice 4 payload_size input) True)) c t1)
                  in Inr (More (upd_world
                       (e_ingress_shift E s (unat (4 + of_nat payload_size :: u32))) t2))))"

partial_function (option) parse_track_stream_messages ::
  "('rs, 'rq, 'sc, 'w) env \<Rightarrow> cptr \<Rightarrow> sptr \<Rightarrow> ('rs, 'w) transport \<Rightarrow> (fault + ('rs, 'w) transport) option" where
  "parse_track_stream_messages E c s t =
     (case track_stream_step E c s t of
        Inl e \<Rightarrow> Some (Inl e)
      | Inr fl \<Rightarrow> (case fl of Stop t' \<Rightarrow> Some (Inr t') | More t' \<Rightarrow> parse_track_stream_messages E c s t'))"

section \<open>Reception\<close>

definition on_receive ::
  "('rs, 'rq, 'sc, 'w) env \<Rightarrow> sptr \<Rightarrow> nat \<Rightarrow> bytes \<Rightarrow> ('rs, 'w) transport \<Rightarrow>
   (fault + ('rs, 'w) transport) option" where
  "on_receive E s off src t =
     (case e_ingress_receive E s off src (t_world t) of
        (ok, w) \<Rightarrow>
          let t1 = t\<lparr>t_world := w\<rparr> in
          if \<not> ok then Some (Inr t1)
          else case e_conn_data E (e_stream_quic E s w) w of
                 None \<Rightarrow> Some (Inr t1)
               | Some c \<Rightarrow>
                   (case t_streams t1 s of
                      None \<Rightarrow> Some (Inl NullDeref)
                    | Some x \<Rightarrow>
                        if sx_is_control x then parse_control_messages E c s t1
                        else parse_track_stream_messages E c s t1))"

end
