(* ===== verification/Stream_Parsing.thy ===== *)
theory Stream_Parsing
  imports Control
begin

text \<open>
  What the stream parsers guarantee. Both are interpretations of the locale \<open>parser_loop\<close>
  (theory \<open>Loops\<close>) for streams whose buffer behaves as quicly documents (\<open>stream_buffer\<close>).
\<close>

section \<open>The stream buffer\<close>

text \<open>
  The receive buffer of quicly: shifting drops bytes from its front, and nothing else the parsers
  call touches it; the application does not read from the stream either.
\<close>

definition stream_buffer :: "('rs, 'rq, 'sc, 'w) env \<Rightarrow> sptr \<Rightarrow> bool" where
  "stream_buffer E s \<longleftrightarrow>
     (\<forall>n w. e_ingress_get E s (e_ingress_shift E s n w) = drop n (e_ingress_get E s w)) \<and>
     (\<forall>st w. e_ingress_get E s (e_egress_shutdown E st w) = e_ingress_get E s w) \<and>
     (\<forall>q bs w. e_ingress_get E s (e_send_datagram E q bs w) = e_ingress_get E s w) \<and>
     (\<forall>w. e_ingress_get E s (snd (e_time_ns E w)) = e_ingress_get E s w) \<and>
     (\<forall>ev c t. e_ingress_get E s (t_world (e_callback E ev c t)) = e_ingress_get E s (t_world t))"

abbreviation pending :: "('rs, 'rq, 'sc, 'w) env \<Rightarrow> sptr \<Rightarrow> ('rs, 'w) transport \<Rightarrow> bytes" where
  "pending E s t \<equiv> e_ingress_get E s (t_world t)"

lemma stream_bufferD:
  assumes "stream_buffer E s"
  shows "e_ingress_get E s (e_ingress_shift E s n w) = drop n (e_ingress_get E s w)"
    "e_ingress_get E s (e_egress_shutdown E st w) = e_ingress_get E s w"
    "e_ingress_get E s (e_send_datagram E q bs w) = e_ingress_get E s w"
    "e_ingress_get E s (snd (e_time_ns E w)) = e_ingress_get E s w"
    "e_ingress_get E s (t_world (e_callback E ev c t)) = e_ingress_get E s (t_world t)"
  using assms by (simp_all add: stream_buffer_def)

lemma ctl_track_update_pending:
  "stream_buffer E s \<Longrightarrow> pending E s (ctl_track_update E c k ty al track t) = pending E s t"
  by (simp add: ctl_track_update_def stream_bufferD Let_def split: option.splits prod.splits)

lemma transport_get_fec_pending:
  "stream_buffer E s \<Longrightarrow> transport_get_fec E ty k m sz t = (f, t') \<Longrightarrow> pending E s t' = pending E s t"
  by (auto simp: transport_get_fec_def stream_bufferD Let_def case_prod_beta)

lemma resend_blocks_pending:
  "stream_buffer E s \<Longrightarrow> resend_blocks E e data t = Inr (d, p, t') \<Longrightarrow> pending E s t' = pending E s t"
  by (auto simp: resend_blocks_def Let_def bindf_Inr_iff transport_get_fec_pending
      split: if_splits option.splits prod.splits)

lemma resend_symbols_pending:
  "stream_buffer E s \<Longrightarrow> resend_symbols E q al e d p ss t = Inr t' \<Longrightarrow> pending E s t' = pending E s t"
  by (induction ss arbitrary: t)
    (auto simp: stream_bufferD Let_def case_prod_beta split: if_splits)

lemma ctl_nack_reply_pending:
  "stream_buffer E s \<Longrightarrow> ctl_nack_reply E k al g ob missing t = Inr t' \<Longrightarrow> pending E s t' = pending E s t"
  by (auto simp: ctl_nack_reply_def Let_def bindf_Inr_iff resend_symbols_pending resend_blocks_pending
      split: option.splits prod.splits)

lemmas ctl_msg_defs =
  ctl_track_msg_def ctl_input_msg_def ctl_auth_msg_def ctl_status_msg_def ctl_reliable_msg_def ctl_nack_msg_def

lemma dropped_some: "0 < n \<Longrightarrow> \<exists>m > 0. drop n xs = drop m xs"
  by blast

text \<open>A turn that goes on has taken at least one byte off the stream.\<close>

lemma control_step_consumes:
  assumes buf: "stream_buffer E s" and step: "control_step E c s t = Inr (More t')"
  shows "\<exists>n > 0. pending E s t' = drop n (pending E s t) \<and> pending E s t \<noteq> []"
proof -
  note simps = with_conn_Inr_iff stream_bufferD [OF buf] ctl_track_update_pending [OF buf] Let_def
  have track: "\<exists>n > 0. pending E s t' = drop n (pending E s t)"
    if "ctl_track_msg E c s input t = Inr (More t')" for input
    using that by (auto simp: ctl_track_msg_def simps intro!: dropped_some split: if_splits)
  have inp: "\<exists>n > 0. pending E s t' = drop n (pending E s t)"
    if "ctl_input_msg E c s input t = Inr (More t')" for input
    using that by (auto simp: ctl_input_msg_def simps intro!: dropped_some split: if_splits)
  have auth: "\<exists>n > 0. pending E s t' = drop n (pending E s t)"
    if "ctl_auth_msg E c s input t = Inr (More t')" for input
    using that by (auto simp: ctl_auth_msg_def simps intro!: dropped_some split: if_splits)
  have status: "\<exists>n > 0. pending E s t' = drop n (pending E s t)"
    if "ctl_status_msg E c s input t = Inr (More t')" for input
    using that by (auto simp: ctl_status_msg_def simps intro!: dropped_some split: if_splits)
  have rel: "\<exists>n > 0. pending E s t' = drop n (pending E s t)"
    if "ctl_reliable_msg E c s input t = Inr (More t')" for input
    using that by (auto simp: ctl_reliable_msg_def simps intro!: dropped_some split: if_splits option.splits)
  have nack: "\<exists>n > 0. pending E s t' = drop n (pending E s t)"
    if "ctl_nack_msg E c s input t = Inr (More t')" for input
    using that by (auto simp: ctl_nack_msg_def simps bindf_Inr_iff ctl_nack_reply_pending [OF buf] intro!: dropped_some split: if_splits)
  show ?thesis
    using step track inp auth status rel nack stream_bufferD(1) [OF buf]
    by (auto simp: control_step_def Let_def intro!: dropped_some split: if_splits)
qed

interpretation ctl: parser_loop "control_step E c s" "parse_control_messages E c s"
    "\<lambda>t. stream_buffer E s" "\<lambda>t. length (pending E s t)"
  for E :: "('rs, 'rq, 'sc, 'w) env" and c :: cptr and s :: sptr
proof unfold_locales
  fix t t' :: "('rs, 'w) transport"
  assume "stream_buffer E s" "control_step E c s t = Inr (More t')"
  then obtain n where "0 < n" "pending E s t' = drop n (pending E s t)" "pending E s t \<noteq> []"
    using control_step_consumes by blast
  then show "length (pending E s t') < length (pending E s t)" by simp
qed (rule parse_control_messages.simps)

section \<open>Track streams\<close>

text \<open>
  The shift after an object is a 32-bit sum, so the parser makes progress as long as less than
  \<open>2 ^ 32\<close> bytes are pending.
\<close>

lemma track_stream_open_pending:
  "stream_buffer E s \<Longrightarrow> track_stream_open E c s x k input t = (x', k', t') \<Longrightarrow>
   pending E s t' = drop (if sx_header_received x then 0 else 1) (pending E s t)"
  by (auto simp: track_stream_open_def Let_def stream_bufferD split: if_splits)

lemma track_stream_step_consumes:
  assumes buf: "stream_buffer E s" and len: "length (pending E s t) < 2 ^ 32"
    and step: "track_stream_step E c s t = Inr (More t')"
  shows "\<exists>n > 0. pending E s t' = drop n (pending E s t) \<and> pending E s t \<noteq> []"
proof -
  obtain x0 k0 where x0: "t_streams t s = Some x0" "t_heap t c = Some k0"
    using step by (auto simp: track_stream_step_def with_conn_Inr_iff split: option.splits)
  obtain x k t1 where op: "track_stream_open E c s x0 k0 (pending E s t) t = (x, k, t1)"
    by (metis prod_cases3)
  let ?d = "if sx_header_received x0 then 0 else 1 :: nat" and ?p = "be_val (bslice 0 4 (pending E s t1))"
  have p1: "pending E s t1 = drop ?d (pending E s t)" by (rule track_stream_open_pending [OF buf op])
  obtain w where ne: "pending E s t \<noteq> []" and fit: "\<not> length (pending E s t1) < 4 + ?p"
    and t': "t' = upd_world (e_ingress_shift E s (unat (4 + of_nat ?p :: u32))) w"
    and w: "pending E s w = pending E s t1"
    using step x0 op stream_bufferD(5) [OF buf]
    by (auto simp: track_stream_step_def Let_def split: if_splits option.splits)
  have "4 + ?p < 2 ^ 32" using fit len p1 by simp
  then have sh: "unat (4 + of_nat ?p :: u32) = 4 + ?p" by (simp add: unat_word_ariths unat_of_nat)
  have "pending E s t' = drop (4 + ?p + ?d) (pending E s t)"
    using t' w p1 sh stream_bufferD(1) [OF buf] by simp
  then show ?thesis using ne by (intro exI [of _ "4 + ?p + ?d"]) simp
qed

interpretation trk: parser_loop "track_stream_step E c s" "parse_track_stream_messages E c s"
    "\<lambda>t. stream_buffer E s \<and> length (pending E s t) < 2 ^ 32" "\<lambda>t. length (pending E s t)"
  for E :: "('rs, 'rq, 'sc, 'w) env" and c :: cptr and s :: sptr
proof unfold_locales
  fix t t' :: "('rs, 'w) transport"
  assume "stream_buffer E s \<and> length (pending E s t) < 2 ^ 32" "track_stream_step E c s t = Inr (More t')"
  moreover from this obtain n where "0 < n" "pending E s t' = drop n (pending E s t)" "pending E s t \<noteq> []"
    using track_stream_step_consumes by blast
  ultimately show "length (pending E s t') < length (pending E s t)"
    and "stream_buffer E s \<and> length (pending E s t') < 2 ^ 32" by auto
qed (rule parse_track_stream_messages.simps)

section \<open>Messages\<close>

text \<open>
  The control messages, with their layout as the senders write it (\<open>send_nack\<close> for the last, the
  functions of the public interface for the others). The first kind covers the types 1, 2 and 6.
\<close>

datatype ctl_msg =
    TrackMsg u8 u8 u8 u8 cstr
  | InputMsg bytes
  | AuthMsg bytes
  | StatusMsg u8
  | ReliableMsg u8 bytes
  | NackMsg u8 u32 u32 "u16 list"

fun ctl_bytes :: "ctl_msg \<Rightarrow> bytes" where
  "ctl_bytes (TrackMsg kind al ty flags name) = [kind, al, ty, flags, of_nat (length name)] @ name"
| "ctl_bytes (InputMsg data) = [3] @ be_bytes 4 (length data) @ data"
| "ctl_bytes (AuthMsg token) = [4] @ be_bytes 2 (length token) @ token"
| "ctl_bytes (StatusMsg status) = [5, status]"
| "ctl_bytes (ReliableMsg al data) = [7, al] @ be_bytes 4 (length data) @ data"
| "ctl_bytes (NackMsg al g ob missing) = nack_bytes al g ob missing"

fun ctl_ok :: "ctl_msg \<Rightarrow> bool" where
  "ctl_ok (TrackMsg kind al ty flags name) \<longleftrightarrow> kind \<in> {1, 2, 6} \<and> name_ok name"
| "ctl_ok (InputMsg data) \<longleftrightarrow> length data \<le> MAX_CTL_PAYLOAD"
| "ctl_ok (AuthMsg token) \<longleftrightarrow> length token < 65536"
| "ctl_ok (StatusMsg status) \<longleftrightarrow> True"
| "ctl_ok (ReliableMsg al data) \<longleftrightarrow> length data \<le> MAX_CTL_PAYLOAD"
| "ctl_ok (NackMsg al g ob missing) \<longleftrightarrow> length missing \<le> 256"

text \<open>What one message does, apart from being taken off the stream.\<close>

fun ctl_effect ::
  "('rs, 'rq, 'sc, 'w) env \<Rightarrow> cptr \<Rightarrow> conn \<Rightarrow> ctl_msg \<Rightarrow> ('rs, 'w) transport \<Rightarrow> fault + ('rs, 'w) transport" where
  "ctl_effect E c k (TrackMsg kind al ty flags name) t =
     (let track = \<lparr>tk_type = ucast ty, tk_flags = flags, tk_name = name\<rparr>
      in Inr (e_callback E (ctl_track_event kind track) c (ctl_track_update E c k kind al track t)))"
| "ctl_effect E c k (InputMsg data) t =
     Inr (e_callback E (ObjectReceived input_track (plain_object input_track data False)) c t)"
| "ctl_effect E c k (AuthMsg token) t = Inr (e_callback E (Auth token) c t)"
| "ctl_effect E c k (StatusMsg status) t =
     Inr (e_callback E (AuthComplete (status = 1)) c
            (if status = 1 then put_conn c (k\<lparr>c_authenticated := True\<rparr>) t else t))"
| "ctl_effect E c k (ReliableMsg al data) t =
     Inr (case find_subscription_by_alias (c_subscriptions k) al zero_track of
            None \<Rightarrow> t
          | Some tr \<Rightarrow>
              let track = tr\<lparr>tk_flags := (tk_flags tr AND NOT MOQ_TRACK_FLAG_FEC_ENABLED)
                                          OR MOQ_TRACK_FLAG_RELIABLE\<rparr>
              in e_callback E (ObjectReceived track (plain_object track data True)) c t)"
| "ctl_effect E c k (NackMsg al g ob missing) t = ctl_nack_reply E k al g ob missing t"

fun ctl_run ::
  "('rs, 'rq, 'sc, 'w) env \<Rightarrow> cptr \<Rightarrow> sptr \<Rightarrow> ctl_msg list \<Rightarrow> ('rs, 'w) transport \<Rightarrow> fault + ('rs, 'w) transport" where
  "ctl_run E c s [] t = Inr t"
| "ctl_run E c s (m # ms) t =
     with_conn c t (\<lambda>k. bindf (ctl_effect E c k m t)
       (\<lambda>t1. ctl_run E c s ms (upd_world (e_ingress_shift E s (length (ctl_bytes m))) t1)))"

lemma length_concat_be2 [simp]: "length (concat (map (\<lambda>i. be_bytes 2 (f i)) xs)) = 2 * length xs"
  by (induction xs) auto

lemma bslice_concat_be2:
  "i < length xs \<Longrightarrow> bslice (i * 2) 2 (concat (map (\<lambda>x. be_bytes 2 (f x)) xs) @ rest) = be_bytes 2 (f (xs ! i))"
proof (induction xs arbitrary: i)
  case (Cons x xs)
  show ?case
  proof (cases i)
    case 0
    then show ?thesis by (simp add: bslice_def)
  next
    case (Suc j)
    with Cons.IH [of j] Cons.prems show ?thesis by (simp add: slice_append_skip)
  qed
qed simp

lemma nack_indices_bytes:
  "nack_indices (nack_bytes al g ob missing @ rest) (length missing) = missing"
proof (rule nth_equalityI)
  fix i assume "i < length (nack_indices (nack_bytes al g ob missing @ rest) (length missing))"
  then have i: "i < length missing" by (simp add: nack_indices_def)
  have "bslice (12 + i * 2) 2 (nack_bytes al g ob missing @ rest) = be_bytes 2 (unat (missing ! i))"
  proof -
    let ?h = "[8, al] @ be_bytes 4 (unat g) @ be_bytes 4 (unat ob) @ be_bytes 2 (length missing)"
    have "nack_bytes al g ob missing @ rest = ?h @ concat (map (\<lambda>i. be_bytes 2 (unat i)) missing) @ rest"
      by (simp add: nack_bytes_def)
    moreover have "length ?h = 12" by simp
    ultimately show ?thesis
      using bslice_concat_be2 [OF i, of unat rest] slice_append_skip [of ?h "12 + i * 2" 2] by simp
  qed
  with i show "nack_indices (nack_bytes al g ob missing @ rest) (length missing) ! i = missing ! i"
    by (simp add: nack_indices_def)
qed (simp add: nack_indices_def)

lemma be_val4 [simp]: "n \<le> MAX_CTL_PAYLOAD \<Longrightarrow> be_val (be_bytes 4 n) = n"
  by (simp add: be_val_be_bytes MAX_CTL_PAYLOAD_def)

lemma be_val2 [simp]: "n < 65536 \<Longrightarrow> be_val (be_bytes 2 n) = n"
  by (simp add: be_val_be_bytes)

text \<open>Each parser branch, on a stream that starts with a complete message.\<close>

lemma ctl_track_msg_step:
  assumes "t_heap t c = Some k" "\<not> unauthorized t k" "name_ok name"
  shows "ctl_track_msg E c s (ctl_bytes (TrackMsg kind al ty flags name) @ rest) t =
    bindf (ctl_effect E c k (TrackMsg kind al ty flags name) t)
      (\<lambda>t1. Inr (More (upd_world (e_ingress_shift E s (5 + length name)) t1)))"
proof -
  have len: "length name < 64" "0 \<notin> set name" using assms(3) by (simp_all add: name_ok_def)
  then have u: "unat (of_nat (length name) :: u8) = length name" by (simp add: unat_of_nat)
  have "(if length name < 63 then length name else 63) = length name" using len by auto
  then have "bslice 5 (if length name < 63 then length name else 63)
      ([kind, al, ty, flags, of_nat (length name)] @ name @ rest) = name"
    by (simp only:) (simp add: bslice_def)
  then show ?thesis
    using assms(1,2) len u by (simp add: ctl_track_msg_def Let_def cstr_of_id)
qed

lemma ctl_input_msg_step:
  assumes "t_heap t c = Some k" "\<not> unauthorized t k" "length data \<le> MAX_CTL_PAYLOAD"
  shows "ctl_input_msg E c s (ctl_bytes (InputMsg data) @ rest) t =
    bindf (ctl_effect E c k (InputMsg data) t)
      (\<lambda>t1. Inr (More (upd_world (e_ingress_shift E s (5 + length data)) t1)))"
  using assms by (simp add: ctl_input_msg_def Let_def bslice_def)

lemma ctl_auth_msg_step:
  assumes "length token < 65536"
  shows "ctl_auth_msg E c s (ctl_bytes (AuthMsg token) @ rest) t =
    bindf (ctl_effect E c k (AuthMsg token) t)
      (\<lambda>t1. Inr (More (upd_world (e_ingress_shift E s (3 + length token)) t1)))"
  using assms by (simp add: ctl_auth_msg_def Let_def bslice_def)

lemma ctl_status_msg_step:
  assumes "t_heap t c = Some k"
  shows "ctl_status_msg E c s (ctl_bytes (StatusMsg status) @ rest) t =
    bindf (ctl_effect E c k (StatusMsg status) t)
      (\<lambda>t1. Inr (More (upd_world (e_ingress_shift E s 2) t1)))"
  using assms by (simp add: ctl_status_msg_def Let_def)

lemma ctl_reliable_msg_step:
  assumes "t_heap t c = Some k" "\<not> unauthorized t k" "length data \<le> MAX_CTL_PAYLOAD"
  shows "ctl_reliable_msg E c s (ctl_bytes (ReliableMsg al data) @ rest) t =
    bindf (ctl_effect E c k (ReliableMsg al data) t)
      (\<lambda>t1. Inr (More (upd_world (e_ingress_shift E s (6 + length data)) t1)))"
  using assms by (simp add: ctl_reliable_msg_def Let_def bslice_def split: option.splits)

lemma ctl_nack_msg_step:
  assumes "t_heap t c = Some k" "\<not> unauthorized t k" "length missing \<le> 256"
  shows "ctl_nack_msg E c s (ctl_bytes (NackMsg al g ob missing) @ rest) t =
    bindf (ctl_effect E c k (NackMsg al g ob missing) t)
      (\<lambda>t1. Inr (More (upd_world (e_ingress_shift E s (12 + 2 * length missing)) t1)))"
proof -
  let ?bs = "nack_bytes al g ob missing @ rest"
  have f: "?bs ! Suc 0 = al" "of_nat (be_val (bslice 2 4 ?bs)) = g" "of_nat (be_val (bslice 6 4 ?bs)) = ob"
    "be_val (bslice 10 2 ?bs) = length missing" "length (nack_bytes al g ob missing) = 12 + 2 * length missing"
    using assms(3) by (simp_all add: nack_bytes_def bslice_def)
  show ?thesis
    using assms by (simp add: ctl_nack_msg_def f nack_indices_bytes Let_def mult.commute del: append_assoc)
qed

lemma control_step_msg:
  assumes kn: "t_heap t c = Some k" "\<not> unauthorized t k" and ok: "ctl_ok m"
    and pend: "pending E s t = ctl_bytes m @ rest"
  shows "control_step E c s t = bindf (ctl_effect E c k m t)
    (\<lambda>t1. Inr (More (upd_world (e_ingress_shift E s (length (ctl_bytes m))) t1)))"
proof (cases m)
  case (TrackMsg kind al ty flags name)
  then have "control_step E c s t = ctl_track_msg E c s (ctl_bytes m @ rest) t"
    using ok pend by (auto simp: control_step_def Let_def)
  moreover have "length (ctl_bytes m) = 5 + length name" using TrackMsg by simp
  moreover have "name_ok name" using TrackMsg ok by simp
  ultimately show ?thesis using TrackMsg by (simp only: ctl_track_msg_step [OF kn])
next
  case (InputMsg data)
  then have "control_step E c s t = ctl_input_msg E c s (ctl_bytes m @ rest) t"
    using ok pend by (simp add: control_step_def Let_def)
  moreover have "length (ctl_bytes m) = 5 + length data" using InputMsg by simp
  ultimately show ?thesis using InputMsg ok by (simp only: ctl_ok.simps ctl_input_msg_step [OF kn])
next
  case (AuthMsg token)
  then have "control_step E c s t = ctl_auth_msg E c s (ctl_bytes m @ rest) t"
    using ok pend by (simp add: control_step_def Let_def)
  moreover have "length (ctl_bytes m) = 3 + length token" using AuthMsg by simp
  ultimately show ?thesis using AuthMsg ok by (simp only: ctl_ok.simps ctl_auth_msg_step [where k = k])
next
  case (StatusMsg status)
  then have "control_step E c s t = ctl_status_msg E c s (ctl_bytes m @ rest) t"
    using ok pend by (simp add: control_step_def Let_def)
  moreover have "length (ctl_bytes m) = 2" using StatusMsg by simp
  ultimately show ?thesis using StatusMsg ctl_status_msg_step [OF kn(1)] by (simp only:)
next
  case (ReliableMsg al data)
  then have "control_step E c s t = ctl_reliable_msg E c s (ctl_bytes m @ rest) t"
    using ok pend by (simp add: control_step_def Let_def)
  moreover have "length (ctl_bytes m) = 6 + length data" using ReliableMsg by simp
  ultimately show ?thesis using ReliableMsg ok by (simp only: ctl_ok.simps ctl_reliable_msg_step [OF kn])
next
  case (NackMsg al g ob missing)
  then have "control_step E c s t = ctl_nack_msg E c s (ctl_bytes m @ rest) t"
    using ok pend by (simp add: control_step_def Let_def nack_bytes_def)
  moreover have "length (ctl_bytes m) = 12 + 2 * length missing" using NackMsg by (simp add: nack_bytes_def)
  ultimately show ?thesis using NackMsg ok by (simp only: ctl_ok.simps ctl_nack_msg_step [OF kn])
qed

section \<open>Incomplete messages\<close>

lemma bslice_take: "off + k \<le> j \<Longrightarrow> bslice off k (take j bs) = bslice off k bs"
  by (simp add: bslice_def drop_take min_def)

text \<open>A stream that ends inside a message leaves the parser waiting, with nothing done.\<close>

lemma control_step_partial:
  assumes kn: "t_heap t c = Some k" "\<not> unauthorized t k" and ok: "ctl_ok m"
    and j: "j < length (ctl_bytes m)" and pend: "pending E s t = take j (ctl_bytes m)"
  shows "control_step E c s t = Inr (Stop t)"
proof (cases "j = 0")
  case True
  then show ?thesis using pend by (simp add: control_step_def)
next
  case False
  let ?in = "take j (ctl_bytes m)"
  have nz: "?in \<noteq> []" using False j by (cases "ctl_bytes m") auto
  have nth: "?in ! i = ctl_bytes m ! i" if "i < j" for i using that by simp
  have len: "length ?in = j" using j by simp
  have sl: "bslice off n ?in = bslice off n (ctl_bytes m)" if "off + n \<le> j" for off n
    using that by (rule bslice_take)
  have ty: "?in ! 0 = ctl_bytes m ! 0" using nth [of 0] False by simp
  note d = control_step_def pend nz Let_def ty len
  show ?thesis
  proof (cases m)
    case (TrackMsg kind al ty flags name)
    then have n: "unat (of_nat (length name) :: u8) = length name"
      using ok by (simp add: name_ok_def unat_of_nat)
    have "ctl_track_msg E c s ?in t = Inr (Stop t)"
    proof (cases "j < 5")
      case False
      then have "unat (?in ! 4) = length name" using nth [of 4] n TrackMsg by simp
      with False kn j TrackMsg len show ?thesis by (simp add: ctl_track_msg_def Let_def)
    qed (use j in \<open>simp add: ctl_track_msg_def\<close>)
    with TrackMsg ok show ?thesis by (auto simp: d)
  next
    case (InputMsg data)
    have "ctl_input_msg E c s ?in t = Inr (Stop t)"
    proof (cases "j < 5")
      case False
      then have "be_val (bslice 1 4 ?in) = length data" using sl [of 1 4] ok InputMsg by (simp add: bslice_def)
      with False kn j InputMsg ok len show ?thesis by (simp add: ctl_input_msg_def Let_def)
    qed (use j in \<open>simp add: ctl_input_msg_def\<close>)
    with InputMsg show ?thesis by (simp add: d)
  next
    case (AuthMsg token)
    have "ctl_auth_msg E c s ?in t = Inr (Stop t)"
    proof (cases "j < 3")
      case False
      then have "be_val (bslice 1 2 ?in) = length token" using sl [of 1 2] ok AuthMsg by (simp add: bslice_def)
      with False j AuthMsg len show ?thesis by (simp add: ctl_auth_msg_def Let_def)
    qed (use j in \<open>simp add: ctl_auth_msg_def\<close>)
    with AuthMsg show ?thesis by (simp add: d)
  next
    case (StatusMsg status)
    with j have "ctl_status_msg E c s ?in t = Inr (Stop t)" by (simp add: ctl_status_msg_def len)
    with StatusMsg show ?thesis by (simp add: d)
  next
    case (ReliableMsg al data)
    have "ctl_reliable_msg E c s ?in t = Inr (Stop t)"
    proof (cases "j < 6")
      case False
      then have "be_val (bslice 2 4 ?in) = length data" using sl [of 2 4] ok ReliableMsg by (simp add: bslice_def)
      with False kn j ReliableMsg ok len show ?thesis by (simp add: ctl_reliable_msg_def Let_def)
    qed (use j in \<open>simp add: ctl_reliable_msg_def\<close>)
    with ReliableMsg show ?thesis by (simp add: d)
  next
    case (NackMsg al g ob missing)
    have n: "length (ctl_bytes m) = 12 + 2 * length missing" using NackMsg by (simp add: nack_bytes_def)
    have "ctl_nack_msg E c s ?in t = Inr (Stop t)"
    proof (cases "j < 12")
      case False
      then have "be_val (bslice 10 2 ?in) = length missing"
        using sl [of 10 2] ok NackMsg by (simp add: bslice_def nack_bytes_def)
      with False kn j n len show ?thesis by (simp add: ctl_nack_msg_def Let_def)
    qed (use j in \<open>simp add: ctl_nack_msg_def\<close>)
    moreover have "ctl_bytes m ! 0 = 8" using NackMsg by (simp add: nack_bytes_def)
    ultimately show ?thesis by (simp add: d)
  qed
qed

section \<open>Whole streams\<close>

text \<open>The application leaves the connection object and the role of the transport alone.\<close>

definition callback_quiet :: "('rs, 'rq, 'sc, 'w) env \<Rightarrow> cptr \<Rightarrow> bool" where
  "callback_quiet E c \<longleftrightarrow>
     (\<forall>ev t. t_heap (e_callback E ev c t) c = t_heap t c \<and>
             t_is_server (e_callback E ev c t) = t_is_server t)"

lemma transport_get_fec_frame:
  "transport_get_fec E ty k m sz t = (f, t') \<Longrightarrow> t_heap t' = t_heap t \<and> t_is_server t' = t_is_server t"
  by (auto simp: transport_get_fec_def Let_def case_prod_beta)

lemma resend_symbols_frame:
  "resend_symbols E q al e d p ss t = Inr t' \<Longrightarrow> t_heap t' = t_heap t \<and> t_is_server t' = t_is_server t"
proof (induction ss arbitrary: t)
  case (Cons s ss)
  then show ?case by (fastforce simp: Let_def case_prod_beta split: if_splits)
qed simp

lemma ctl_nack_reply_frame:
  "ctl_nack_reply E k al g ob missing t = Inr t' \<Longrightarrow> t_heap t' = t_heap t \<and> t_is_server t' = t_is_server t"
proof -
  have blocks: "t_heap t1 = t_heap t \<and> t_is_server t1 = t_is_server t"
    if "resend_blocks E e data t = Inr (d, p, t1)" for e data d p t1
    using that by (auto simp: resend_blocks_def Let_def bindf_Inr_iff dest: transport_get_fec_frame
        split: if_splits option.splits prod.splits)
  show "ctl_nack_reply E k al g ob missing t = Inr t' \<Longrightarrow> t_heap t' = t_heap t \<and> t_is_server t' = t_is_server t"
    by (auto simp: ctl_nack_reply_def Let_def bindf_Inr_iff split: option.splits
        dest!: blocks resend_symbols_frame)
qed

lemma ctl_effect_keeps:
  assumes buf: "stream_buffer E s" and quiet: "callback_quiet E c"
    and kn: "t_heap t c = Some k" "\<not> unauthorized t k" and eff: "ctl_effect E c k m t = Inr t1"
  shows "\<exists>k'. t_heap t1 c = Some k' \<and> \<not> unauthorized t1 k' \<and> pending E s t1 = pending E s t"
proof (cases m)
  case (TrackMsg kind al ty flags name)
  let ?track = "\<lparr>tk_type = ucast ty, tk_flags = flags, tk_name = name\<rparr>"
  have "\<exists>k'. t_heap (ctl_track_update E c k kind al ?track t) c = Some k' \<and> c_authenticated k' = c_authenticated k"
    "t_is_server (ctl_track_update E c k kind al ?track t) = t_is_server t"
    using kn by (auto simp: ctl_track_update_def Let_def split: option.splits prod.splits)
  with TrackMsg eff quiet kn ctl_track_update_pending [OF buf] show ?thesis
    by (auto simp: callback_quiet_def unauthorized_def stream_bufferD [OF buf] Let_def)
next
  case (NackMsg al g ob missing)
  with eff kn ctl_nack_reply_frame [of E k al g ob missing t t1] ctl_nack_reply_pending [OF buf] show ?thesis
    by (auto simp: unauthorized_def)
next
  case (ReliableMsg al data)
  with eff quiet kn show ?thesis
    by (auto simp: callback_quiet_def unauthorized_def stream_bufferD [OF buf] Let_def split: option.splits)
qed (use eff quiet kn in \<open>auto simp: callback_quiet_def unauthorized_def stream_bufferD [OF buf]\<close>)

lemma parse_control_run:
  assumes buf: "stream_buffer E s" and quiet: "callback_quiet E c"
  shows "t_heap t c = Some k \<Longrightarrow> \<not> unauthorized t k \<Longrightarrow> \<forall>m \<in> set ms. ctl_ok m \<Longrightarrow>
    ctl_ok m' \<Longrightarrow> j < length (ctl_bytes m') \<Longrightarrow>
    pending E s t = concat (map ctl_bytes ms) @ take j (ctl_bytes m') \<Longrightarrow>
    parse_control_messages E c s t = Some (ctl_run E c s ms t) \<and>
    (\<forall>t'. ctl_run E c s ms t = Inr t' \<longrightarrow> pending E s t' = take j (ctl_bytes m'))"
proof (induction ms arbitrary: t k)
  case Nil
  then show ?case using ctl.loop_stop [OF control_step_partial] by fastforce
next
  case (Cons m ms)
  have "pending E s t = ctl_bytes m @ concat (map ctl_bytes ms) @ take j (ctl_bytes m')"
    using Cons.prems by simp
  from control_step_msg [OF Cons.prems(1,2) _ this] Cons.prems
  have st: "control_step E c s t = bindf (ctl_effect E c k m t)
    (\<lambda>t1. Inr (More (upd_world (e_ingress_shift E s (length (ctl_bytes m))) t1)))" by simp
  show ?case
  proof (cases "ctl_effect E c k m t")
    case (Inl e)
    with st have "control_step E c s t = Inl e" by simp
    from ctl.loop_fault [OF this] Inl Cons.prems show ?thesis by simp
  next
    case (Inr t1)
    let ?t2 = "upd_world (e_ingress_shift E s (length (ctl_bytes m))) t1"
    obtain k' where k': "t_heap t1 c = Some k'" "\<not> unauthorized t1 k'" "pending E s t1 = pending E s t"
      using ctl_effect_keeps [OF buf quiet Cons.prems(1,2) Inr] by blast
    have "control_step E c s t = Inr (More ?t2)" using st Inr by simp
    then have lp: "parse_control_messages E c s t = parse_control_messages E c s ?t2" by (rule ctl.loop_more)
    have "pending E s ?t2 = concat (map ctl_bytes ms) @ take j (ctl_bytes m')"
      using k'(3) Cons.prems stream_bufferD(1) [OF buf] by simp
    with Cons.IH [of ?t2 k'] k' Cons.prems lp Inr show ?thesis by (simp add: unauthorized_def)
  qed
qed

section \<open>Properties\<close>

text \<open>
  C3. The control parser decodes the stream message by message. On an authorised connection, let
  the pending bytes be any sequence of well-formed messages followed by a proper prefix of one more.
  Then \<^verbatim>\<open>parse_control_messages\<close> returns, it has performed exactly the effects of the complete
  messages in order (\<open>ctl_run\<close>), and the incomplete message is still pending, so that the parse goes
  on correctly wherever the stream was cut.
\<close>

theorem control_stream_framing:
  assumes "stream_buffer E s" and "callback_quiet E c" and "t_heap t c = Some k" and "\<not> unauthorized t k"
    and "\<forall>m \<in> set ms. ctl_ok m" and "ctl_ok m'" and "j < length (ctl_bytes m')"
    and "pending E s t = concat (map ctl_bytes ms) @ take j (ctl_bytes m')"
  shows "parse_control_messages E c s t = Some (ctl_run E c s ms t) \<and>
    (\<forall>t'. ctl_run E c s ms t = Inr t' \<longrightarrow> pending E s t' = take j (ctl_bytes m'))"
  using parse_control_run [OF assms] .

definition demo_stream_transport :: "bool \<Rightarrow> bytes \<Rightarrow> (nat, trace_world) transport" where
  "demo_stream_transport server bs = (blank_transport (empty_trace\<lparr>tw_ingress := (\<lambda>_. bs)\<rparr>))
     \<lparr>t_is_server := server, t_conns := [0], t_heap := [0 \<mapsto> (new_conn 7)\<lparr>c_stream := Some 3\<rparr>]\<rparr>"

lemma trace_stream_buffer: "stream_buffer trace_env s"
  by (simp add: stream_buffer_def trace_env_def)

lemma trace_callback_quiet: "callback_quiet trace_env c"
  by (simp add: callback_quiet_def trace_env_def)

theorem control_stream_framing_witness:
  "\<exists>t'. parse_control_messages trace_env 0 3
      (demo_stream_transport False [1, 9, 4, 2, 1, 97, 5, 1, 3, 0, 0, 0, 2, 65]) = Some (Inr t') \<and>
    pending trace_env 3 t' = [3, 0, 0, 0, 2, 65]"
proof -
  let ?t = "demo_stream_transport False [1, 9, 4, 2, 1, 97, 5, 1, 3, 0, 0, 0, 2, 65]"
  let ?ms = "[TrackMsg 1 9 4 2 [97], StatusMsg 1]" and ?m = "InputMsg [65, 66]"
  let ?k = "(new_conn 7)\<lparr>c_stream := Some 3\<rparr>"
  have b: "be_bytes 4 (Suc (Suc 0)) = [0, 0, 0, 2]" by code_simp
  have kn: "t_heap ?t 0 = Some ?k" and au: "\<not> unauthorized ?t ?k"
    by (simp_all add: demo_stream_transport_def unauthorized_def)
  have "parse_control_messages trace_env 0 3 ?t = Some (ctl_run trace_env 0 3 ?ms ?t) \<and>
      (\<forall>t'. ctl_run trace_env 0 3 ?ms ?t = Inr t' \<longrightarrow> pending trace_env 3 t' = take 6 (ctl_bytes ?m))"
    by (rule control_stream_framing [OF trace_stream_buffer trace_callback_quiet kn au])
      (simp_all add: name_ok_def MAX_CTL_PAYLOAD_def b trace_env_def demo_stream_transport_def
        blank_transport_def empty_trace_def)
  moreover have "\<exists>t'. ctl_run trace_env 0 3 ?ms ?t = Inr t'"
    using kn by (simp add: ctl_track_update_def Let_def trace_env_def)
  ultimately show ?thesis using b by auto
qed

text \<open>
  C19. Parsing ends: whatever bytes are pending, and whatever the application does as long as it does
  not touch the stream, the control loop returns, and so does the loop of a track stream with fewer
  than \<open>2 ^ 32\<close> pending bytes.
\<close>

theorem stream_parsers_terminate:
  assumes "stream_buffer E s"
  shows "(\<exists>r. parse_control_messages E c s t = Some r) \<and>
    (length (pending E s t) < 2 ^ 32 \<longrightarrow> (\<exists>r. parse_track_stream_messages E c s t = Some r))"
  using ctl.loop_terminates [OF assms] trk.loop_terminates assms by blast

theorem stream_parsers_terminate_witness:
  "\<exists>r. parse_track_stream_messages trace_env 0 3 (demo_stream_transport False [9, 0, 0, 0, 1, 77, 1]) = Some r"
proof -
  let ?t = "demo_stream_transport False [9, 0, 0, 0, 1, 77, 1]"
  have "length (pending trace_env 3 ?t) < 2 ^ 32"
    by (simp add: demo_stream_transport_def blank_transport_def trace_env_def)
  then show ?thesis using stream_parsers_terminate [OF trace_stream_buffer, of 0 3 ?t] by blast
qed

text \<open>
  C20. The authentication gate: on a server connection that is not authenticated, a turn of the control
  parser on anything but an authentication message raises no event and leaves the transport as it is
  but for the QUIC connection being closed or one unknown byte being skipped; and a datagram is ignored.
\<close>

theorem unauthenticated_gate:
  assumes "t_heap t c = Some k" and "t_is_server t" and "\<not> c_authenticated k"
    and "pending E s t = b # rest" and "b \<noteq> 4" and "b \<noteq> 5"
  shows "control_step E c s t \<in>
      {Inr (Stop t), Inr (Stop (upd_world (e_close E (c_quic k) ''unauthorized'') t)),
       Inr (Stop (upd_world (e_close E (c_quic k) ''protocol error: payload too large'') t)),
       Inr (More (upd_world (e_ingress_shift E s 1) t))} \<and>
    (e_conn_data E q (t_world t) = Some c \<longrightarrow> on_receive_datagram_frame E q payload t = Inr t)"
proof
  have un: "unauthorized t k" using assms by (simp add: unauthorized_def)
  show "control_step E c s t \<in>
      {Inr (Stop t), Inr (Stop (upd_world (e_close E (c_quic k) ''unauthorized'') t)),
       Inr (Stop (upd_world (e_close E (c_quic k) ''protocol error: payload too large'') t)),
       Inr (More (upd_world (e_ingress_shift E s 1) t))}"
    using assms un
    by (auto simp: control_step_def Let_def ctl_track_msg_def ctl_input_msg_def ctl_reliable_msg_def ctl_nack_msg_def)
  show "e_conn_data E q (t_world t) = Some c \<longrightarrow> on_receive_datagram_frame E q payload t = Inr t"
    using assms by (simp add: on_receive_datagram_frame_def)
qed

theorem unauthenticated_gate_witness:
  "on_receive_datagram_frame trace_env 7 [4, 4] (demo_stream_transport True [1, 9, 4, 2, 0]) =
     Inr (demo_stream_transport True [1, 9, 4, 2, 0])"
  using unauthenticated_gate [of "demo_stream_transport True [1, 9, 4, 2, 0]" 0
      "(new_conn 7)\<lparr>c_stream := Some 3\<rparr>" trace_env 3 1 "[9, 4, 2, 0]" 7 "[4, 4]"]
  by (simp add: demo_stream_transport_def new_conn_def trace_env_def blank_transport_def)

text \<open>
  C24. The gate can be opened from outside: the two bytes \<open>5, 1\<close>, the server's own answer to a token,
  are accepted by a server too, and authenticate the connection without the application having agreed.
\<close>

theorem peer_can_authenticate_itself:
  assumes "stream_buffer E s" and "callback_quiet E c" and "t_heap t c = Some k"
    and "t_is_server t" and "\<not> c_authenticated k" and "pending E s t = [5, 1]"
  shows "\<exists>t' k'. parse_control_messages E c s t = Some (Inr t') \<and>
    t_heap t' c = Some k' \<and> c_authenticated k'"
proof -
  let ?t1 = "put_conn c (k\<lparr>c_authenticated := True\<rparr>) t"
  let ?t2 = "upd_world (e_ingress_shift E s 2) (e_callback E (AuthComplete True) c ?t1)"
  have "control_step E c s t = Inr (More ?t2)"
    using assms(3,6) by (simp add: control_step_def ctl_status_msg_def Let_def)
  then have "parse_control_messages E c s t = parse_control_messages E c s ?t2" by (rule ctl.loop_more)
  moreover have "pending E s ?t2 = []" using assms(6) by (simp add: stream_bufferD [OF assms(1)])
  then have "control_step E c s ?t2 = Inr (Stop ?t2)" by (simp add: control_step_def)
  then have "parse_control_messages E c s ?t2 = Some (Inr ?t2)" by (rule ctl.loop_stop)
  moreover have "t_heap ?t2 c = Some (k\<lparr>c_authenticated := True\<rparr>)"
    using assms(2) by (simp add: callback_quiet_def)
  ultimately show ?thesis by simp
qed

theorem peer_can_authenticate_itself_witness:
  "\<exists>t' k'. parse_control_messages trace_env 0 3 (demo_stream_transport True [5, 1]) = Some (Inr t') \<and>
    t_heap t' 0 = Some k' \<and> c_authenticated k'"
  by (rule peer_can_authenticate_itself [OF trace_stream_buffer trace_callback_quiet,
        where k = "(new_conn 7)\<lparr>c_stream := Some 3\<rparr>"])
    (simp_all add: demo_stream_transport_def new_conn_def blank_transport_def trace_env_def)

text \<open>
  C25. A retransmission request for more than 256 symbols desynchronises the stream: the count is cut to
  256 before the message is taken off the stream, so the rest of the index list is parsed as messages.
\<close>

theorem long_nack_desynchronises:
  assumes "stream_buffer E s" and "t_heap t c = Some k" and "\<not> unauthorized t k"
    and "256 < length missing" and "length missing < 65536"
    and "pending E s t = nack_bytes al g ob missing @ rest"
    and "control_step E c s t = Inr (More t')"
  shows "pending E s t' =
    concat (map (\<lambda>i. be_bytes 2 (unat i)) (drop 256 missing)) @ rest"
proof -
  let ?bs = "nack_bytes al g ob missing @ rest"
  have n: "be_val (bslice 10 2 ?bs) = length missing" "length (nack_bytes al g ob missing) = 12 + 2 * length missing"
    "?bs ! 0 = 8" "nack_bytes al g ob missing \<noteq> []"
    using assms(5) by (simp_all add: nack_bytes_def bslice_def)
  have "ctl_nack_msg E c s ?bs t = Inr (More t')"
    using assms(6,7) n by (simp add: control_step_def Let_def)
  then have "pending E s t' = drop (12 + 256 * 2) ?bs"
    using assms(2-4,6) n
    by (auto simp: ctl_nack_msg_def Let_def bindf_Inr_iff stream_bufferD [OF assms(1)]
        ctl_nack_reply_pending [OF assms(1)] split: if_splits)
  also have "\<dots> = drop 512 (concat (map (\<lambda>i. be_bytes 2 (unat i)) missing) @ rest)"
    by (simp add: nack_bytes_def)
  also have "concat (map (\<lambda>i. be_bytes 2 (unat i)) missing) =
      concat (map (\<lambda>i. be_bytes 2 (unat i)) (take 256 missing)) @ concat (map (\<lambda>i. be_bytes 2 (unat i)) (drop 256 missing))"
    by (metis append_take_drop_id concat_append map_append)
  also have "drop 512 (\<dots> @ rest) = concat (map (\<lambda>i. be_bytes 2 (unat i)) (drop 256 missing)) @ rest"
    using assms(4) by simp
  finally show ?thesis .
qed

theorem long_nack_desynchronises_witness:
  "\<exists>t'. control_step trace_env 0 3 (demo_stream_transport False (nack_bytes 4 0 1 (replicate 257 5))) = Inr (More t') \<and>
    pending trace_env 3 t' = [0, 5]"
proof -
  let ?t = "demo_stream_transport False (nack_bytes 4 0 1 (replicate 257 5))"
  let ?k = "(new_conn 7)\<lparr>c_stream := Some 3\<rparr>"
  have kn: "t_heap ?t 0 = Some ?k" and au: "\<not> unauthorized ?t ?k"
    and pend: "pending trace_env 3 ?t = nack_bytes 4 0 1 (replicate 257 5) @ []"
    by (simp_all add: demo_stream_transport_def unauthorized_def trace_env_def blank_transport_def empty_trace_def)
  have rep: "ctl_nack_reply trace_env ?k 4 0 1 ms ?t = Inr ?t" for ms
    by (auto simp: ctl_nack_reply_def demo_stream_transport_def blank_transport_def scan_simps sent_matches_def
        empty_sent_def find_subscription_by_alias_def split: option.splits dest!: find_index_SomeD)
  have "\<exists>t'. control_step trace_env 0 3 ?t = Inr (More t')"
  proof -
    have n: "be_val (bslice 10 2 (nack_bytes 4 0 1 (replicate 257 5))) = 257"
      "length (nack_bytes 4 0 1 (replicate 257 5)) = 526" "nack_bytes 4 0 1 (replicate 257 5) ! 0 = 8"
      "nack_bytes 4 0 1 (replicate 257 5) ! Suc 0 = 4" "nack_bytes 4 0 1 (replicate 257 5) \<noteq> []"
      "bslice 2 4 (nack_bytes 4 0 1 (replicate 257 5)) = be_bytes 4 0"
      "bslice 6 4 (nack_bytes 4 0 1 (replicate 257 5)) = be_bytes 4 1"
      by (simp_all add: nack_bytes_def bslice_def length_concat sum_list_replicate)
    show ?thesis
      using kn au pend n rep
      by (simp add: control_step_def ctl_nack_msg_def Let_def be_val_be_bytes)
  qed
  then obtain t' where t': "control_step trace_env 0 3 ?t = Inr (More t')" ..
  have "drop 256 (replicate 257 (5 :: u16)) = [5]" by simp
  moreover have "be_bytes 2 (unat (5 :: u16)) = [0, 5]" by code_simp
  moreover have "pending trace_env 3 t' = concat (map (\<lambda>i. be_bytes 2 (unat i)) (drop 256 (replicate 257 (5 :: u16)))) @ []"
    by (rule long_nack_desynchronises [OF trace_stream_buffer kn au _ _ pend t']) simp_all
  ultimately have "pending trace_env 3 t' = [0, 5]" by (simp only: list.map concat.simps append_Nil2)
  with t' show ?thesis by blast
qed

end
