(* ===== verification/Publish.thy ===== *)
theory Publish
  imports Control
begin

text \<open>
  The public operations of \<^verbatim>\<open>transport_quicly.c\<close> that send: publishing an object (grouping of
  small data packets, reliable track streams, FEC-coded datagrams over the paths, the cache of sent
  objects), subscribing, keyframe requests, private data, authentication, and the readiness query. A
  connection pointer with no object stands for NULL.
\<close>

section \<open>Paths\<close>

definition find_path_index_by_link ::
  "('rs, 'rq, 'sc, 'w) env \<Rightarrow> qptr \<Rightarrow> ('rs, 'w) transport \<Rightarrow> nat \<Rightarrow> nat" where
  "find_path_index_by_link E q t link_idx =
     (if t_num_fds t \<le> link_idx then 0
      else case t_local_addrs t ! link_idx of
             SockIn ip port \<Rightarrow>
               (case find_index (\<lambda>p. case e_get_path_stats E q p (t_world t) of
                         Some st \<Rightarrow> (case qp_local st of SockIn ip' port' \<Rightarrow> ip' = ip | _ \<Rightarrow> False)
                       | None \<Rightarrow> False) [0..<8] of
                  Some p \<Rightarrow> p
                | None \<Rightarrow> 0)
           | _ \<Rightarrow> 0)"

definition main_conn :: "('rs, 'w) transport \<Rightarrow> cptr option" where
  "main_conn t = (if t_is_server t then (case t_conns t of [] \<Rightarrow> None | c # cs \<Rightarrow> Some c) else t_client_conn t)"

definition active_conns :: "('rs, 'w) transport \<Rightarrow> cptr list" where
  "active_conns t = (if t_is_server t then t_conns t
                     else case t_client_conn t of Some c \<Rightarrow> [c] | None \<Rightarrow> [])"

record track_delivery_profile =
  dp_reliable :: bool
  dp_fec_enabled :: bool

definition get_track_profile :: "moq_track_id \<Rightarrow> track_delivery_profile" where
  "get_track_profile track = \<lparr>dp_reliable = (tk_flags track AND MOQ_TRACK_FLAG_RELIABLE \<noteq> 0),
     dp_fec_enabled = (tk_flags track AND MOQ_TRACK_FLAG_FEC_ENABLED \<noteq> 0)\<rparr>"

section \<open>Sending on the control stream\<close>

text \<open>The control stream of a connection, when it is there and can still be written.\<close>

definition open_control ::
  "('rs, 'rq, 'sc, 'w) env \<Rightarrow> cptr \<Rightarrow> ('rs, 'w) transport \<Rightarrow> (conn \<times> sptr) option" where
  "open_control E c t =
     (case t_heap t c of
        None \<Rightarrow> None
      | Some k \<Rightarrow>
          (case c_stream k of
             None \<Rightarrow> None
           | Some s \<Rightarrow> if e_sendstate_is_open E s (t_world t) then Some (k, s) else None))"

definition transport_send_unicast ::
  "('rs, 'rq, 'sc, 'w) env \<Rightarrow> cptr \<Rightarrow> bytes \<Rightarrow> ('rs, 'w) transport \<Rightarrow> bool \<times> ('rs, 'w) transport" where
  "transport_send_unicast E c data t =
     (case open_control E c t of
        None \<Rightarrow> (False, t)
      | Some (k, s) \<Rightarrow>
          (True, upd_world (e_egress_write E s data)
                   (upd_world (e_egress_write E s (3 # be_bytes 4 (length data))) t)))"

definition transport_send_auth ::
  "('rs, 'rq, 'sc, 'w) env \<Rightarrow> cptr \<Rightarrow> bytes \<Rightarrow> ('rs, 'w) transport \<Rightarrow> bool \<times> ('rs, 'w) transport" where
  "transport_send_auth E c token t =
     (case open_control E c t of
        None \<Rightarrow> (False, t)
      | Some (k, s) \<Rightarrow>
          if 65535 < length token then (False, t)
          else
            let t1 = upd_world (e_egress_write E s (4 # be_bytes 2 (length token))) t in
            (True, if 0 < length token then upd_world (e_egress_write E s token) t1 else t1))"

definition transport_respond_auth ::
  "('rs, 'rq, 'sc, 'w) env \<Rightarrow> cptr \<Rightarrow> bool \<Rightarrow> ('rs, 'w) transport \<Rightarrow> bool \<times> ('rs, 'w) transport" where
  "transport_respond_auth E c success t =
     (case open_control E c t of
        None \<Rightarrow> (False, t)
      | Some (k, s) \<Rightarrow>
          let t1 = upd_world (e_egress_write E s [5, if success then 1 else 0]) t in
          (True, if success then put_conn c (k\<lparr>c_authenticated := True\<rparr>) t1
                 else upd_world (e_close E (c_quic k) ''authentication failed'') t1))"

definition transport_close_conn ::
  "('rs, 'rq, 'sc, 'w) env \<Rightarrow> cptr \<Rightarrow> ('rs, 'w) transport \<Rightarrow> ('rs, 'w) transport" where
  "transport_close_conn E c t =
     (case t_heap t c of Some k \<Rightarrow> upd_world (e_close E (c_quic k) []) t | None \<Rightarrow> t)"

text \<open>A track message: five bytes, then the name.\<close>

definition write_track_msg ::
  "('rs, 'rq, 'sc, 'w) env \<Rightarrow> sptr \<Rightarrow> u8 \<Rightarrow> u8 \<Rightarrow> moq_track_id \<Rightarrow> ('rs, 'w) transport \<Rightarrow> ('rs, 'w) transport" where
  "write_track_msg E s kind alias track t =
     (let name_len = (of_nat (length (tk_name track)) :: u8);
          t1 = upd_world (e_egress_write E s [kind, alias, ucast (tk_type track), tk_flags track, name_len]) t
      in if 0 < name_len
         then upd_world (e_egress_write E s (take (unat name_len) (tk_name track))) t1 else t1)"

definition subscribe_conn ::
  "('rs, 'rq, 'sc, 'w) env \<Rightarrow> moq_track_id \<Rightarrow> cptr \<Rightarrow> ('rs, 'w) transport \<Rightarrow> ('rs, 'w) transport" where
  "subscribe_conn E track c t =
     (case open_control E c t of
        None \<Rightarrow> t
      | Some (k, s) \<Rightarrow>
          let (alias, subs) = subscribe_alias (c_subscriptions k) track in
          write_track_msg E s 1 alias track (put_conn c (k\<lparr>c_subscriptions := subs\<rparr>) t))"

definition transport_subscribe ::
  "('rs, 'rq, 'sc, 'w) env \<Rightarrow> moq_track_id \<Rightarrow> ('rs, 'w) transport \<Rightarrow> bool \<times> ('rs, 'w) transport" where
  "transport_subscribe E track t =
     (if t_is_server t then (True, fold (subscribe_conn E track) (t_conns t) t)
      else case t_client_conn t of
             None \<Rightarrow> (False, t)
           | Some c \<Rightarrow>
               if open_control E c t = None then (False, t)
               else (True, subscribe_conn E track c t))"

definition transport_request_keyframe ::
  "('rs, 'rq, 'sc, 'w) env \<Rightarrow> moq_track_id \<Rightarrow> ('rs, 'w) transport \<Rightarrow> bool \<times> ('rs, 'w) transport" where
  "transport_request_keyframe E track t =
     (if t_is_server t then (False, t)
      else case t_client_conn t of
             None \<Rightarrow> (False, t)
           | Some c \<Rightarrow>
               (case open_control E c t of
                  None \<Rightarrow> (False, t)
                | Some (k, s) \<Rightarrow> (True, write_track_msg E s 6 0 track t)))"

section \<open>Reliable objects\<close>

text \<open>The stream of a subscription, opened and labelled with its alias when it is not usable.\<close>

definition track_stream ::
  "('rs, 'rq, 'sc, 'w) env \<Rightarrow> cptr \<Rightarrow> conn \<Rightarrow> nat \<Rightarrow> ('rs, 'w) transport \<Rightarrow>
   sptr option \<times> ('rs, 'w) transport" where
  "track_stream E c k i t =
     (let sub = c_subscriptions k ! i in
      if (case su_stream sub of Some s \<Rightarrow> e_sendstate_is_open E s (t_world t) | None \<Rightarrow> False)
      then (su_stream sub, t)
      else
        let (so, w) = e_open_stream E (c_quic k) (t_world t);
            t1 = t\<lparr>t_world := w\<rparr>
        in (case so of
              None \<Rightarrow>
                (None, put_conn c (k\<lparr>c_subscriptions :=
                         (c_subscriptions k)[i := sub\<lparr>su_stream := None\<rparr>]\<rparr>) t1)
            | Some s \<Rightarrow>
                let t2 = put_conn c (k\<lparr>c_subscriptions :=
                           (c_subscriptions k)[i := sub\<lparr>su_stream := Some s\<rparr>]\<rparr>) t1
                in (Some s, upd_world (e_egress_write E s [su_alias sub]) (on_stream_open E s t2))))"

definition publish_reliable_conn ::
  "('rs, 'rq, 'sc, 'w) env \<Rightarrow> moq_object \<Rightarrow> cptr \<Rightarrow> ('rs, 'w) transport \<Rightarrow> ('rs, 'w) transport" where
  "publish_reliable_conn E obj c t =
     (case t_heap t c of
        None \<Rightarrow> t
      | Some k \<Rightarrow>
          if e_is_closing E (c_quic k) (t_world t) then t
          else if t_is_server t \<and> \<not> is_subscribed (c_subscriptions k) (ob_track obj) then t
          else
            (case find_index (sub_matches (tk_type (ob_track obj)) (tk_name (ob_track obj)))
                    (c_subscriptions k) of
               Some i \<Rightarrow>
                 (case track_stream E c k i t of
                    (None, t1) \<Rightarrow> t1
                  | (Some s, t1) \<Rightarrow>
                      upd_world (e_egress_write E s (ob_data obj))
                        (upd_world (e_egress_write E s (be_bytes 4 (length (ob_data obj)))) t1))
             | None \<Rightarrow> snd (transport_send_unicast E c (ob_data obj) t)))"

section \<open>Datagram objects\<close>

definition publish_symbol_size :: "('rs, 'rq, 'sc, 'w) env \<Rightarrow> nat" where
  "publish_symbol_size E =
     (let sz = (if 80 < e_max_udp_payload E then e_max_udp_payload E - 80 else 1100)
      in if sz < 1000 then 1000 else sz)"

definition publish_data_symbols :: "nat \<Rightarrow> nat \<Rightarrow> nat" where
  "publish_data_symbols sz data_size =
     (let k = (data_size + sz - 1) div sz in if k = 0 then 1 else k)"

text \<open>Round-robin of unprotected symbols over the links: how many symbols each link carries.\<close>

definition spread_paths :: "nat \<Rightarrow> nat \<Rightarrow> nat list" where
  "spread_paths num_fds data_symbols =
     fold (\<lambda>s xs. let i = (if 0 < num_fds then s mod num_fds else 0) in xs[i := xs ! i + 1])
       [0..<data_symbols] (replicate TRANSPORT_MAX_PATHS 0)"

definition default_rates :: "('rs, 'rq, 'sc, 'w) env \<Rightarrow> nat \<Rightarrow> ('rs, 'w) transport \<Rightarrow> int \<times> int" where
  "default_rates E sz t =
     (let b0 = e_fp_from_int E 100; l0 = e_fp_from_milli E 50 in
      case main_conn t of
        None \<Rightarrow> (b0, l0)
      | Some c \<Rightarrow>
          (case t_heap t c of
             None \<Rightarrow> (b0, l0)
           | Some k \<Rightarrow>
               (case e_get_stats E (c_quic k) (t_world t) of
                  None \<Rightarrow> (b0, l0)
                | Some st \<Rightarrow>
                    let rtt0 = unat (qs_rtt_smoothed st);
                        l = (if 0 < rtt0 then e_fp_div E (e_fp_from_int E rtt0) (e_fp_from_int E 1000) else l0);
                        cw0 = unat (qs_cwnd st) div sz;
                        cw = (if cw0 = 0 then 1 else cw0);
                        rtt = (if 0 < rtt0 then rtt0 else 1);
                        b = e_fp_from_int E (cw * 1000 div rtt)
                    in (if b \<le> 0 then b0 else b, l))))"

definition publish_paths :: "('rs, 'rq, 'sc, 'w) env \<Rightarrow> nat \<Rightarrow> nat \<Rightarrow> u8 \<Rightarrow> ('rs, 'w) transport \<Rightarrow> path list" where
  "publish_paths E sz data_symbols priority t =
     (let (b, l) = default_rates E sz t;
          paths = map (\<lambda>i. let st = t_path_states t ! i in
                       \<lparr>pa_b = (if 0 < ps_b_ewma st then ps_b_ewma st else b),
                        pa_l = (if 0 < ps_l_ewma st then ps_l_ewma st else l),
                        pa_p = ps_p_ewma st, pa_q = ps_q_ewma st, pa_m = 0, pa_x = 0\<rparr>)
                    [0..<t_num_fds t];
          reliability = (if priority = 0 then 85 else if priority = 2 then 99 else 95)
      in e_pathflow_optimize E (t_num_fds t) data_symbols paths (e_fp_from_milli E 10000) reliability)"

text \<open>
  The plan for one object: the code, the number of parity symbols, the symbols per link. An object of
  one symbol goes round-robin over the links, by a counter that is static in the source (the daemon
  model carries it from transport to transport).
\<close>

definition publish_plan ::
  "('rs, 'rq, 'sc, 'w) env \<Rightarrow> moq_object \<Rightarrow> nat \<Rightarrow> nat \<Rightarrow> ('rs, 'w) transport \<Rightarrow>
   fec_type \<times> nat \<times> nat list \<times> ('rs, 'w) transport" where
  "publish_plan E obj sz data_symbols t =
     (let n = t_num_fds t in
      if \<not> dp_fec_enabled (get_track_profile (ob_track obj))
      then (FEC_REED_SOLOMON, 0, spread_paths n data_symbols, t)
      else if 1 < data_symbols then
        let ty = (if tk_type (ob_track obj) = MOQ_TRACK_DATA then FEC_RAPTORQ else FEC_REED_SOLOMON);
            paths = publish_paths E sz data_symbols (ob_priority obj) t;
            parity = sum_list (map (\<lambda>p. if pa_m p < pa_x p then pa_x p - pa_m p else 0) paths)
        in (ty, if parity = 0 then 1 else parity, map pa_x paths, t)
      else
        let i = (if 0 < n then t_rr_path t mod n else 0)
        in (FEC_REED_SOLOMON, 0, (replicate TRANSPORT_MAX_PATHS 0)[i := 1], t\<lparr>t_rr_path := t_rr_path t + 1\<rparr>))"

text \<open>Memory from the arena: zeroed inside the arena, not so when it falls back to the heap.\<close>

definition arena_get ::
  "('rs, 'rq, 'sc, 'w) env \<Rightarrow> nat \<Rightarrow> ('rs, 'w) transport \<Rightarrow> bytes option \<times> ('rs, 'w) transport" where
  "arena_get E n t =
     (case arena_alloc (e_malloc E) (t_arena t) (of_nat n) of
        (b, a) \<Rightarrow>
          (case b of
             NullBlock \<Rightarrow> None
           | HeapBlock p \<Rightarrow> Some (take n (e_uninit E n @ replicate n 0))
           | ArenaBlock off \<Rightarrow> Some (replicate n 0), t\<lparr>t_arena := a\<rparr>))"

text \<open>The data symbols: whole ones are references into the object, the last one is a padded copy.\<close>

fun publish_blocks ::
  "('rs, 'rq, 'sc, 'w) env \<Rightarrow> bytes \<Rightarrow> nat \<Rightarrow> nat list \<Rightarrow> ('rs, 'w) transport \<Rightarrow>
   fault + bytes list \<times> ('rs, 'w) transport" where
  "publish_blocks E data sz [] t = Inr ([], t)"
| "publish_blocks E data sz (i # is) t =
     (let off = i * sz;
          chunk = (if off < length data then length data - off else 0)
      in if sz \<le> chunk
         then bindf (publish_blocks E data sz is t) (\<lambda>(bl, t'). Inr (bslice off sz data # bl, t'))
         else case arena_get E sz t of
                (None, t1) \<Rightarrow> Inl NullDeref
              | (Some mem, t1) \<Rightarrow>
                  bindf (put_bytes 0 (bslice off chunk data) mem) (\<lambda>b.
                    bindf (publish_blocks E data sz is t1) (\<lambda>(bl, t'). Inr (b # bl, t'))))"

fun publish_parity ::
  "('rs, 'rq, 'sc, 'w) env \<Rightarrow> nat \<Rightarrow> nat \<Rightarrow> ('rs, 'w) transport \<Rightarrow>
   fault + bytes list \<times> ('rs, 'w) transport" where
  "publish_parity E sz 0 t = Inr ([], t)"
| "publish_parity E sz (Suc n) t =
     (case arena_get E sz t of
        (None, t1) \<Rightarrow> Inl NullDeref
      | (Some mem, t1) \<Rightarrow>
          bindf (publish_parity E sz n t1) (\<lambda>(bl, t'). Inr (mem # bl, t')))"

text \<open>The two pointer arrays come from the arena as well.\<close>

definition publish_arrays ::
  "('rs, 'rq, 'sc, 'w) env \<Rightarrow> nat \<Rightarrow> nat \<Rightarrow> ('rs, 'w) transport \<Rightarrow> fault + ('rs, 'w) transport" where
  "publish_arrays E k m t =
     (case arena_get E (k * 8) t of
        (None, t1) \<Rightarrow> Inl NullDeref
      | (Some _, t1) \<Rightarrow>
          (case arena_get E (m * 8) t1 of
             (None, t2) \<Rightarrow> if 0 < m then Inl NullDeref else Inr t2
           | (Some _, t2) \<Rightarrow> Inr t2))"

definition publish_encode ::
  "('rs, 'rq, 'sc, 'w) env \<Rightarrow> fec_type \<Rightarrow> nat \<Rightarrow> nat \<Rightarrow> nat \<Rightarrow> bytes list \<Rightarrow> bytes list \<Rightarrow>
   ('rs, 'w) transport \<Rightarrow> fault + bytes list \<times> bytes list \<times> ('rs, 'w) transport" where
  "publish_encode E ty k m sz data_blocks parity_blocks t =
     (if 0 < m then
        let ty' = (if ty = FEC_RAPTORQ \<and> k + m \<le> 255 then FEC_REED_SOLOMON else ty) in
        (case transport_get_fec E ty' k m sz t of
           (None, t1) \<Rightarrow> Inr (data_blocks, parity_blocks, t1)
         | (Some f, t1) \<Rightarrow>
             bindf (fec_encode (e_fec E) f data_blocks parity_blocks) (\<lambda>(d, p). Inr (d, p, t1)))
      else Inr (data_blocks, parity_blocks, t))"

text \<open>The link of symbol \<open>s\<close>: the links take their shares one after the other.\<close>

fun link_of_symbol :: "nat list \<Rightarrow> nat \<Rightarrow> nat \<Rightarrow> nat \<Rightarrow> nat" where
  "link_of_symbol [] i acc s = 0"
| "link_of_symbol (x # xs) i acc s = (if s < acc + x then i else link_of_symbol xs (Suc i) (acc + x) s)"

definition publish_header ::
  "moq_object \<Rightarrow> u8 \<Rightarrow> nat \<Rightarrow> nat \<Rightarrow> nat \<Rightarrow> nat \<Rightarrow> nat \<Rightarrow> u64 \<Rightarrow> fec_packet_header" where
  "publish_header obj alias s n k sz pid now = \<lparr>h_track_id = alias,
     h_is_keyframe = (if ob_is_keyframe obj then 1 else 0), h_priority = ob_priority obj,
     h_group_id = ucast (ob_group_id obj), h_object_id = ucast (ob_object_id obj),
     h_symbol_index = of_nat s, h_total_symbols = of_nat n, h_data_symbols = of_nat k,
     h_symbol_size = of_nat sz, h_original_size = of_nat (length (ob_data obj)),
     h_path_id = of_nat pid, h_send_time_ns = now\<rparr>"

fun publish_symbols ::
  "('rs, 'rq, 'sc, 'w) env \<Rightarrow> qptr \<Rightarrow> moq_object \<Rightarrow> u8 \<Rightarrow> nat \<Rightarrow> nat \<Rightarrow> nat \<Rightarrow> nat list \<Rightarrow> bytes list \<Rightarrow>
   nat list \<Rightarrow> ('rs, 'w) transport \<Rightarrow> fault + ('rs, 'w) transport" where
  "publish_symbols E q obj alias n k sz xs blocks [] t = Inr t"
| "publish_symbols E q obj alias n k sz xs blocks (s # ss) t =
     (case arena_get E (FEC_HEADER_SIZE + sz) t of
        (None, t1) \<Rightarrow> Inl NullDeref
      | (Some _, t1) \<Rightarrow>
          let link = link_of_symbol (take (t_num_fds t1) xs) 0 0 s;
              pid = find_path_index_by_link E q t1 link;
              (now, w) = e_time_ns E (t_world t1);
              dgram = fec_header_bytes (publish_header obj alias s n k sz pid now) @ take sz (blocks ! s)
          in publish_symbols E q obj alias n k sz xs blocks ss
               (t1\<lparr>t_world := e_send_datagram_path E q pid dgram w\<rparr>))"

definition publish_datagram_conn ::
  "('rs, 'rq, 'sc, 'w) env \<Rightarrow> moq_object \<Rightarrow> nat \<Rightarrow> nat \<Rightarrow> nat \<Rightarrow> nat list \<Rightarrow> bytes list \<Rightarrow>
   cptr \<Rightarrow> ('rs, 'w) transport \<Rightarrow> fault + ('rs, 'w) transport" where
  "publish_datagram_conn E obj n k sz xs blocks c t =
     (case t_heap t c of
        None \<Rightarrow> Inr t
      | Some kn \<Rightarrow>
          if e_is_closing E (c_quic kn) (t_world t) then Inr t
          else if t_is_server t \<and> \<not> is_subscribed (c_subscriptions kn) (ob_track obj) then Inr t
          else
            (case find_alias_by_track (c_subscriptions kn) (ob_track obj) of
               None \<Rightarrow> Inr t
             | Some alias \<Rightarrow> publish_symbols E (c_quic kn) obj alias n k sz xs blocks [0..<n] t))"

fun publish_datagram_conns ::
  "('rs, 'rq, 'sc, 'w) env \<Rightarrow> moq_object \<Rightarrow> nat \<Rightarrow> nat \<Rightarrow> nat \<Rightarrow> nat list \<Rightarrow> bytes list \<Rightarrow>
   cptr list \<Rightarrow> ('rs, 'w) transport \<Rightarrow> fault + ('rs, 'w) transport" where
  "publish_datagram_conns E obj n k sz xs blocks [] t = Inr t"
| "publish_datagram_conns E obj n k sz xs blocks (c # cs) t =
     bindf (publish_datagram_conn E obj n k sz xs blocks c t)
       (publish_datagram_conns E obj n k sz xs blocks cs)"

text \<open>The ring of sent data objects that retransmission requests are answered from.\<close>

definition remember_sent ::
  "('rs, 'rq, 'sc, 'w) env \<Rightarrow> moq_object \<Rightarrow> nat \<Rightarrow> nat \<Rightarrow> nat \<Rightarrow> ('rs, 'w) transport \<Rightarrow> ('rs, 'w) transport" where
  "remember_sent E obj n k sz t =
     (if tk_type (ob_track obj) = MOQ_TRACK_DATA then
        t\<lparr>t_sent_cache := (t_sent_cache t)[t_sent_cache_index t :=
             \<lparr>se_track = ob_track obj, se_group_id = ucast (ob_group_id obj),
              se_object_id = ucast (ob_object_id obj),
              se_data = (if e_alloc E (length (ob_data obj)) then Some (ob_data obj) else None),
              se_size = length (ob_data obj), se_priority = ob_priority obj,
              se_is_keyframe = ob_is_keyframe obj, se_total_symbols = of_nat n,
              se_data_symbols = of_nat k, se_symbol_size = of_nat sz\<rparr>],
          t_sent_cache_index := (t_sent_cache_index t + 1) mod SENT_CACHE_SIZE\<rparr>
      else t)"

definition publish_datagrams ::
  "('rs, 'rq, 'sc, 'w) env \<Rightarrow> moq_object \<Rightarrow> ('rs, 'w) transport \<Rightarrow> fault + ('rs, 'w) transport" where
  "publish_datagrams E obj t =
     (let sz = publish_symbol_size E;
          k = publish_data_symbols sz (length (ob_data obj));
          (ty, m, xs, t1) = publish_plan E obj sz k t
      in bindf (publish_arrays E k m t1) (\<lambda>t2.
         bindf (publish_blocks E (ob_data obj) sz [0..<k] t2) (\<lambda>(data_blocks, t3).
         bindf (publish_parity E sz m t3) (\<lambda>(parity_blocks, t4).
         bindf (publish_encode E ty k m sz data_blocks parity_blocks t4) (\<lambda>(d, p, t5).
         bindf (publish_datagram_conns E obj (k + m) k sz xs (d @ p) (active_conns t5) t5) (\<lambda>t6.
           let t7 = remember_sent E obj (k + m) k sz t6
           in Inr (t7\<lparr>t_arena := snd (arena_reset (t_arena t7))\<rparr>)))))))"

definition publish_direct ::
  "('rs, 'rq, 'sc, 'w) env \<Rightarrow> moq_object \<Rightarrow> ('rs, 'w) transport \<Rightarrow> fault + ('rs, 'w) transport" where
  "publish_direct E obj t =
     (if dp_reliable (get_track_profile (ob_track obj))
      then Inr (fold (publish_reliable_conn E obj) (active_conns t) t)
      else publish_datagrams E obj t)"

section \<open>Grouping\<close>

definition sub_wants_fec :: "moq_track_id \<Rightarrow> track_subscription list \<Rightarrow> bool" where
  "sub_wants_fec track subs \<longleftrightarrow>
     (\<exists>s \<in> set subs. sub_matches (tk_type track) (tk_name track) s \<and>
        dp_fec_enabled (get_track_profile (su_track s)))"

definition publish_grouped :: "('rs, 'rq, 'sc, 'w) env \<Rightarrow> moq_object \<Rightarrow> ('rs, 'w) transport \<Rightarrow> bool" where
  "publish_grouped E obj t \<longleftrightarrow>
     tk_type (ob_track obj) = MOQ_TRACK_DATA \<and>
     (if t_is_server t then
        (\<exists>c \<in> set (t_conns t). case t_heap t c of
           None \<Rightarrow> False
         | Some k \<Rightarrow> \<not> e_is_closing E (c_quic k) (t_world t) \<and> sub_wants_fec (ob_track obj) (c_subscriptions k))
      else
        (case t_client_conn t of
           None \<Rightarrow> False
         | Some c \<Rightarrow> (case t_heap t c of None \<Rightarrow> False | Some k \<Rightarrow> sub_wants_fec (ob_track obj) (c_subscriptions k))))"

function grow_cap :: "nat \<Rightarrow> nat \<Rightarrow> nat" where
  "grow_cap cap needed = (if needed \<le> cap \<or> cap = 0 then cap else grow_cap (cap * 2) needed)"
  by pat_completeness auto
termination
  by (relation "measure (\<lambda>(cap, needed). needed - cap)") auto

declare grow_cap.simps [simp del]

text \<open>The packet goes into the buffer behind a two-byte length; \<open>False\<close> if the buffer cannot grow.\<close>

definition group_packet ::
  "('rs, 'rq, 'sc, 'w) env \<Rightarrow> moq_object \<Rightarrow> ('rs, 'w) transport \<Rightarrow> bool \<times> ('rs, 'w) transport" where
  "group_packet E obj t =
     (let (now, w) = e_time_ms E (t_world t);
          t1 = t\<lparr>t_world := w\<rparr>;
          t2 = (if t_fec_buf t1 = []
                then t1\<lparr>t_fec_first_pkt_time := now, t_fec_track_id := ob_track obj,
                        t_fec_priority := ob_priority obj\<rparr>
                else t1);
          needed = length (t_fec_buf t2) + 2 + length (ob_data obj);
          new_cap = (if t_fec_buf_cap t2 < needed
                     then grow_cap (if t_fec_buf_cap t2 = 0 then 4096 else t_fec_buf_cap t2 * 2) needed
                     else t_fec_buf_cap t2)
      in if t_fec_buf_cap t2 < needed \<and> \<not> e_alloc E new_cap then (False, t2)
         else (True, t2\<lparr>t_fec_buf_cap := new_cap,
                        t_fec_buf := t_fec_buf t2 @ be_bytes 2 (length (ob_data obj)) @ ob_data obj,
                        t_fec_pkt_count := t_fec_pkt_count t2 + 1\<rparr>))"

text \<open>
  Flushing publishes the buffer as one object. The flag \<^verbatim>\<open>fec_in_flush\<close> only keeps that inner
  call from grouping again, so the inner call is \<open>publish_direct\<close>.
\<close>

definition flush_fec_buffer ::
  "('rs, 'rq, 'sc, 'w) env \<Rightarrow> ('rs, 'w) transport \<Rightarrow> fault + ('rs, 'w) transport" where
  "flush_fec_buffer E t =
     (if t_fec_buf t = [] then Inr t
      else
        let obj = \<lparr>ob_track = t_fec_track_id t, ob_group_id = 0, ob_object_id = ucast (t_fec_object_id t),
                   ob_data = t_fec_buf t, ob_is_keyframe = False, ob_priority = t_fec_priority t\<rparr>
        in bindf (publish_direct E obj (t\<lparr>t_fec_object_id := t_fec_object_id t + 1\<rparr>)) (\<lambda>t1.
             Inr (t1\<lparr>t_fec_buf := [], t_fec_first_pkt_time := 0, t_fec_pkt_count := 0\<rparr>)))"

definition transport_publish ::
  "('rs, 'rq, 'sc, 'w) env \<Rightarrow> moq_object \<Rightarrow> ('rs, 'w) transport \<Rightarrow> fault + bool \<times> ('rs, 'w) transport" where
  "transport_publish E obj t =
     (if publish_grouped E obj t then
        (case group_packet E obj t of
           (False, t1) \<Rightarrow> Inr (False, t1)
         | (True, t1) \<Rightarrow>
             if 4 \<le> t_fec_pkt_count t1 \<or> 4000 \<le> length (t_fec_buf t1)
             then bindf (flush_fec_buffer E t1) (\<lambda>t2. Inr (True, t2))
             else Inr (True, t1))
      else bindf (publish_direct E obj t) (\<lambda>t1. Inr (True, t1)))"

section \<open>Queries\<close>

definition transport_get_estimated_bandwidth ::
  "('rs, 'rq, 'sc, 'w) env \<Rightarrow> ('rs, 'w) transport \<Rightarrow> u64" where
  "transport_get_estimated_bandwidth E t =
     (case main_conn t of
        None \<Rightarrow> 0
      | Some c \<Rightarrow>
          (case t_heap t c of
             None \<Rightarrow> 0
           | Some k \<Rightarrow>
               (case e_get_stats E (c_quic k) (t_world t) of Some st \<Rightarrow> qs_delivery_rate st | None \<Rightarrow> 0)))"

definition conn_track_ready ::
  "('rs, 'rq, 'sc, 'w) env \<Rightarrow> moq_track_id \<Rightarrow> ('rs, 'w) transport \<Rightarrow> cptr \<Rightarrow> bool" where
  "conn_track_ready E track t c \<longleftrightarrow>
     (case t_heap t c of
        None \<Rightarrow> True
      | Some k \<Rightarrow>
          if e_is_closing E (c_quic k) (t_world t) then True
          else if t_is_server t \<and> \<not> is_subscribed (c_subscriptions k) track then True
          else if dp_reliable (get_track_profile track) then
            (case find_index (sub_matches (tk_type track) (tk_name track)) (c_subscriptions k) of
               None \<Rightarrow> True
             | Some i \<Rightarrow>
                 (case su_stream (c_subscriptions k ! i) of
                    None \<Rightarrow> True
                  | Some s \<Rightarrow> e_egress_vecs E s (t_world t) \<le> 256))
          else
            (case e_get_path_stats E (c_quic k) 0 (t_world t) of
               None \<Rightarrow> True
             | Some st \<Rightarrow> qp_bytes_in_flight st < qp_cwnd st * 2))"

definition transport_is_track_ready ::
  "('rs, 'rq, 'sc, 'w) env \<Rightarrow> moq_track_id \<Rightarrow> ('rs, 'w) transport \<Rightarrow> bool" where
  "transport_is_track_ready E track t \<longleftrightarrow> (\<forall>c \<in> set (active_conns t). conn_track_ready E track t c)"

section \<open>What publishing leaves alone\<close>

text \<open>Publishing a finished object does not touch the grouping buffer.\<close>

definition same_group :: "('rs, 'w) transport \<Rightarrow> ('rs, 'w) transport \<Rightarrow> bool" where
  "same_group t t' \<longleftrightarrow>
     t_fec_buf t' = t_fec_buf t \<and> t_fec_buf_cap t' = t_fec_buf_cap t \<and>
     t_fec_first_pkt_time t' = t_fec_first_pkt_time t \<and> t_fec_track_id t' = t_fec_track_id t \<and>
     t_fec_object_id t' = t_fec_object_id t \<and> t_fec_pkt_count t' = t_fec_pkt_count t \<and>
     t_fec_priority t' = t_fec_priority t"

text \<open>Sending datagrams does not touch connections, streams and links either.\<close>

definition same_conns :: "('rs, 'w) transport \<Rightarrow> ('rs, 'w) transport \<Rightarrow> bool" where
  "same_conns t t' \<longleftrightarrow>
     t_is_server t' = t_is_server t \<and> t_conns t' = t_conns t \<and> t_client_conn t' = t_client_conn t \<and>
     t_heap t' = t_heap t \<and> t_streams t' = t_streams t \<and> t_fds t' = t_fds t \<and> t_num_fds t' = t_num_fds t \<and>
     t_local_addrs t' = t_local_addrs t \<and> same_group t t'"

lemma same_group_refl [simp]: "same_group t t"
  by (simp add: same_group_def)

lemma same_group_trans [trans]: "same_group t t' \<Longrightarrow> same_group t' t'' \<Longrightarrow> same_group t t''"
  by (simp add: same_group_def)

lemma same_conns_refl [simp]: "same_conns t t"
  by (simp add: same_conns_def)

lemma same_conns_trans [trans]: "same_conns t t' \<Longrightarrow> same_conns t' t'' \<Longrightarrow> same_conns t t''"
  by (auto simp: same_conns_def intro: same_group_trans)

lemma same_conns_io [simp]:
  "same_conns t (t\<lparr>t_world := w\<rparr>)" "same_conns t (t\<lparr>t_arena := a\<rparr>)" "same_conns t (t\<lparr>t_rr_path := r\<rparr>)"
  "same_conns t (t\<lparr>t_world := w, t_fec_cache := fc\<rparr>)"
  "same_conns t (t\<lparr>t_sent_cache := sc, t_sent_cache_index := i\<rparr>)"
  by (simp_all add: same_conns_def same_group_def)

lemma arena_get_frame: "same_conns t (snd (arena_get E n t))"
  by (simp add: arena_get_def split: prod.splits)

lemma transport_get_fec_conns: "same_conns t (snd (transport_get_fec E ty k m sz t))"
  by (simp add: transport_get_fec_def Let_def split: prod.splits)

lemma publish_plan_frame: "same_conns t (snd (snd (snd (publish_plan E obj sz k t))))"
  by (simp add: publish_plan_def Let_def)

lemma publish_arrays_frame: "publish_arrays E k m t = Inr t' \<Longrightarrow> same_conns t t'"
  using arena_get_frame [of t E "k * 8"] arena_get_frame [of "snd (arena_get E (k * 8) t)" E "m * 8"]
  by (auto simp: publish_arrays_def split: prod.splits option.splits if_splits intro: same_conns_trans)

lemma publish_blocks_frame: "publish_blocks E data sz is t = Inr (bl, t') \<Longrightarrow> same_conns t t'"
proof (induction "is" arbitrary: t bl)
  case (Cons i "is")
  then show ?case
    using arena_get_frame [of t E sz]
    by (auto simp: Let_def bindf_Inr_iff split: prod.splits option.splits if_splits intro: same_conns_trans)
qed simp

lemma publish_parity_frame: "publish_parity E sz n t = Inr (bl, t') \<Longrightarrow> same_conns t t'"
proof (induction n arbitrary: t bl)
  case (Suc n)
  then show ?case
    using arena_get_frame [of t E sz]
    by (auto simp: bindf_Inr_iff split: prod.splits option.splits intro: same_conns_trans)
qed simp

lemma publish_encode_frame: "publish_encode E ty k m sz d p t = Inr (d', p', t') \<Longrightarrow> same_conns t t'"
  using transport_get_fec_conns [of t E "if ty = FEC_RAPTORQ \<and> k + m \<le> 255 then FEC_REED_SOLOMON else ty" k m sz]
  by (auto simp: publish_encode_def Let_def bindf_Inr_iff split: prod.splits option.splits if_splits)

lemma publish_symbols_frame:
  "publish_symbols E q obj al n k sz xs blocks ss t = Inr t' \<Longrightarrow> same_conns t t'"
proof (induction ss arbitrary: t)
  case (Cons s ss)
  then show ?case
    using arena_get_frame [of t E "FEC_HEADER_SIZE + sz"]
    by (auto simp: Let_def case_prod_beta split: prod.splits option.splits
        intro: same_conns_trans [OF _ same_conns_trans [OF same_conns_io(1)]])
qed simp

lemma publish_datagram_conns_frame:
  "publish_datagram_conns E obj n k sz xs blocks cs t = Inr t' \<Longrightarrow> same_conns t t'"
proof (induction cs arbitrary: t)
  case (Cons c cs)
  have "same_conns t t1" if "publish_datagram_conn E obj n k sz xs blocks c t = Inr t1" for t1
    using that
    by (auto simp: publish_datagram_conn_def split: option.splits if_splits intro: publish_symbols_frame)
  with Cons show ?case
    by (auto simp: bindf_Inr_iff intro: same_conns_trans)
qed simp

lemma remember_sent_frame: "same_conns t (remember_sent E obj n k sz t)"
  by (simp add: remember_sent_def)

lemma publish_datagrams_frame:
  assumes "publish_datagrams E obj t = Inr t'"
  shows "same_conns t t'"
proof -
  let ?sz = "publish_symbol_size E"
  let ?k = "publish_data_symbols ?sz (length (ob_data obj))"
  obtain ty m xs t1 where plan: "publish_plan E obj ?sz ?k t = (ty, m, xs, t1)" by (metis prod_cases4)
  from assms obtain t2 dbl t3 pbl t4 d p t5 t6 where
    s1: "publish_arrays E ?k m t1 = Inr t2" and s2: "publish_blocks E (ob_data obj) ?sz [0..<?k] t2 = Inr (dbl, t3)"
    and s3: "publish_parity E ?sz m t3 = Inr (pbl, t4)"
    and s4: "publish_encode E ty ?k m ?sz dbl pbl t4 = Inr (d, p, t5)"
    and s5: "publish_datagram_conns E obj (?k + m) ?k ?sz xs (d @ p) (active_conns t5) t5 = Inr t6"
    and t': "t' = (remember_sent E obj (?k + m) ?k ?sz t6)\<lparr>t_arena :=
      snd (arena_reset (t_arena (remember_sent E obj (?k + m) ?k ?sz t6)))\<rparr>"
    by (auto simp: publish_datagrams_def Let_def plan bindf_Inr_iff)
  have "same_conns t t1" using publish_plan_frame [of t E obj ?sz ?k] by (simp add: plan)
  also note publish_arrays_frame [OF s1]
  also note publish_blocks_frame [OF s2]
  also note publish_parity_frame [OF s3]
  also note publish_encode_frame [OF s4]
  also note publish_datagram_conns_frame [OF s5]
  also note remember_sent_frame [of t6 E obj "?k + m" ?k ?sz]
  also have "same_conns (remember_sent E obj (?k + m) ?k ?sz t6) t'"
    by (simp add: t')
  finally show ?thesis .
qed

lemma same_group_io [simp]:
  "same_group t (t\<lparr>t_world := w\<rparr>)" "same_group t (upd_world f t)" "same_group t (put_conn c k t)"
  "same_group t (on_stream_open E s t)"
  by (simp_all add: same_group_def upd_world_def put_conn_def on_stream_open_def Let_def split: option.splits)

lemma publish_reliable_conn_frame: "same_group t (publish_reliable_conn E obj c t)"
proof -
  have uni: "same_group t (snd (transport_send_unicast E c data t))" for data
    by (auto simp: transport_send_unicast_def split: option.splits intro: same_group_trans [OF same_group_io(2) same_group_io(2)])
  have str: "same_group t (snd (track_stream E c k i t))" for k i
    by (auto simp: track_stream_def Let_def split: prod.splits option.splits
        intro!: same_group_trans [OF _ same_group_io(2)] same_group_trans [OF _ same_group_io(4)]
          same_group_trans [OF _ same_group_io(3)])
  show ?thesis
    using str
    by (auto simp: publish_reliable_conn_def uni split: option.splits prod.splits
        intro!: same_group_trans [OF _ same_group_io(2)]) (metis snd_conv)+
qed

lemma publish_direct_frame:
  assumes "publish_direct E obj t = Inr t'"
  shows "same_group t t'"
proof (cases "dp_reliable (get_track_profile (ob_track obj))")
  case True
  have "same_group t (fold (publish_reliable_conn E obj) cs t)" for cs
    by (induction cs arbitrary: t) (auto intro: same_group_trans publish_reliable_conn_frame)
  with True assms show ?thesis by (auto simp: publish_direct_def)
next
  case False
  with assms publish_datagrams_frame show ?thesis
    by (auto simp: publish_direct_def same_conns_def)
qed

text \<open>A data track with error correction, for examples.\<close>

definition demo_data_track :: moq_track_id where
  "demo_data_track = \<lparr>tk_type = MOQ_TRACK_DATA, tk_flags = MOQ_TRACK_FLAG_FEC_ENABLED, tk_name = [109]\<rparr>"

end
