(* ===== verification/Daemon.thy ===== *)
theory Daemon
  imports Publish
begin

text \<open>
  The mesh daemon (\<^verbatim>\<open>src/daemon/main.c\<close>): its transport event handler (authentication with the
  shared token, subscription to the configured tracks, forwarding of received objects to the local
  data pipe after splitting grouped packets), its local data handler and its readiness query. The
  data pipe is reached through the operation \<open>dc_pipe_send\<close> on the world (\<^verbatim>\<open>data_uds_send\<close>).
\<close>

section \<open>Configuration\<close>

record 'w daemon_ctx =
  dc_subscribe_tracks :: "cstr list"
  dc_use_reliable :: bool
  dc_has_pipe :: bool
  dc_pipe_send :: "moq_track_id \<Rightarrow> bytes \<Rightarrow> u8 \<Rightarrow> 'w \<Rightarrow> 'w"

text \<open>The shared token \<^verbatim>\<open>secret_token_123\<close>.\<close>

definition daemon_token :: bytes where
  "daemon_token = [115, 101, 99, 114, 101, 116, 95, 116, 111, 107, 101, 110, 95, 49, 50, 51]"

definition daemon_track :: "'w daemon_ctx \<Rightarrow> cstr \<Rightarrow> moq_track_id" where
  "daemon_track D name = \<lparr>tk_type = MOQ_TRACK_DATA,
     tk_flags = (if dc_use_reliable D then MOQ_TRACK_FLAG_RELIABLE else MOQ_TRACK_FLAG_FEC_ENABLED),
     tk_name = cstr_copy 64 name\<rparr>"

definition subscribe_to_tracks ::
  "('rs, 'rq, 'sc, 'w) env \<Rightarrow> 'w daemon_ctx \<Rightarrow> ('rs, 'w) transport \<Rightarrow> ('rs, 'w) transport" where
  "subscribe_to_tracks E D t =
     fold (\<lambda>name t. snd (transport_subscribe E (daemon_track D name) t)) (dc_subscribe_tracks D) t"

section \<open>Events\<close>

text \<open>Splitting a grouped object into its packets; a cut-off last packet is dropped.\<close>

function deaggregate :: "bytes \<Rightarrow> bytes list" where
  "deaggregate ptr =
     (if length ptr < 2 then []
      else
        let pkt_len = be_val (take 2 ptr) in
        if length ptr < 2 + pkt_len then []
        else bslice 2 pkt_len ptr # deaggregate (drop (2 + pkt_len) ptr))"
  by pat_completeness auto
termination
  by (relation "measure length") auto

declare deaggregate.simps [simp del]

definition forward_object ::
  "'w daemon_ctx \<Rightarrow> moq_track_id \<Rightarrow> moq_object \<Rightarrow> ('rs, 'w) transport \<Rightarrow> ('rs, 'w) transport" where
  "forward_object D track obj t =
     (if dc_has_pipe D \<and> tk_type track = MOQ_TRACK_DATA \<and>
         tk_flags track AND MOQ_TRACK_FLAG_FEC_ENABLED \<noteq> 0
      then fold (\<lambda>p t. upd_world (dc_pipe_send D track p (ob_priority obj)) t) (deaggregate (ob_data obj)) t
      else if dc_has_pipe D
      then upd_world (dc_pipe_send D track (ob_data obj) (ob_priority obj)) t
      else t)"

definition on_transport_event ::
  "('rs, 'rq, 'sc, 'w) env \<Rightarrow> 'w daemon_ctx \<Rightarrow> bool \<Rightarrow> transport_event \<Rightarrow> cptr \<Rightarrow>
   ('rs, 'w) transport \<Rightarrow> ('rs, 'w) transport" where
  "on_transport_event E D is_server ev c t =
     (case ev of
        Connected \<Rightarrow> if \<not> is_server then snd (transport_send_auth E c daemon_token t) else t
      | Auth token \<Rightarrow>
          if is_server then
            let success = (token = daemon_token);
                t1 = (if success then subscribe_to_tracks E D t else t)
            in snd (transport_respond_auth E c success t1)
          else t
      | AuthComplete success \<Rightarrow> if success then subscribe_to_tracks E D t else t
      | ObjectReceived track obj \<Rightarrow> forward_object D track obj t
      | _ \<Rightarrow> t)"

section \<open>Local data\<close>

text \<open>
  A packet from the pipe is published on every transport, under the daemon's running number. The
  transports of a process share one outside world, which is carried from one to the next, and so is the
  round-robin counter \<^verbatim>\<open>rr_path\<close>, one static variable for the process.
\<close>

record ('rs, 'w) daemon =
  dm_object_id :: u32
  dm_rr_path :: nat
  dm_world :: 'w
  dm_transports :: "('rs, 'w) transport list"

definition enter :: "nat \<Rightarrow> 'w \<Rightarrow> ('rs, 'w) transport \<Rightarrow> ('rs, 'w) transport" where
  "enter rr w t = t\<lparr>t_rr_path := rr, t_world := w\<rparr>"

fun publish_all ::
  "('rs, 'rq, 'sc, 'w) env \<Rightarrow> moq_object \<Rightarrow> nat \<Rightarrow> 'w \<Rightarrow> ('rs, 'w) transport list \<Rightarrow>
   fault + nat \<times> 'w \<times> ('rs, 'w) transport list" where
  "publish_all E obj rr w [] = Inr (rr, w, [])"
| "publish_all E obj rr w (t # ts) =
     bindf (transport_publish E obj (enter rr w t)) (\<lambda>(ok, t').
       bindf (publish_all E obj (t_rr_path t') (t_world t') ts) (\<lambda>(rr', w', ts'). Inr (rr', w', t' # ts')))"

definition on_data_packet ::
  "('rs, 'rq, 'sc, 'w) env \<Rightarrow> moq_track_id \<Rightarrow> bytes \<Rightarrow> u8 \<Rightarrow> ('rs, 'w) daemon \<Rightarrow> fault + ('rs, 'w) daemon" where
  "on_data_packet E track buf priority ctx =
     (let obj = \<lparr>ob_track = track, ob_group_id = 0, ob_object_id = ucast (dm_object_id ctx), ob_data = buf,
                 ob_is_keyframe = False, ob_priority = priority\<rparr>
      in bindf (publish_all E obj (dm_rr_path ctx) (dm_world ctx) (dm_transports ctx)) (\<lambda>(rr, w, ts).
           Inr (ctx\<lparr>dm_object_id := dm_object_id ctx + 1, dm_rr_path := rr, dm_world := w, dm_transports := ts\<rparr>)))"

definition on_is_track_ready ::
  "('rs, 'rq, 'sc, 'w) env \<Rightarrow> moq_track_id \<Rightarrow> ('rs, 'w) daemon \<Rightarrow> bool" where
  "on_is_track_ready E track ctx \<longleftrightarrow>
     (\<forall>t \<in> set (dm_transports ctx). transport_is_track_ready E track (enter (dm_rr_path ctx) (dm_world ctx) t))"

section \<open>Grouping and splitting\<close>

text \<open>One packet in the grouping buffer.\<close>

definition group_frame :: "bytes \<Rightarrow> bytes" where
  "group_frame p = be_bytes 2 (length p) @ p"

lemma deaggregate_frame:
  assumes "length p < 65536"
  shows "deaggregate (group_frame p @ rest) = p # deaggregate rest"
proof -
  have n: "be_val (take 2 (group_frame p @ rest)) = length p"
    using assms by (simp add: group_frame_def be_val_be_bytes)
  show ?thesis
    by (subst deaggregate.simps) (simp only: n Let_def, simp add: group_frame_def bslice_def)
qed

lemma deaggregate_nil [simp]: "deaggregate [] = []"
  by (subst deaggregate.simps) simp

lemma deaggregate_frames:
  "\<forall>p \<in> set ps. length p < 65536 \<Longrightarrow> deaggregate (concat (map group_frame ps)) = ps"
  by (induction ps) (simp_all add: deaggregate_frame)

lemma grow_cap_enough: "0 < cap \<Longrightarrow> needed \<le> grow_cap cap needed"
  by (induction cap needed rule: grow_cap.induct) (subst grow_cap.simps, auto)

lemma group_packet_appends:
  assumes "group_packet E obj t = (True, t')"
  shows "t_fec_buf t' = t_fec_buf t @ group_frame (ob_data obj)"
    and "t_fec_pkt_count t' = t_fec_pkt_count t + 1"
    and "t_fec_buf t = [] \<Longrightarrow> t_fec_track_id t' = ob_track obj \<and> t_fec_priority t' = ob_priority obj"
    and "t_fec_buf t \<noteq> [] \<Longrightarrow> t_fec_track_id t' = t_fec_track_id t \<and> t_fec_priority t' = t_fec_priority t"
  using assms by (auto simp: group_packet_def group_frame_def Let_def case_prod_beta split: if_splits)

lemma group_packet_room:
  assumes "group_packet E obj t = (True, t')" "length (t_fec_buf t) \<le> t_fec_buf_cap t"
  shows "length (t_fec_buf t') \<le> t_fec_buf_cap t'"
  using assms grow_cap_enough [of 4096] grow_cap_enough [of "t_fec_buf_cap t * 2"]
  by (auto simp: group_packet_def Let_def case_prod_beta split: if_splits)

lemma group_packet_ok: "\<forall>n. e_alloc E n \<Longrightarrow> \<exists>t'. group_packet E obj t = (True, t')"
  by (auto simp: group_packet_def Let_def case_prod_beta)

text \<open>
  The grouping buffer as a queue of packets: the buffer holds the frames of \<open>ps\<close> within its
  capacity, and the counter counts them. The queue is sent when it has four packets or 4000 bytes.
\<close>

definition group_inv :: "bytes list \<Rightarrow> ('rs, 'w) transport \<Rightarrow> bool" where
  "group_inv ps t \<longleftrightarrow>
     t_fec_buf t = concat (map group_frame ps) \<and> t_fec_pkt_count t = of_nat (length ps) \<and>
     length ps < 4 \<and> (\<forall>p \<in> set ps. length p < 65536) \<and> length (t_fec_buf t) \<le> t_fec_buf_cap t"

definition group_due :: "bytes list \<Rightarrow> bool" where
  "group_due ps \<longleftrightarrow> 4 \<le> length ps \<or> 4000 \<le> length (concat (map group_frame ps))"

lemma group_packet_step:
  assumes inv: "group_inv ps t" and alloc: "\<forall>n. e_alloc E n" and len: "length (ob_data obj) < 65536"
  obtains t1 where "group_packet E obj t = (True, t1)"
    "t_fec_buf t1 = concat (map group_frame (ps @ [ob_data obj]))"
    "4 \<le> t_fec_pkt_count t1 \<longleftrightarrow> 4 \<le> length (ps @ [ob_data obj])"
    "\<not> group_due (ps @ [ob_data obj]) \<Longrightarrow> group_inv (ps @ [ob_data obj]) t1"
    "length (t_fec_buf t1) \<le> t_fec_buf_cap t1" "t_world t1 = snd (e_time_ms E (t_world t))"
    "t_fec_track_id t1 = (if ps = [] then ob_track obj else t_fec_track_id t)"
    "t_fec_object_id t1 = t_fec_object_id t"
proof -
  obtain t1 where t1: "group_packet E obj t = (True, t1)" using group_packet_ok [OF alloc] by blast
  note g = group_packet_appends [OF t1]
  have buf: "t_fec_buf t1 = concat (map group_frame (ps @ [ob_data obj]))" and room: "length (t_fec_buf t1) \<le> t_fec_buf_cap t1"
    using inv g(1) group_packet_room [OF t1] by (auto simp: group_inv_def)
  have cnt: "t_fec_pkt_count t1 = of_nat (length (ps @ [ob_data obj]))"
    using inv g(2) by (simp add: group_inv_def)
  then have n: "unat (t_fec_pkt_count t1) = length (ps @ [ob_data obj])"
    using inv by (subst cnt, subst unat_of_nat) (simp add: group_inv_def)
  have empty: "t_fec_buf t = [] \<longleftrightarrow> ps = []"
    using inv by (cases ps) (auto simp: group_inv_def group_frame_def be_bytes_eq_Nil)
  have w: "t_world t1 = snd (e_time_ms E (t_world t))" and id: "t_fec_object_id t1 = t_fec_object_id t"
    using t1 by (auto simp: group_packet_def Let_def case_prod_beta split: if_splits)
  show ?thesis
  proof (rule that [OF t1 buf _ _ room w _ id])
    show "4 \<le> t_fec_pkt_count t1 \<longleftrightarrow> 4 \<le> length (ps @ [ob_data obj])"
      using n by (simp add: word_le_nat_alt)
    show "group_inv (ps @ [ob_data obj]) t1" if "\<not> group_due (ps @ [ob_data obj])"
      using that inv buf cnt room len by (auto simp: group_inv_def group_due_def)
    show "t_fec_track_id t1 = (if ps = [] then ob_track obj else t_fec_track_id t)"
      using g(3,4) empty by auto
  qed
qed

text \<open>
  C4. Grouping loses, repeats and reorders no packet. With the packets \<open>ps\<close> waiting in the grouping
  buffer, publishing one more packet under 64 KiB on a grouped track either keeps it waiting behind
  them, sending nothing, or hands to the sender one object that the receiving daemon splits into
  exactly the waiting packets and the new one, in order, under the next
  group number, and then leaves the buffer empty. The buffer never holds more than its capacity.
\<close>

theorem grouping_preserves_packets:
  assumes "group_inv ps t" and "publish_grouped E obj t" and "\<forall>n. e_alloc E n"
    and "length (ob_data obj) < 65536"
  shows "if group_due (ps @ [ob_data obj])
    then \<exists>g t1. deaggregate (ob_data g) = ps @ [ob_data obj] \<and>
           ob_track g = (if ps = [] then ob_track obj else t_fec_track_id t) \<and>
           transport_publish E obj t = bindf (publish_direct E g t1) (\<lambda>t2.
             Inr (True, t2\<lparr>t_fec_buf := [], t_fec_first_pkt_time := 0, t_fec_pkt_count := 0\<rparr>)) \<and>
           ob_object_id g = ucast (t_fec_object_id t) \<and>
           (\<forall>t2. publish_direct E g t1 = Inr t2 \<longrightarrow> t_fec_object_id t2 = t_fec_object_id t + 1)
    else \<exists>t1. transport_publish E obj t = Inr (True, t1) \<and> group_inv (ps @ [ob_data obj]) t1 \<and>
           t_world t1 = snd (e_time_ms E (t_world t))"
proof -
  let ?qs = "ps @ [ob_data obj]"
  obtain t1 where t1: "group_packet E obj t = (True, t1)" and buf: "t_fec_buf t1 = concat (map group_frame ?qs)"
    and cnt: "4 \<le> t_fec_pkt_count t1 \<longleftrightarrow> 4 \<le> length ?qs" and keep: "\<not> group_due ?qs \<Longrightarrow> group_inv ?qs t1"
    and w: "t_world t1 = snd (e_time_ms E (t_world t))"
    and track: "t_fec_track_id t1 = (if ps = [] then ob_track obj else t_fec_track_id t)"
    and id: "t_fec_object_id t1 = t_fec_object_id t"
    using group_packet_step [OF assms(1,3,4)] by metis
  have due: "4 \<le> t_fec_pkt_count t1 \<or> 4000 \<le> length (t_fec_buf t1) \<longleftrightarrow> group_due ?qs"
    unfolding group_due_def buf using cnt by blast
  have pub: "transport_publish E obj t =
    (if group_due ?qs then bindf (flush_fec_buffer E t1) (\<lambda>t2. Inr (True, t2)) else Inr (True, t1))"
    using assms(2) t1 due by (simp add: transport_publish_def)
  have small: "\<forall>p \<in> set ?qs. length p < 65536" using assms(1,4) by (auto simp: group_inv_def)
  let ?g = "\<lparr>ob_track = t_fec_track_id t1, ob_group_id = 0, ob_object_id = ucast (t_fec_object_id t1),
     ob_data = t_fec_buf t1, ob_is_keyframe = False, ob_priority = t_fec_priority t1\<rparr>"
  let ?t1 = "t1\<lparr>t_fec_object_id := t_fec_object_id t1 + 1\<rparr>"
  have "t_fec_buf t1 \<noteq> []" using buf by (simp add: group_frame_def be_bytes_eq_Nil)
  then have flush: "bindf (flush_fec_buffer E t1) (\<lambda>t2. Inr (True, t2)) = bindf (publish_direct E ?g ?t1)
      (\<lambda>t2. Inr (True, t2\<lparr>t_fec_buf := [], t_fec_first_pkt_time := 0, t_fec_pkt_count := 0\<rparr>))"
    by (cases "publish_direct E ?g ?t1") (simp_all add: flush_fec_buffer_def Let_def)
  have split: "deaggregate (ob_data ?g) = ?qs" using deaggregate_frames [OF small] by (simp add: buf)
  have num: "t_fec_object_id t2 = t_fec_object_id t + 1" if "publish_direct E ?g ?t1 = Inr t2" for t2
    using publish_direct_frame [OF that] id by (simp add: same_group_def)
  show ?thesis
  proof (cases "group_due ?qs")
    case True
    then have "transport_publish E obj t = bindf (publish_direct E ?g ?t1)
        (\<lambda>t2. Inr (True, t2\<lparr>t_fec_buf := [], t_fec_first_pkt_time := 0, t_fec_pkt_count := 0\<rparr>))"
      using pub flush by (simp only: if_True)
    moreover have "ob_track ?g = (if ps = [] then ob_track obj else t_fec_track_id t)"
      "ob_object_id ?g = ucast (t_fec_object_id t)" using track id by simp_all
    ultimately show ?thesis unfolding if_P [OF True] using split num by blast
  next
    case False
    with pub keep w show ?thesis by simp
  qed
qed

text \<open>Three packets of an application wait, the fourth sends the group.\<close>

definition demo_publisher :: "(nat, trace_world) transport" where
  "demo_publisher = (blank_transport empty_trace)\<lparr>t_client_conn := Some 0,
     t_heap := [0 \<mapsto> (new_conn 7)\<lparr>c_subscriptions := snd (subscribe_alias empty_subs demo_data_track)\<rparr>],
     t_fec_buf := [0, 1, 11, 0, 0, 0, 2, 22, 23], t_fec_buf_cap := 4096, t_fec_pkt_count := 3,
     t_fec_track_id := demo_data_track\<rparr>"

definition demo_packet :: moq_object where
  "demo_packet = \<lparr>ob_track = demo_data_track, ob_group_id = 0, ob_object_id = 9, ob_data = [44],
     ob_is_keyframe = False, ob_priority = 1\<rparr>"

theorem grouping_preserves_packets_witness:
  "\<exists>g t1. deaggregate (ob_data g) = [[11], [], [22, 23], [44]] \<and>
     transport_publish trace_env demo_packet demo_publisher = bindf (publish_direct trace_env g t1) (\<lambda>t2.
       Inr (True, t2\<lparr>t_fec_buf := [], t_fec_first_pkt_time := 0, t_fec_pkt_count := 0\<rparr>))"
proof -
  have inv: "group_inv [[11], [], [22, 23]] demo_publisher"
    by (simp add: group_inv_def group_frame_def demo_publisher_def numeral_2_eq_2)
  have "publish_grouped trace_env demo_packet demo_publisher" by code_simp
  moreover have "group_due ([[11], [], [22, 23]] @ [ob_data demo_packet])"
    by (simp add: group_due_def)
  ultimately show ?thesis
    using grouping_preserves_packets [OF inv, of trace_env demo_packet]
    by (auto simp: trace_env_def demo_packet_def)
qed

lemma fold_upd_world: "fold (\<lambda>p. upd_world (f p)) qs t = t\<lparr>t_world := fold f qs (t_world t)\<rparr>"
  by (induction qs arbitrary: t) (simp_all add: upd_world_def)

text \<open>
  C9. The daemon hands a received group to its clients packet by packet: when it has a data pipe and an
  object of an error-corrected data track holds the frames of the packets \<open>ps\<close>, its event handler sends
  exactly these packets to the pipe, in order, and changes nothing else. An object of any other track, whatever
  its bytes, goes to the pipe whole.
\<close>

theorem daemon_forwards_packets:
  assumes "dc_has_pipe D"
  shows "if tk_type track = MOQ_TRACK_DATA \<and> tk_flags track AND MOQ_TRACK_FLAG_FEC_ENABLED \<noteq> 0
    then (\<forall>p \<in> set ps. length p < 65536) \<and> ob_data obj = concat (map group_frame ps) \<longrightarrow>
      on_transport_event E D srv (ObjectReceived track obj) c t =
        t\<lparr>t_world := fold (\<lambda>p. dc_pipe_send D track p (ob_priority obj)) ps (t_world t)\<rparr>
    else on_transport_event E D srv (ObjectReceived track obj) c t =
      t\<lparr>t_world := dc_pipe_send D track (ob_data obj) (ob_priority obj) (t_world t)\<rparr>"
  using assms deaggregate_frames
  by (simp add: on_transport_event_def forward_object_def fold_upd_world upd_world_def [of "dc_pipe_send D track x y" for x y])

theorem daemon_forwards_packets_witness:
  "t_world (on_transport_event trace_env
     \<lparr>dc_subscribe_tracks = [], dc_use_reliable = False, dc_has_pipe = True,
      dc_pipe_send = (\<lambda>tr p prio w. w\<lparr>tw_egress := tw_egress w @ [(0, p)]\<rparr>)\<rparr> False
     (ObjectReceived demo_data_track (demo_packet\<lparr>ob_data := group_frame [5] @ group_frame [6, 7]\<rparr>)) 0
     (blank_transport empty_trace)) = empty_trace\<lparr>tw_egress := [(0, [5]), (0, [6, 7])]\<rparr>"
  using daemon_forwards_packets [of "\<lparr>dc_subscribe_tracks = [], dc_use_reliable = False, dc_has_pipe = True,
      dc_pipe_send = (\<lambda>tr p prio w. w\<lparr>tw_egress := tw_egress w @ [(0, p)]\<rparr>)\<rparr>" demo_data_track "[[5], [6, 7]]"
      "demo_packet\<lparr>ob_data := group_frame [5] @ group_frame [6, 7]\<rparr>" trace_env False 0 "blank_transport empty_trace"]
  by (simp add: demo_data_track_def track_consts blank_transport_def empty_trace_def)

end
