(* ===== verification/Handshake.thy ===== *)
theory Handshake
  imports Stream_Parsing Daemon
begin

text \<open>
  The control channel end to end: what the senders of \<^verbatim>\<open>transport_quicly.c\<close> write on a control
  stream are well-formed messages of the parser, and the daemon's event handler, called from the parser,
  authenticates exactly the peers that send the shared token.
\<close>

section \<open>What is written\<close>

text \<open>\<open>out s w\<close> is what was written on stream \<open>s\<close> so far. Writing on one stream changes no other and closes none.\<close>

definition egress_log :: "('rs, 'rq, 'sc, 'w) env \<Rightarrow> (sptr \<Rightarrow> 'w \<Rightarrow> bytes) \<Rightarrow> bool" where
  "egress_log E out \<longleftrightarrow>
     (\<forall>s bs w. out s (e_egress_write E s bs w) = out s w @ bs) \<and> (\<forall>s q msg w. out s (e_close E q msg w) = out s w) \<and>
     (\<forall>s s' bs w. s' \<noteq> s \<longrightarrow> out s (e_egress_write E s' bs w) = out s w) \<and>
     (\<forall>s s' bs w. e_sendstate_is_open E s (e_egress_write E s' bs w) = e_sendstate_is_open E s w)"

lemma egress_logD:
  assumes "egress_log E out"
  shows "out s (e_egress_write E s bs w) = out s w @ bs" "out s (e_close E q msg w) = out s w"
    "s' \<noteq> s \<Longrightarrow> out s (e_egress_write E s' bs w) = out s w"
    "e_sendstate_is_open E s (e_egress_write E s' bs w) = e_sendstate_is_open E s w"
  using assms by (simp_all add: egress_log_def)

lemma write_track_msg_out:
  assumes log: "egress_log E out" and name: "name_ok (tk_name track)"
  shows "out s (t_world (write_track_msg E s kind al track t)) =
    out s (t_world t) @ ctl_bytes (TrackMsg kind al (ucast (tk_type track)) (tk_flags track) (tk_name track))"
proof -
  have n: "unat (of_nat (length (tk_name track)) :: u8) = length (tk_name track)"
    using name by (simp add: name_ok_def unat_of_nat)
  then have "(0 :: u8) < of_nat (length (tk_name track)) \<longleftrightarrow> tk_name track \<noteq> []"
    by (auto simp: word_less_nat_alt)
  with n show ?thesis by (auto simp: write_track_msg_def Let_def egress_logD [OF log])
qed

lemma write_track_msg_other:
  assumes log: "egress_log E out"
  shows "s' \<noteq> s \<Longrightarrow> out s (t_world (write_track_msg E s' kind al track t)) = out s (t_world t)"
    and "e_sendstate_is_open E s (t_world (write_track_msg E s' kind al track t)) = e_sendstate_is_open E s (t_world t)"
    and "t_heap (write_track_msg E s' kind al track t) = t_heap t"
  using egress_logD(3,4) [OF log] by (simp_all add: write_track_msg_def Let_def)

lemma open_control_frame: "open_control E c t = Some (k, s) \<Longrightarrow> t_heap t c = Some k \<and> c_stream k = Some s \<and> e_sendstate_is_open E s (t_world t)"
  by (auto simp: open_control_def split: option.splits if_splits)

text \<open>Subscribing on connections with other control streams does not touch this one.\<close>

definition own_stream :: "cptr \<Rightarrow> sptr \<Rightarrow> cptr list \<Rightarrow> ('rs, 'w) transport \<Rightarrow> bool" where
  "own_stream c s cs t \<longleftrightarrow> (\<forall>c' \<in> set cs. \<forall>k'. t_heap t c' = Some k' \<longrightarrow> c' \<noteq> c \<longrightarrow> c_stream k' \<noteq> Some s)"

lemma subscribe_conn_other:
  assumes log: "egress_log E out" and own: "own_stream c s (c' # cs) t" and ne: "c' \<noteq> c" and op: "open_control E c t = Some (k, s)"
  shows "out s (t_world (subscribe_conn E track c' t)) = out s (t_world t)"
    and "open_control E c (subscribe_conn E track c' t) = Some (k, s)" and "own_stream c s cs (subscribe_conn E track c' t)"
proof -
  note w = write_track_msg_other [OF log]
  have "out s (t_world (subscribe_conn E track c' t)) = out s (t_world t) \<and> open_control E c (subscribe_conn E track c' t) = Some (k, s) \<and>
    own_stream c s cs (subscribe_conn E track c' t)"
  proof (cases "open_control E c' t")
    case None
    with own op show ?thesis by (simp add: subscribe_conn_def own_stream_def)
  next
    case (Some ks)
    obtain k' s' where ks: "ks = (k', s')" by force
    have k': "t_heap t c' = Some k'" "c_stream k' = Some s'" using open_control_frame Some ks by blast+
    then have "s' \<noteq> s" using own ne by (auto simp: own_stream_def)
    moreover obtain al subs where "subscribe_alias (c_subscriptions k') track = (al, subs)" by force
    ultimately have "subscribe_conn E track c' t = write_track_msg E s' 1 al track (put_conn c' (k'\<lparr>c_subscriptions := subs\<rparr>) t)"
      using Some ks by (simp add: subscribe_conn_def)
    with \<open>s' \<noteq> s\<close> own open_control_frame [OF op] ne k' w(1) w(2,3) show ?thesis
      by (simp add: open_control_def own_stream_def)
  qed
  then show "out s (t_world (subscribe_conn E track c' t)) = out s (t_world t)"
    "open_control E c (subscribe_conn E track c' t) = Some (k, s)" "own_stream c s cs (subscribe_conn E track c' t)" by blast+
qed

lemma fold_subscribe_other:
  assumes log: "egress_log E out"
  shows "c \<notin> set cs \<Longrightarrow> own_stream c s cs t \<Longrightarrow> open_control E c t = Some (k, s) \<Longrightarrow>
    out s (t_world (fold (subscribe_conn E track) cs t)) = out s (t_world t) \<and>
    open_control E c (fold (subscribe_conn E track) cs t) = Some (k, s)"
proof (induction cs arbitrary: t)
  case (Cons c' cs)
  have ne: "c' \<noteq> c" using Cons.prems(1) by auto
  note o = subscribe_conn_other [OF log Cons.prems(2) ne Cons.prems(3), of track]
  from Cons.IH [OF _ o(3,2)] Cons.prems(1) o(1) show ?case by simp
qed simp

lemma subscribe_conn_out:
  assumes "egress_log E out" "name_ok (tk_name track)" "open_control E c t = Some (k, s)"
  shows "out s (t_world (subscribe_conn E track c t)) = out s (t_world t) @
    ctl_bytes (TrackMsg 1 (fst (subscribe_alias (c_subscriptions k) track)) (ucast (tk_type track)) (tk_flags track) (tk_name track))"
  using assms(3) by (simp add: subscribe_conn_def write_track_msg_out [OF assms(1,2)] case_prod_beta Let_def del: ctl_bytes.simps)

lemma fold_subscribe_out:
  assumes log: "egress_log E out" and name: "name_ok (tk_name track)"
  shows "c \<in> set cs \<Longrightarrow> distinct cs \<Longrightarrow> own_stream c s cs t \<Longrightarrow> open_control E c t = Some (k, s) \<Longrightarrow>
    out s (t_world (fold (subscribe_conn E track) cs t)) = out s (t_world t) @
      ctl_bytes (TrackMsg 1 (fst (subscribe_alias (c_subscriptions k) track)) (ucast (tk_type track)) (tk_flags track) (tk_name track))"
proof (induction cs arbitrary: t)
  case (Cons c' cs)
  show ?case
  proof (cases "c' = c")
    case True
    let ?t1 = "subscribe_conn E track c t" and ?k1 = "k\<lparr>c_subscriptions := snd (subscribe_alias (c_subscriptions k) track)\<rparr>"
    have t1: "?t1 = write_track_msg E s 1 (fst (subscribe_alias (c_subscriptions k) track)) track (put_conn c ?k1 t)"
      using Cons.prems(4) by (simp add: subscribe_conn_def case_prod_beta Let_def)
    have "open_control E c ?t1 = Some (?k1, s)" "own_stream c s cs ?t1"
      using open_control_frame [OF Cons.prems(4)] Cons.prems(3) write_track_msg_other(2,3) [OF log] unfolding t1
      by (simp_all add: open_control_def own_stream_def)
    moreover have "c \<notin> set cs" using Cons.prems(2) True by simp
    ultimately have "out s (t_world (fold (subscribe_conn E track) cs ?t1)) = out s (t_world ?t1)"
      using fold_subscribe_other [OF log] by blast
    with True subscribe_conn_out [OF log name Cons.prems(4)] show ?thesis by (simp del: ctl_bytes.simps)
  next
    case False
    note o = subscribe_conn_other [OF log Cons.prems(3) False Cons.prems(4), of track]
    from Cons.IH [OF _ _ o(3,2)] Cons.prems(1,2) False o(1) show ?thesis by (simp del: ctl_bytes.simps)
  qed
qed simp

section \<open>Authentication by the daemon\<close>

text \<open>The daemon's handler as the callback of a server's transport.\<close>

definition server_env :: "('rs, 'rq, 'sc, 'w) env \<Rightarrow> 'w daemon_ctx \<Rightarrow> ('rs, 'rq, 'sc, 'w) env" where
  "server_env E D = E\<lparr>e_callback := on_transport_event E D True\<rparr>"

text \<open>Writing, closing and forwarding do not touch what is to be read on the stream.\<close>

definition quiet_io :: "('rs, 'rq, 'sc, 'w) env \<Rightarrow> sptr \<Rightarrow> bool" where
  "quiet_io E s \<longleftrightarrow>
     (\<forall>st bs w. e_ingress_get E s (e_egress_write E st bs w) = e_ingress_get E s w) \<and>
     (\<forall>q msg w. e_ingress_get E s (e_close E q msg w) = e_ingress_get E s w) \<and>
     (\<forall>n w. e_ingress_get E s (e_ingress_shift E s n w) = drop n (e_ingress_get E s w))"

definition auth_view :: "('rs, 'w) transport \<Rightarrow> cptr \<Rightarrow> (bool \<times> sptr option \<times> qptr) option" where
  "auth_view t c = map_option (\<lambda>k. (c_authenticated k, c_stream k, c_quic k)) (t_heap t c)"

lemma subscribe_conn_keeps:
  "auth_view (subscribe_conn E track c t) = auth_view t"
  "quiet_io E s \<Longrightarrow> e_ingress_get E s (t_world (subscribe_conn E track c t)) = e_ingress_get E s (t_world t)"
  by (auto simp: fun_eq_iff auth_view_def subscribe_conn_def open_control_def write_track_msg_def Let_def quiet_io_def
      split: option.splits prod.splits)

lemma transport_subscribe_keeps:
  "auth_view (snd (transport_subscribe E track t)) = auth_view t"
  "quiet_io E s \<Longrightarrow> e_ingress_get E s (t_world (snd (transport_subscribe E track t))) = e_ingress_get E s (t_world t)"
proof -
  have f: "auth_view (fold (subscribe_conn E track) cs t) = auth_view t \<and>
      (quiet_io E s \<longrightarrow> e_ingress_get E s (t_world (fold (subscribe_conn E track) cs t)) = e_ingress_get E s (t_world t))" for cs
    by (induction cs arbitrary: t) (auto simp: subscribe_conn_keeps)
  show "auth_view (snd (transport_subscribe E track t)) = auth_view t"
    "quiet_io E s \<Longrightarrow> e_ingress_get E s (t_world (snd (transport_subscribe E track t))) = e_ingress_get E s (t_world t)"
    using f by (auto simp: transport_subscribe_def subscribe_conn_keeps split: option.splits)
qed

lemma subscribe_to_tracks_keeps:
  "auth_view (subscribe_to_tracks E D t) = auth_view t"
  "quiet_io E s \<Longrightarrow> e_ingress_get E s (t_world (subscribe_to_tracks E D t)) = e_ingress_get E s (t_world t)"
proof -
  have f: "auth_view (fold (\<lambda>name t. snd (transport_subscribe E (daemon_track D name) t)) ns t) = auth_view t \<and>
      (quiet_io E s \<longrightarrow> e_ingress_get E s (t_world (fold (\<lambda>name t. snd (transport_subscribe E (daemon_track D name) t)) ns t)) =
        e_ingress_get E s (t_world t))" for ns
    by (induction ns arbitrary: t) (auto simp: transport_subscribe_keeps)
  show "auth_view (subscribe_to_tracks E D t) = auth_view t"
    "quiet_io E s \<Longrightarrow> e_ingress_get E s (t_world (subscribe_to_tracks E D t)) = e_ingress_get E s (t_world t)"
    using f by (simp_all add: subscribe_to_tracks_def)
qed

lemma respond_auth_sets:
  assumes "auth_view t c = Some (b, Some s, q)" and "\<forall>w. e_sendstate_is_open E s w"
  shows "auth_view (snd (transport_respond_auth E c ok t)) c = Some (ok \<or> b, Some s, q)"
    and "quiet_io E s' \<Longrightarrow> e_ingress_get E s' (t_world (snd (transport_respond_auth E c ok t))) = e_ingress_get E s' (t_world t)"
  using assms
  by (auto simp: auth_view_def transport_respond_auth_def open_control_def Let_def quiet_io_def)

lemma auth_event_decides:
  assumes "auth_view t c = Some (False, Some s, q)" and "\<forall>w. e_sendstate_is_open E s w" and "quiet_io E s"
  shows "auth_view (on_transport_event E D True (Auth token) c t) c = Some (token = daemon_token, Some s, q)"
    and "pending E s (on_transport_event E D True (Auth token) c t) = pending E s t"
proof -
  let ?t1 = "if token = daemon_token then subscribe_to_tracks E D t else t"
  have v: "auth_view ?t1 c = Some (False, Some s, q)" using assms(1) by (simp add: subscribe_to_tracks_keeps)
  have w: "e_ingress_get E s (t_world ?t1) = e_ingress_get E s (t_world t)"
    using subscribe_to_tracks_keeps(2) [OF assms(3)] by simp
  have ev: "on_transport_event E D True (Auth token) c t = snd (transport_respond_auth E c (token = daemon_token) ?t1)"
    by (simp add: on_transport_event_def Let_def)
  show "auth_view (on_transport_event E D True (Auth token) c t) c = Some (token = daemon_token, Some s, q)"
    unfolding ev using respond_auth_sets(1) [OF v assms(2)] by simp
  show "pending E s (on_transport_event E D True (Auth token) c t) = pending E s t"
    unfolding ev using respond_auth_sets(2) [OF v assms(2) assms(3)] w by simp
qed

section \<open>Properties\<close>


definition trace_out :: "sptr \<Rightarrow> trace_world \<Rightarrow> bytes" where
  "trace_out s w = concat (map snd (filter (\<lambda>e. fst e = s) (tw_egress w)))"

text \<open>A server with two connections subscribes on both.\<close>

definition demo_two_conns :: "(nat, trace_world) transport" where
  "demo_two_conns = (blank_transport empty_trace)\<lparr>t_is_server := True, t_conns := [0, 1],
     t_heap := [0 \<mapsto> (new_conn 7)\<lparr>c_stream := Some 3\<rparr>, 1 \<mapsto> (new_conn 8)\<lparr>c_stream := Some 4\<rparr>]\<rparr>"


text \<open>
  C7. The daemon admits exactly the peers with the token. On a server connection that is not
  authenticated, whose control stream holds one authentication message, the parser with the daemon's
  handler as callback returns, takes the message off the stream, and afterwards the connection is
  authenticated if and only if the token is the daemon's.
\<close>

theorem daemon_admits_token_only:
  assumes "quiet_io E s" and "t_heap t c = Some k" and "c_stream k = Some s" and "\<not> c_authenticated k"
    and "\<forall>w. e_sendstate_is_open E s w" and "length token < 65536"
    and "pending E s t = ctl_bytes (AuthMsg token)"
  shows "\<exists>t' k'. parse_control_messages (server_env E D) c s t = Some (Inr t') \<and> pending E s t' = [] \<and>
    t_heap t' c = Some k' \<and> (c_authenticated k' \<longleftrightarrow> token = daemon_token)"
proof -
  let ?E = "server_env E D" and ?in = "[4] @ be_bytes 2 (length token) @ token"
  let ?t1 = "on_transport_event E D True (Auth token) c t"
  let ?t2 = "upd_world (e_ingress_shift E s (3 + length token)) ?t1"
  have v: "auth_view t c = Some (False, Some s, c_quic k)" using assms(2-4) by (simp add: auth_view_def)
  note ev = auth_event_decides [OF v assms(5,1), of D token]
  have E: "e_ingress_get ?E = e_ingress_get E" "e_ingress_shift ?E = e_ingress_shift E"
    "e_callback ?E = on_transport_event E D True" by (simp_all add: server_env_def)
  have "be_val (bslice 1 2 ?in) = length token" "bslice 3 (length token) ?in = token"
    using assms(6) by (simp_all add: bslice_def be_val_be_bytes)
  then have "control_step ?E c s t = Inr (More ?t2)"
    using assms(7) by (simp add: control_step_def E ctl_auth_msg_def Let_def)
  then have "parse_control_messages ?E c s t = parse_control_messages ?E c s ?t2" by (rule ctl.loop_more)
  moreover have p: "pending E s ?t2 = []"
    using ev(2) assms(1,7) by (simp add: quiet_io_def)
  then have "control_step ?E c s ?t2 = Inr (Stop ?t2)" by (simp add: control_step_def E)
  then have "parse_control_messages ?E c s ?t2 = Some (Inr ?t2)" by (rule ctl.loop_stop)
  moreover obtain k' where "t_heap ?t2 c = Some k'" "c_authenticated k' \<longleftrightarrow> token = daemon_token"
    using ev(1) by (auto simp: auth_view_def)
  ultimately show ?thesis using p by auto
qed

theorem daemon_admits_token_only_witness:
  "\<exists>t' k'. parse_control_messages (server_env trace_env
       \<lparr>dc_subscribe_tracks = [[109]], dc_use_reliable = False, dc_has_pipe = False, dc_pipe_send = (\<lambda>_ _ _ w. w)\<rparr>) 0 3
       (demo_stream_transport True (ctl_bytes (AuthMsg [1, 2]))) = Some (Inr t') \<and> t_heap t' 0 = Some k' \<and> \<not> c_authenticated k'"
proof -
  let ?D = "\<lparr>dc_subscribe_tracks = [[109]], dc_use_reliable = False, dc_has_pipe = False, dc_pipe_send = (\<lambda>_ _ _ w. w)\<rparr>"
  let ?t = "demo_stream_transport True (ctl_bytes (AuthMsg [1, 2]))"
  have io: "quiet_io trace_env 3" by (simp add: quiet_io_def trace_env_def)
  have kn: "t_heap ?t 0 = Some ((new_conn 7)\<lparr>c_stream := Some 3\<rparr>)" by (simp add: demo_stream_transport_def)
  have pend: "pending trace_env 3 ?t = ctl_bytes (AuthMsg [1, 2])"
    by (simp add: demo_stream_transport_def blank_transport_def trace_env_def)
  have "\<exists>t' k'. parse_control_messages (server_env trace_env ?D) 0 3 ?t = Some (Inr t') \<and> pending trace_env 3 t' = [] \<and>
    t_heap t' 0 = Some k' \<and> (c_authenticated k' \<longleftrightarrow> [1, 2] = daemon_token)"
    by (rule daemon_admits_token_only [OF io kn _ _ _ _ pend]) (simp_all add: new_conn_def trace_env_def)
  moreover have "[1, 2] \<noteq> daemon_token" by (simp add: daemon_token_def)
  ultimately show ?thesis by auto
qed

end
