(* ===== verification/Ifmon.thy ===== *)
theory Ifmon
  imports Prelude
begin

text \<open>
  The interface monitor (\<^verbatim>\<open>ifmon.c\<close>, the Linux build): building a snapshot of the interfaces
  from the kernel's netlink dumps, comparing two snapshots, and the watcher that reports changes. The
  byte framing of a netlink buffer is the business of the system's \<^verbatim>\<open>NLMSG_\<close> and \<^verbatim>\<open>RTA_\<close>
  macros: a received buffer is the list of its messages, each with its attributes.
\<close>

section \<open>Snapshots\<close>

definition IFMON_MAX_INTERFACES :: nat where "IFMON_MAX_INTERFACES = 16"
definition IFMON_MAX_IPS_PER_IFACE :: nat where "IFMON_MAX_IPS_PER_IFACE = 16"

datatype ip_addr = IPv4 u32 | IPv6 bytes

record ifmon_addr =
  ia_ip :: ip_addr
  ia_prefix_len :: u8

record ifmon_iface =
  if_index :: u32
  if_name :: cstr
  if_hw_addr :: cstr
  if_addrs :: "ifmon_addr list"

record ifmon_iface_diff =
  df_index :: u32
  df_hw_addr_changed :: bool
  df_addrs_added :: "ifmon_addr list"
  df_addrs_removed :: "ifmon_addr list"

record ifmon_update =
  up_is_initial :: bool
  up_interfaces :: "ifmon_iface list"
  up_added :: "u32 list"
  up_removed :: "u32 list"
  up_modified :: "ifmon_iface_diff list"

section \<open>Names\<close>

text \<open>\<^verbatim>\<open>%02X\<close>.\<close>

definition hex_digit :: "nat \<Rightarrow> u8" where
  "hex_digit n = of_nat (if n < 10 then 48 + n else 55 + n)"

definition hex_byte :: "u8 \<Rightarrow> cstr" where
  "hex_byte b = [hex_digit (unat b div 16), hex_digit (unat b mod 16)]"

definition no_mac :: cstr where
  "no_mac = chars ''00:00:00:00:00:00''"

definition format_mac :: "bytes \<Rightarrow> cstr" where
  "format_mac bs =
     (let bs6 = take 6 bs
      in if bs6 = [] then no_mac
         else hex_byte (hd bs6) @ concat (map (\<lambda>b. 58 # hex_byte b) (tl bs6)) @
              concat (replicate (6 - length bs6) (chars '':00'')))"

definition starts_with :: "string \<Rightarrow> cstr \<Rightarrow> bool" where
  "starts_with s name \<longleftrightarrow> take (length s) name = chars s"

fun contains :: "string \<Rightarrow> cstr \<Rightarrow> bool" where
  "contains s [] = starts_with s []"
| "contains s (c # cs) = (starts_with s (c # cs) \<or> contains s cs)"

definition is_iface_allowed :: "cstr \<Rightarrow> bool" where
  "is_iface_allowed name \<longleftrightarrow> name \<noteq> [] \<and>
     \<not> list_ex (\<lambda>s. starts_with s name) [''lo'', ''tun'', ''tap'', ''docker'', ''br-'', ''utun'', ''llw'', ''awdl''] \<and>
     \<not> list_ex (\<lambda>s. contains s name) [''Loopback'', ''vEthernet'', ''Wintun'']"

section \<open>Building a snapshot\<close>

datatype rtattr = IfName bytes | IfHwAddr bytes | IfaAddress bytes | OtherAttr

datatype nlmsg =
    NlDone
  | NlError
  | NewLink (nl_up: bool) (nl_index: u32) (nl_attrs: "rtattr list")
  | NewAddr (na_v4: bool) (na_v6: bool) (na_index: u32) (na_prefix: u8) (na_attrs: "rtattr list")
  | NlOther

text \<open>A link message appends the interface it describes, if it is up, allowed and there is room.\<close>

definition link_attr :: "rtattr \<Rightarrow> ifmon_iface \<Rightarrow> ifmon_iface" where
  "link_attr a i = (case a of IfName bs \<Rightarrow> i\<lparr>if_name := take 63 (cstr_of bs)\<rparr>
     | IfHwAddr bs \<Rightarrow> i\<lparr>if_hw_addr := format_mac bs\<rparr> | _ \<Rightarrow> i)"

definition add_link_msg :: "nlmsg \<Rightarrow> ifmon_iface list \<Rightarrow> ifmon_iface list" where
  "add_link_msg m l =
     (case m of
        NewLink up idx attrs \<Rightarrow>
          if \<not> up \<or> IFMON_MAX_INTERFACES \<le> length l then l
          else
            let i = fold link_attr attrs \<lparr>if_index = idx, if_name = [], if_hw_addr = no_mac, if_addrs = []\<rparr>
            in if is_iface_allowed (if_name i) then l @ [i] else l
      | _ \<Rightarrow> l)"

definition addr_attr :: "bool \<Rightarrow> rtattr \<Rightarrow> ip_addr \<Rightarrow> ip_addr" where
  "addr_attr v4 a ip = (case a of
     IfaAddress bs \<Rightarrow> if v4 then IPv4 (of_nat (be_val (take 4 bs))) else IPv6 (take 16 bs) | _ \<Rightarrow> ip)"

definition add_addr_msg :: "nlmsg \<Rightarrow> ifmon_iface list \<Rightarrow> ifmon_iface list" where
  "add_addr_msg m l =
     (case m of
        NewAddr v4 v6 idx prefix attrs \<Rightarrow>
          (case find_index (\<lambda>i. if_index i = idx) l of
             None \<Rightarrow> l
           | Some k \<Rightarrow>
               if (v4 \<or> v6) \<and> length (if_addrs (l ! k)) < IFMON_MAX_IPS_PER_IFACE
               then
                 let ip = fold (addr_attr v4) attrs (if v4 then IPv4 0 else IPv6 (replicate 16 0))
                 in l[k := (l ! k)\<lparr>if_addrs := if_addrs (l ! k) @ [\<lparr>ia_ip = ip, ia_prefix_len = prefix\<rparr>]\<rparr>]
               else l)
      | _ \<Rightarrow> l)"

text \<open>
  One dump: at most 1000 buffers, up to the message that ends it; a failed read ends it too.
\<close>

fun scan_buffer :: "(nlmsg \<Rightarrow> ifmon_iface list \<Rightarrow> ifmon_iface list) \<Rightarrow> nlmsg list \<Rightarrow> ifmon_iface list \<Rightarrow> bool \<times> ifmon_iface list" where
  "scan_buffer f [] l = (False, l)"
| "scan_buffer f (m # ms) l = (if m = NlDone \<or> m = NlError then (True, l) else scan_buffer f ms (f m l))"

fun scan_dump ::
  "('w \<Rightarrow> nlmsg list option \<times> 'w) \<Rightarrow> (nlmsg \<Rightarrow> ifmon_iface list \<Rightarrow> ifmon_iface list) \<Rightarrow> nat \<Rightarrow>
   ifmon_iface list \<Rightarrow> 'w \<Rightarrow> ifmon_iface list \<times> 'w" where
  "scan_dump recv f 0 l w = (l, w)"
| "scan_dump recv f (Suc n) l w =
     (case recv w of
        (None, w1) \<Rightarrow> (l, w1)
      | (Some ms, w1) \<Rightarrow> (let (fin, l1) = scan_buffer f ms l in if fin then (l1, w1) else scan_dump recv f n l1 w1))"

text \<open>An address without a prefix length takes the first one of its family on the interface, or a default.\<close>

definition is_v4 :: "ip_addr \<Rightarrow> bool" where
  "is_v4 ip = (case ip of IPv4 _ \<Rightarrow> True | IPv6 _ \<Rightarrow> False)"

definition first_prefix :: "bool \<Rightarrow> ifmon_addr list \<Rightarrow> u8" where
  "first_prefix v4 as = (case find_index (\<lambda>a. is_v4 (ia_ip a) = v4 \<and> 0 < ia_prefix_len a) as of
     Some j \<Rightarrow> ia_prefix_len (as ! j) | None \<Rightarrow> 0)"

definition fill_prefix :: "ifmon_iface \<Rightarrow> ifmon_iface" where
  "fill_prefix i =
     (let p4 = first_prefix True (if_addrs i); p6 = first_prefix False (if_addrs i)
      in i\<lparr>if_addrs := map (\<lambda>a.
           if ia_prefix_len a = 0
           then a\<lparr>ia_prefix_len := (if is_v4 (ia_ip a) then (if p4 \<noteq> 0 then p4 else 24) else (if p6 \<noteq> 0 then p6 else 64))\<rparr>
           else a) (if_addrs i)\<rparr>)"

text \<open>
  The netlink socket: opening it and sending a dump request may fail. \<open>nl_recv\<close> is a read repeated
  while it is interrupted.
\<close>

record 'w netlink =
  nl_open :: "'w \<Rightarrow> bool \<times> 'w"
  nl_request :: "bool \<Rightarrow> 'w \<Rightarrow> bool \<times> 'w"
  nl_recv :: "'w \<Rightarrow> nlmsg list option \<times> 'w"
  nl_close :: "'w \<Rightarrow> 'w"

text \<open>
  The result is the success flag and the list as it is left: a request for the addresses that cannot be
  sent leaves the interfaces without addresses.
\<close>

definition ifmon_list_get :: "('w, 'm) netlink_scheme \<Rightarrow> 'w \<Rightarrow> bool \<times> ifmon_iface list \<times> 'w" where
  "ifmon_list_get K w =
     (let (ok, w1) = nl_open K w
      in if \<not> ok then (False, [], w1)
         else let (ok1, w2) = nl_request K True w1
              in if \<not> ok1 then (False, [], nl_close K w2)
                 else let (l1, w3) = scan_dump (nl_recv K) add_link_msg 1000 [] w2;
                          (ok2, w4) = nl_request K False w3
                      in if \<not> ok2 then (False, l1, nl_close K w4)
                         else let (l2, w5) = scan_dump (nl_recv K) add_addr_msg 1000 l1 w4
                              in (True, map fill_prefix l2, nl_close K w5))"

section \<open>Comparing snapshots\<close>

text \<open>The search for an address of the same family, prefix length and bytes is membership.\<close>

definition addr_found :: "ifmon_addr \<Rightarrow> ifmon_addr list \<Rightarrow> bool" where
  "addr_found a as \<longleftrightarrow> (\<exists>b \<in> set as. is_v4 (ia_ip a) = is_v4 (ia_ip b) \<and> ia_prefix_len a = ia_prefix_len b \<and> ia_ip a = ia_ip b)"

definition iface_diff :: "ifmon_iface \<Rightarrow> ifmon_iface \<Rightarrow> ifmon_iface_diff" where
  "iface_diff prev_if curr_if =
     \<lparr>df_index = if_index curr_if, df_hw_addr_changed = (if_hw_addr prev_if \<noteq> if_hw_addr curr_if),
      df_addrs_added = take IFMON_MAX_IPS_PER_IFACE (filter (\<lambda>a. \<not> addr_found a (if_addrs prev_if)) (if_addrs curr_if)),
      df_addrs_removed = take IFMON_MAX_IPS_PER_IFACE (filter (\<lambda>a. \<not> addr_found a (if_addrs curr_if)) (if_addrs prev_if))\<rparr>"

definition note_iface :: "ifmon_iface list \<Rightarrow> ifmon_iface \<Rightarrow> ifmon_update \<Rightarrow> ifmon_update" where
  "note_iface prev c up =
     (case find_index (\<lambda>p. if_index p = if_index c) prev of
        None \<Rightarrow> if length (up_added up) < IFMON_MAX_INTERFACES then up\<lparr>up_added := up_added up @ [if_index c]\<rparr> else up
      | Some j \<Rightarrow>
          let d = iface_diff (prev ! j) c
          in if (df_hw_addr_changed d \<or> df_addrs_added d \<noteq> [] \<or> df_addrs_removed d \<noteq> []) \<and>
                length (up_modified up) < IFMON_MAX_INTERFACES
             then up\<lparr>up_modified := up_modified up @ [d]\<rparr> else up)"

definition note_removed :: "ifmon_iface list \<Rightarrow> ifmon_iface \<Rightarrow> ifmon_update \<Rightarrow> ifmon_update" where
  "note_removed cur p up =
     (if find_index (\<lambda>c. if_index c = if_index p) cur = None \<and> length (up_removed up) < IFMON_MAX_INTERFACES
      then up\<lparr>up_removed := up_removed up @ [if_index p]\<rparr> else up)"

definition generate_update :: "ifmon_iface list \<Rightarrow> ifmon_iface list \<Rightarrow> bool \<Rightarrow> ifmon_update" where
  "generate_update prev cur is_initial =
     (let up = \<lparr>up_is_initial = is_initial, up_interfaces = cur, up_added = [], up_removed = [], up_modified = []\<rparr>
      in if is_initial then up
         else fold (note_removed cur) prev (fold (note_iface prev) cur up))"

section \<open>The watcher\<close>

text \<open>
  What the watcher thread does for one event: take a snapshot, compare, and report a difference. The
  result is the snapshot kept for the next comparison and the update reported, if any.
\<close>

definition watcher_event :: "('w, 'm) netlink_scheme \<Rightarrow> ifmon_iface list \<Rightarrow> 'w \<Rightarrow> ifmon_iface list \<times> ifmon_update option \<times> 'w" where
  "watcher_event K prev w =
     (let (ok, cur, w1) = ifmon_list_get K w
      in if \<not> ok then (prev, None, w1)
         else let up = generate_update prev cur False
              in if up_added up \<noteq> [] \<or> up_removed up \<noteq> [] \<or> up_modified up \<noteq> [] then (cur, Some up, w1)
                 else (prev, None, w1))"

section \<open>What a snapshot guarantees\<close>

definition iface_ok :: "ifmon_iface \<Rightarrow> bool" where
  "iface_ok i \<longleftrightarrow> is_iface_allowed (if_name i) \<and> length (if_addrs i) \<le> IFMON_MAX_IPS_PER_IFACE"

definition snapshot_ok :: "ifmon_iface list \<Rightarrow> bool" where
  "snapshot_ok l \<longleftrightarrow> length l \<le> IFMON_MAX_INTERFACES \<and> (\<forall>i \<in> set l. iface_ok i)"

lemma link_attr_addrs: "if_addrs (fold link_attr attrs i) = if_addrs i"
  by (induction attrs arbitrary: i) (auto simp: link_attr_def split: rtattr.splits)

lemma add_link_msg_ok: "snapshot_ok l \<Longrightarrow> snapshot_ok (add_link_msg m l)"
  by (auto simp: add_link_msg_def snapshot_ok_def iface_ok_def link_attr_addrs Let_def split: nlmsg.splits)

lemma add_addr_msg_ok: "snapshot_ok l \<Longrightarrow> snapshot_ok (add_addr_msg m l)"
  by (auto simp: add_addr_msg_def snapshot_ok_def iface_ok_def Let_def dest!: find_index_SomeD set_update_subset_insert [THEN subsetD]
      split: nlmsg.splits option.splits)

lemma scan_buffer_ok: "(\<And>m l. snapshot_ok l \<Longrightarrow> snapshot_ok (f m l)) \<Longrightarrow> snapshot_ok l \<Longrightarrow> snapshot_ok (snd (scan_buffer f ms l))"
  by (induction ms arbitrary: l) auto

lemma scan_dump_ok:
  assumes "\<And>m l. snapshot_ok l \<Longrightarrow> snapshot_ok (f m l)"
  shows "snapshot_ok l \<Longrightarrow> snapshot_ok (fst (scan_dump recv f n l w))"
proof (induction n arbitrary: l w)
  case (Suc n)
  obtain r w1 where r: "recv w = (r, w1)" by force
  show ?case
  proof (cases r)
    case (Some ms)
    obtain fin l1 where b: "scan_buffer f ms l = (fin, l1)" by force
    with scan_buffer_ok [of f l ms] assms Suc.prems have "snapshot_ok l1" by simp
    with Suc.IH r Some b show ?thesis by simp
  qed (use r Suc.prems in simp)
qed simp

lemma fill_prefix_ok: "iface_ok i \<Longrightarrow> iface_ok (fill_prefix i)"
  by (simp add: iface_ok_def fill_prefix_def Let_def)

lemma fill_prefix_nonzero: "a \<in> set (if_addrs (fill_prefix i)) \<Longrightarrow> ia_prefix_len a \<noteq> 0"
  by (auto simp: fill_prefix_def Let_def split: if_splits)

lemma list_get_cases:
  assumes "ifmon_list_get K w = (ok, l, w')"
  obtains (early) "\<not> ok" "l = []"
  | (interfaces) w2 where "\<not> ok" "l = fst (scan_dump (nl_recv K) add_link_msg 1000 [] w2)"
  | (all) w2 w4 where "ok"
      "l = map fill_prefix (fst (scan_dump (nl_recv K) add_addr_msg 1000 (fst (scan_dump (nl_recv K) add_link_msg 1000 [] w2)) w4))"
proof -
  obtain o0 w1 where o0: "nl_open K w = (o0, w1)" by force
  obtain o1 w2 where o1: "nl_request K True w1 = (o1, w2)" by force
  obtain l1 w3 where s1: "scan_dump (nl_recv K) add_link_msg 1000 [] w2 = (l1, w3)" by force
  obtain o2 w4 where o2: "nl_request K False w3 = (o2, w4)" by force
  obtain l2 w5 where s2: "scan_dump (nl_recv K) add_addr_msg 1000 l1 w4 = (l2, w5)" by force
  have "(ok, l, w') = (if \<not> o0 then (False, [], w1) else if \<not> o1 then (False, [], nl_close K w2)
      else if \<not> o2 then (False, l1, nl_close K w4) else (True, map fill_prefix l2, nl_close K w5))"
    unfolding assms [symmetric] ifmon_list_get_def o0 by (simp add: o1 s1 o2 s2 Let_def)
  then have "\<not> ok \<and> l = [] \<or> \<not> ok \<and> l = l1 \<or> ok \<and> l = map fill_prefix l2" by (simp split: if_splits)
  then show ?thesis using early interfaces [of w2] all [of w2 w4] unfolding s1 fst_conv s2 by blast
qed

lemma list_get_snapshot:
  assumes "ifmon_list_get K w = (ok, l, w')"
  shows "snapshot_ok l" and "ok \<Longrightarrow> \<forall>i \<in> set l. \<forall>a \<in> set (if_addrs i). ia_prefix_len a \<noteq> 0"
proof -
  have l1: "snapshot_ok (fst (scan_dump (nl_recv K) add_link_msg n [] w))" for n w
    by (intro scan_dump_ok add_link_msg_ok) (simp_all add: snapshot_ok_def)
  have l2: "snapshot_ok (map fill_prefix (fst (scan_dump (nl_recv K) add_addr_msg n l w)))" if "snapshot_ok l" for n l w
    using scan_dump_ok [of add_addr_msg, OF add_addr_msg_ok that, of "nl_recv K" n w] fill_prefix_ok by (simp add: snapshot_ok_def)
  show "snapshot_ok l" using assms
  proof (cases rule: list_get_cases)
    case early
    then show ?thesis by (simp add: snapshot_ok_def)
  qed (use l1 l2 [OF l1] in blast)+
  show "\<forall>i \<in> set l. \<forall>a \<in> set (if_addrs i). ia_prefix_len a \<noteq> 0" if ok
    using assms by (cases rule: list_get_cases) (use that fill_prefix_nonzero in auto)
qed

text \<open>A kernel that answers from a list of buffers.\<close>

definition demo_netlink :: "nlmsg list list netlink" where
  "demo_netlink = \<lparr>nl_open = (\<lambda>w. (True, w)), nl_request = (\<lambda>_ w. (True, w)),
     nl_recv = (\<lambda>w. case w of [] \<Rightarrow> (None, []) | b # bs \<Rightarrow> (Some b, bs)), nl_close = (\<lambda>w. w)\<rparr>"

definition demo_dump :: "nlmsg list list" where
  "demo_dump = [[NewLink True 1 [IfName (chars ''lo'')], NewLink True 2 [IfName (chars ''eth0''), IfHwAddr [0xAB, 1]]], [NlDone],
     [NewAddr True False 2 0 [IfaAddress [0, 0, 0, 9]], NewAddr True False 1 8 [IfaAddress [0, 0, 0, 1]]], [NlDone]]"

definition demo_snapshot :: "ifmon_iface list" where
  "demo_snapshot = [\<lparr>if_index = 2, if_name = chars ''eth0'', if_hw_addr = chars ''AB:01:00:00:00:00'',
     if_addrs = [\<lparr>ia_ip = IPv4 9, ia_prefix_len = 24\<rparr>]\<rparr>]"

lemma demo_list_get: "ifmon_list_get demo_netlink demo_dump = (True, demo_snapshot, [])"
proof -
  have n: "(1000 :: nat) = Suc (Suc 998)" by simp
  let ?l = "map (\<lambda>i. i\<lparr>if_addrs := []\<rparr>) demo_snapshot"
  let ?l2 = "map (\<lambda>i. i\<lparr>if_addrs := [\<lparr>ia_ip = IPv4 9, ia_prefix_len = 0\<rparr>]\<rparr>) demo_snapshot"
  have b: "scan_buffer add_link_msg (demo_dump ! 0) [] = (False, ?l)" "scan_buffer add_addr_msg (demo_dump ! 2) ?l = (False, ?l2)"
    "map fill_prefix ?l2 = demo_snapshot" "scan_buffer f [NlDone] l = (True, l)" for f l
    by (code_simp, code_simp, code_simp, simp)
  have d: "demo_dump = [demo_dump ! 0, [NlDone], demo_dump ! 2, [NlDone]]" by (simp add: demo_dump_def)
  show ?thesis
    unfolding ifmon_list_get_def n scan_dump.simps by (subst d) (simp add: demo_netlink_def b del: map_map)
qed

text \<open>
  A snapshot stays within its arrays whatever the kernel reports: at most 16 interfaces with at most
  16 addresses each, none of them a loopback, tunnel or container interface, and no address is left
  without a prefix length.
\<close>

theorem ifmon_snapshot_bounds:
  assumes "ifmon_list_get K w = (True, l, w')"
  shows "length l \<le> 16 \<and> (\<forall>i \<in> set l. is_iface_allowed (if_name i) \<and> length (if_addrs i) \<le> 16 \<and>
    (\<forall>a \<in> set (if_addrs i). ia_prefix_len a \<noteq> 0))"
  using list_get_snapshot [OF assms]
  by (simp add: snapshot_ok_def iface_ok_def IFMON_MAX_INTERFACES_def IFMON_MAX_IPS_PER_IFACE_def)

theorem ifmon_snapshot_bounds_witness:
  "ifmon_list_get demo_netlink demo_dump = (True, demo_snapshot, []) \<and> length demo_snapshot \<le> 16"
  using ifmon_snapshot_bounds [OF demo_list_get] demo_list_get by blast

section \<open>What an update says\<close>

lemma addr_found_iff [simp]: "addr_found a as \<longleftrightarrow> a \<in> set as"
proof -
  have "is_v4 (ia_ip a) = is_v4 (ia_ip b) \<and> ia_prefix_len a = ia_prefix_len b \<and> ia_ip a = ia_ip b \<longleftrightarrow> b = a" for b
    by (auto intro!: ifmon_addr.equality)
  then show ?thesis by (simp add: addr_found_def)
qed

definition changed_iface :: "ifmon_iface list \<Rightarrow> ifmon_iface \<Rightarrow> ifmon_iface_diff option" where
  "changed_iface prev c =
     (case find_index (\<lambda>p. if_index p = if_index c) prev of
        None \<Rightarrow> None
      | Some j \<Rightarrow>
          let d = iface_diff (prev ! j) c
          in if df_hw_addr_changed d \<or> df_addrs_added d \<noteq> [] \<or> df_addrs_removed d \<noteq> [] then Some d else None)"

lemma fold_note_iface:
  "length (up_added up) + length cs \<le> IFMON_MAX_INTERFACES \<Longrightarrow> length (up_modified up) + length cs \<le> IFMON_MAX_INTERFACES \<Longrightarrow>
   fold (note_iface prev) cs up = up\<lparr>
     up_added := up_added up @ map if_index (filter (\<lambda>c. find_index (\<lambda>p. if_index p = if_index c) prev = None) cs),
     up_modified := up_modified up @ List.map_filter (changed_iface prev) cs\<rparr>"
  by (induction cs arbitrary: up) (auto simp: note_iface_def changed_iface_def map_filter_simps Let_def split: option.splits)

lemma fold_note_removed:
  "length (up_removed up) + length ps \<le> IFMON_MAX_INTERFACES \<Longrightarrow>
   fold (note_removed cur) ps up = up\<lparr>
     up_removed := up_removed up @ map if_index (filter (\<lambda>p. find_index (\<lambda>c. if_index c = if_index p) cur = None) ps)\<rparr>"
  by (induction ps arbitrary: up) (auto simp: note_removed_def)

lemma generate_update_eq:
  assumes "length prev \<le> IFMON_MAX_INTERFACES" "length cur \<le> IFMON_MAX_INTERFACES"
  shows "generate_update prev cur False = \<lparr>up_is_initial = False, up_interfaces = cur,
    up_added = map if_index (filter (\<lambda>c. find_index (\<lambda>p. if_index p = if_index c) prev = None) cur),
    up_removed = map if_index (filter (\<lambda>p. find_index (\<lambda>c. if_index c = if_index p) cur = None) prev),
    up_modified = List.map_filter (changed_iface prev) cur\<rparr>"
  using assms by (simp add: generate_update_def Let_def fold_note_iface fold_note_removed)

text \<open>
  The addresses of each interface, and how an update changes them: removed interfaces go, added ones
  are read off the new snapshot, modified ones lose and gain the addresses listed.
\<close>

definition iface_at :: "ifmon_iface list \<Rightarrow> u32 \<Rightarrow> ifmon_iface option" where
  "iface_at l idx = map_option ((!) l) (find_index (\<lambda>i. if_index i = idx) l)"

definition addrs_at :: "ifmon_iface list \<Rightarrow> u32 \<Rightarrow> ifmon_addr set option" where
  "addrs_at l idx = map_option (\<lambda>i. set (if_addrs i)) (iface_at l idx)"

definition patch :: "ifmon_update \<Rightarrow> (u32 \<Rightarrow> ifmon_addr set option) \<Rightarrow> u32 \<Rightarrow> ifmon_addr set option" where
  "patch up m idx =
     (if idx \<in> set (up_removed up) then None
      else if idx \<in> set (up_added up) then addrs_at (up_interfaces up) idx
      else case find_index (\<lambda>d. df_index d = idx) (up_modified up) of
             None \<Rightarrow> m idx
           | Some k \<Rightarrow> map_option (\<lambda>A. (A - set (df_addrs_removed (up_modified up ! k))) \<union>
                          set (df_addrs_added (up_modified up ! k))) (m idx))"

lemma iface_at_None: "iface_at l idx = None \<longleftrightarrow> idx \<notin> if_index ` set l"
  by (auto simp: iface_at_def scan_simps)

lemma iface_at_Some: "distinct (map if_index l) \<Longrightarrow> iface_at l idx = Some i \<longleftrightarrow> i \<in> set l \<and> if_index i = idx"
proof
  assume "iface_at l idx = Some i"
  then show "i \<in> set l \<and> if_index i = idx" by (auto simp: iface_at_def dest: find_index_SomeD)
next
  assume d: "distinct (map if_index l)" and i: "i \<in> set l \<and> if_index i = idx"
  then obtain j where j: "iface_at l idx = Some j" using iface_at_None [of l idx] by fastforce
  then have "j \<in> set l \<and> if_index j = idx" by (auto simp: iface_at_def dest: find_index_SomeD)
  with i d have "j = i" by (meson distinct_map inj_onD)
  with j show "iface_at l idx = Some i" by simp
qed

lemma find_index_iface_at: "find_index (\<lambda>i. if_index i = idx) l = None \<longleftrightarrow> iface_at l idx = None"
  by (simp add: iface_at_def)

lemma changed_iface_at:
  "changed_iface prev c = (case iface_at prev (if_index c) of
     None \<Rightarrow> None
   | Some p \<Rightarrow> let d = iface_diff p c
       in if df_hw_addr_changed d \<or> df_addrs_added d \<noteq> [] \<or> df_addrs_removed d \<noteq> [] then Some d else None)"
  by (simp add: changed_iface_def iface_at_def split: option.splits)

lemma iface_diff_exact:
  assumes "iface_ok p" "iface_ok c"
  shows "set (df_addrs_added (iface_diff p c)) = set (if_addrs c) - set (if_addrs p)"
    and "set (df_addrs_removed (iface_diff p c)) = set (if_addrs p) - set (if_addrs c)"
proof -
  have "length (filter P (if_addrs c)) \<le> IFMON_MAX_IPS_PER_IFACE" "length (filter P (if_addrs p)) \<le> IFMON_MAX_IPS_PER_IFACE" for P
    using assms length_filter_le order_trans unfolding iface_ok_def by blast+
  then show "set (df_addrs_added (iface_diff p c)) = set (if_addrs c) - set (if_addrs p)"
    "set (df_addrs_removed (iface_diff p c)) = set (if_addrs p) - set (if_addrs c)"
    by (auto simp: iface_diff_def)
qed

lemma modified_lookup:
  assumes "distinct (map if_index cur)" "c \<in> set cur"
  shows "find_index (\<lambda>d. df_index d = if_index c) (List.map_filter (changed_iface prev) cur) = None \<and> changed_iface prev c = None \<or>
    (\<exists>k. find_index (\<lambda>d. df_index d = if_index c) (List.map_filter (changed_iface prev) cur) = Some k \<and>
       changed_iface prev c = Some (List.map_filter (changed_iface prev) cur ! k))"
proof -
  let ?m = "List.map_filter (changed_iface prev) cur"
  have idx: "df_index d = if_index x" if "changed_iface prev x = Some d" for x d
    using that by (auto simp: changed_iface_at iface_diff_def Let_def split: option.splits if_splits)
  have mem: "d \<in> set ?m \<longleftrightarrow> (\<exists>x \<in> set cur. changed_iface prev x = Some d)" for d
    by (force simp: map_filter_def image_iff)
  have uniq: "changed_iface prev c = Some d" if d: "d \<in> set ?m" "df_index d = if_index c" for d
  proof -
    obtain x where x: "x \<in> set cur" "changed_iface prev x = Some d" using d(1) mem [of d] by auto
    have "if_index x = if_index c" using idx [OF x(2)] d(2) by simp
    with x(1) assms have "x = c" by (meson distinct_map inj_onD)
    with x(2) show ?thesis by simp
  qed
  show ?thesis
  proof (cases "find_index (\<lambda>d. df_index d = if_index c) ?m")
    case None
    have "changed_iface prev c = None"
    proof (rule ccontr)
      assume "changed_iface prev c \<noteq> None"
      then obtain d where d: "changed_iface prev c = Some d" by auto
      with mem [of d] assms(2) have "d \<in> set ?m" by auto
      with None idx [OF d] show False by (auto simp: scan_simps)
    qed
    with None show ?thesis by simp
  next
    case (Some k)
    with find_index_SomeD [OF Some] uniq [of "?m ! k"] show ?thesis by auto
  qed
qed

text \<open>
  The comparison of snapshots loses nothing: applying the update to the addresses of the old snapshot
  gives exactly the addresses of the new one.
\<close>

lemma update_patches:
  assumes "snapshot_ok prev" and "snapshot_ok cur" and "distinct (map if_index prev)" and "distinct (map if_index cur)"
  shows "patch (generate_update prev cur False) (addrs_at prev) = addrs_at cur"
proof
  fix idx
  let ?up = "generate_update prev cur False"
  have len: "length prev \<le> IFMON_MAX_INTERFACES" "length cur \<le> IFMON_MAX_INTERFACES"
    using assms(1,2) by (simp_all add: snapshot_ok_def)
  note ge = generate_update_eq [OF len, unfolded find_index_iface_at]
  have up: "set (up_removed ?up) = if_index ` {p \<in> set prev. iface_at cur (if_index p) = None}"
    "set (up_added ?up) = if_index ` {c \<in> set cur. iface_at prev (if_index c) = None}"
    "up_interfaces ?up = cur" "up_modified ?up = List.map_filter (changed_iface prev) cur"
    unfolding ge by simp_all
  show "patch ?up (addrs_at prev) idx = addrs_at cur idx"
  proof (cases "iface_at cur idx")
    case None
    then have nc: "\<forall>c \<in> set cur. if_index c \<noteq> idx" by (auto simp: iface_at_None)
    show ?thesis
    proof (cases "iface_at prev idx")
      case (Some p)
      with None have "idx \<in> set (up_removed ?up)" using assms(3) by (auto simp: up iface_at_Some)
      with None show ?thesis by (simp add: patch_def addrs_at_def)
    next
      case None2: None
      have "idx \<notin> set (up_removed ?up)" "idx \<notin> set (up_added ?up)"
        using None2 nc by (auto simp: up iface_at_None)
      then show ?thesis using None None2 by (simp add: patch_def addrs_at_def split: option.splits)
    qed
  next
    case (Some c)
    then have c: "c \<in> set cur" "if_index c = idx" using assms(4) by (auto simp: iface_at_Some)
    have nr: "idx \<notin> set (up_removed ?up)" using Some by (auto simp: up)
    show ?thesis
    proof (cases "iface_at prev idx")
      case None
      then have "idx \<in> set (up_added ?up)" using c by (auto simp: up)
      with nr show ?thesis by (simp add: patch_def up(3))
    next
      case (Some p)
      then have p: "p \<in> set prev" "if_index p = idx" using assms(3) by (auto simp: iface_at_Some)
      have na: "idx \<notin> set (up_added ?up)" using Some by (auto simp: up)
      have ok: "iface_ok p" "iface_ok c" using assms(1,2) p c by (auto simp: snapshot_ok_def)
      note ex = iface_diff_exact [OF ok]
      have ch: "changed_iface prev c = (let d = iface_diff p c
        in if df_hw_addr_changed d \<or> df_addrs_added d \<noteq> [] \<or> df_addrs_removed d \<noteq> [] then Some d else None)"
        using Some c by (simp add: changed_iface_at)
      have goal: "addrs_at cur idx = Some (set (if_addrs c))" "addrs_at prev idx = Some (set (if_addrs p))"
        using \<open>iface_at cur idx = Some c\<close> Some by (simp_all add: addrs_at_def)
      from modified_lookup [OF assms(4) c(1), of prev] show ?thesis
      proof (elim disjE exE conjE)
        assume n: "find_index (\<lambda>d. df_index d = if_index c) (List.map_filter (changed_iface prev) cur) = None" "changed_iface prev c = None"
        then have "df_addrs_added (iface_diff p c) = []" "df_addrs_removed (iface_diff p c) = []"
          using ch by (auto simp: Let_def split: if_splits)
        with ex have "set (if_addrs c) = set (if_addrs p)" by auto
        with n nr na goal c(2) show ?thesis by (simp add: patch_def up(4))
      next
        fix k
        assume k: "find_index (\<lambda>d. df_index d = if_index c) (List.map_filter (changed_iface prev) cur) = Some k"
          "changed_iface prev c = Some (List.map_filter (changed_iface prev) cur ! k)"
        then have "List.map_filter (changed_iface prev) cur ! k = iface_diff p c"
          using ch by (auto simp: Let_def split: if_splits)
        with k(1) nr na goal c(2) ex show ?thesis by (auto simp: patch_def up(4))
      qed
    qed
  qed
qed

text \<open>
  C36. The watcher keeps track of every address. When the watcher handles an event and the kernel's
  snapshot is \<open>cur\<close>, then the snapshot it keeps has the addresses of \<open>cur\<close>; if it reports an update,
  applying that update to the addresses known before gives the addresses of \<open>cur\<close>, and it stays silent
  only if no address of any interface changed.
\<close>

theorem watcher_tracks_addresses:
  assumes "ifmon_list_get K w = (True, cur, w1)" and "snapshot_ok prev"
    and "distinct (map if_index prev)" and "distinct (map if_index cur)"
  shows "case watcher_event K prev w of (prev', report, w') \<Rightarrow>
    addrs_at prev' = addrs_at cur \<and> w' = w1 \<and>
    (case report of None \<Rightarrow> addrs_at prev = addrs_at cur | Some up \<Rightarrow> patch up (addrs_at prev) = addrs_at cur)"
proof -
  let ?up = "generate_update prev cur False"
  have p: "patch ?up (addrs_at prev) = addrs_at cur"
    by (rule update_patches [OF assms(2) list_get_snapshot(1) [OF assms(1)] assms(3,4)])
  have silent: "addrs_at prev = addrs_at cur" if "up_added ?up = []" "up_removed ?up = []" "up_modified ?up = []"
  proof -
    have "patch ?up (addrs_at prev) = addrs_at prev" using that by (auto simp: patch_def)
    with p show ?thesis by simp
  qed
  show ?thesis using assms(1) p silent by (auto simp: watcher_event_def Let_def)
qed

theorem watcher_tracks_addresses_witness:
  "case watcher_event demo_netlink [] demo_dump of (prev', report, w') \<Rightarrow>
    addrs_at prev' = addrs_at demo_snapshot \<and> w' = [] \<and>
    (case report of None \<Rightarrow> addrs_at [] = addrs_at demo_snapshot | Some up \<Rightarrow> patch up (addrs_at []) = addrs_at demo_snapshot)"
proof -
  have "snapshot_ok []" "distinct (map if_index ([] :: ifmon_iface list))" "distinct (map if_index demo_snapshot)"
    by (simp_all add: snapshot_ok_def demo_snapshot_def)
  from watcher_tracks_addresses [OF demo_list_get this] show ?thesis .
qed

end
