(* ===== verification/Ifmon_Platforms.thy ===== *)
theory Ifmon_Platforms
  imports Ifmon
begin

text \<open>
  The BSD and Windows builds of \<^verbatim>\<open>ifmon_list_get\<close>. On BSD the kernel returns a buffer of routing
  messages; a received buffer is the list of its messages, each with the two addresses that are used
  (the interface address and the netmask). On Windows the adapters are a linked list; the
  Windows watcher is a notification callback.
\<close>

section \<open>Prefix lengths from netmasks\<close>

text \<open>
  The loops of \<^verbatim>\<open>count_bits_v4\<close> and \<^verbatim>\<open>count_bits_v6\<close> (32 and 8 bits): while the top bit is set,
  count it and shift it out. The result is the counter and what is left of the word.
\<close>

function strip_ones :: "'a::len word \<Rightarrow> u8 \<Rightarrow> u8 \<times> 'a word" where
  "strip_ones val count =
     (if bit val (LENGTH('a) - 1) then strip_ones (push_bit 1 val) (count + 1) else (count, val))"
  by pat_completeness auto

lemma push_top_less: "bit (val :: 'a::len word) (LENGTH('a) - Suc 0) \<Longrightarrow> unat (val * 2) < unat val"
proof -
  assume "bit val (LENGTH('a) - Suc 0)"
  then have "bit (unat val) (LENGTH('a) - Suc 0)" by (simp add: bit_unsigned_iff)
  then have "odd (unat val div 2 ^ (LENGTH('a) - Suc 0))" by (metis bit_iff_odd)
  then have "2 ^ (LENGTH('a) - Suc 0) \<le> unat val" by (metis div_less even_zero not_less)
  then have "2 * 2 ^ (LENGTH('a) - Suc 0) \<le> 2 * unat val" by simp
  moreover have "2 * 2 ^ (LENGTH('a) - Suc 0) = (2 ^ LENGTH('a) :: nat)" by (metis Suc_pred len_gt_0 power_Suc)
  ultimately have ge: "2 ^ LENGTH('a) \<le> unat val * 2" by simp
  have lt: "unat val < 2 ^ LENGTH('a)" by (rule unat_bound)
  have "unat (val * 2) = unat val * 2 mod 2 ^ LENGTH('a)"
    by (metis mod_mult_right_eq of_nat_numeral unat_of_nat unat_word_ariths(2))
  also have "\<dots> = (unat val * 2 - 2 ^ LENGTH('a)) mod 2 ^ LENGTH('a)" by (rule le_mod_geq [OF ge])
  also have "\<dots> = unat val * 2 - 2 ^ LENGTH('a)" by (rule mod_less) (use lt in linarith)
  finally show ?thesis using lt ge by linarith
qed

termination strip_ones
  by (relation "measure (\<lambda>(val, count). unat val)") (simp_all add: push_top_less)

declare strip_ones.simps [simp del]

definition count_bits_v4 :: "u32 \<Rightarrow> u8" where
  "count_bits_v4 val = fst (strip_ones val 0)"

fun count_bits_bytes :: "bytes \<Rightarrow> u8 \<Rightarrow> u8" where
  "count_bits_bytes [] count = count"
| "count_bits_bytes (b # bs) count =
     (let (count1, byte) = strip_ones b count in if byte \<noteq> 0 then count1 else count_bits_bytes bs count1)"

definition count_bits_v6 :: "bytes \<Rightarrow> u8" where
  "count_bits_v6 addr = count_bits_bytes (take 16 addr) 0"

section \<open>BSD\<close>

text \<open>
  \<open>RtEnd\<close> is a message of length zero. \<open>RtIfInfo\<close> has the name and the hardware address if its link
  address is of family \<^verbatim>\<open>AF_LINK\<close>; \<open>RtNewAddr\<close> has the interface address, if it is an IP address, and the
  netmask as an address of the same family.
\<close>

datatype rtmsg =
    RtEnd
  | RtIfInfo (ri_up: bool) (ri_index: u32) (ri_link: "(bytes \<times> bytes) option")
  | RtNewAddr (rn_index: u32) (rn_addr: "ip_addr option") (rn_mask: "ip_addr option")
  | RtOther

definition rt_iface :: "u32 \<Rightarrow> (bytes \<times> bytes) option \<Rightarrow> ifmon_iface" where
  "rt_iface idx link =
     (case link of
        None \<Rightarrow> \<lparr>if_index = idx, if_name = [], if_hw_addr = no_mac, if_addrs = []\<rparr>
      | Some (name, mac) \<Rightarrow> \<lparr>if_index = idx, if_name = cstr_of (take 63 name), if_hw_addr = format_mac mac, if_addrs = []\<rparr>)"

definition rt_prefix :: "ip_addr \<Rightarrow> ip_addr option \<Rightarrow> u8" where
  "rt_prefix ip m =
     (case (ip, m) of (IPv4 _, Some (IPv4 n)) \<Rightarrow> count_bits_v4 n | (IPv6 _, Some (IPv6 n)) \<Rightarrow> count_bits_v6 n | _ \<Rightarrow> 0)"

definition rt_addr :: "u32 \<Rightarrow> ip_addr option \<Rightarrow> ip_addr option \<Rightarrow> ifmon_iface list \<Rightarrow> ifmon_iface list" where
  "rt_addr idx addr nmask l =
     (case find_index (\<lambda>i. if_index i = idx) l of
        None \<Rightarrow> l
      | Some k \<Rightarrow>
          if length (if_addrs (l ! k)) < IFMON_MAX_IPS_PER_IFACE then
            (case addr of
               None \<Rightarrow> l
             | Some ip \<Rightarrow> l[k := (l ! k)\<lparr>if_addrs := if_addrs (l ! k) @ [\<lparr>ia_ip = ip, ia_prefix_len = rt_prefix ip nmask\<rparr>]\<rparr>])
          else l)"

text \<open>
  The loop over the buffer. For an interface that is up but not allowed the loop continues
  without moving to the next message.
\<close>

partial_function (option) rt_scan :: "rtmsg list \<Rightarrow> ifmon_iface list \<Rightarrow> ifmon_iface list option" where
  "rt_scan ms l =
     (case ms of
        [] \<Rightarrow> Some l
      | m # ms' \<Rightarrow>
          (case m of
             RtEnd \<Rightarrow> Some l
           | RtIfInfo up idx link \<Rightarrow>
               if \<not> up then rt_scan ms' l
               else if length l < IFMON_MAX_INTERFACES then
                 (if \<not> is_iface_allowed (if_name (rt_iface idx link)) then rt_scan ms l
                  else rt_scan ms' (l @ [rt_iface idx link]))
               else rt_scan ms' l
           | RtNewAddr idx addr nmask \<Rightarrow> rt_scan ms' (rt_addr idx addr nmask l)
           | RtOther \<Rightarrow> rt_scan ms' l))"

declare rt_scan.simps [code]

text \<open>\<^verbatim>\<open>sysctl\<close> is called for the size and then for the messages; either call may fail.\<close>

definition bsd_list_get :: "rtmsg list option \<Rightarrow> ifmon_iface list option option" where
  "bsd_list_get sys =
     (case sys of
        None \<Rightarrow> Some None
      | Some ms \<Rightarrow> (case rt_scan ms [] of None \<Rightarrow> None | Some l \<Rightarrow> Some (Some (map fill_prefix l))))"

section \<open>Windows\<close>

text \<open>
  An adapter: \<open>ad_name\<close> is the friendly name in UTF-8 if it fits the buffer. A unicast address has a
  family that is IP or not, or no address at all.
\<close>

record adapter =
  ad_up :: bool
  ad_index :: u32
  ad_index6 :: u32
  ad_name :: "cstr option"
  ad_mac :: bytes
  ad_unicast :: "(ip_addr option \<times> u8) list"

definition add_unicast :: "ip_addr option \<times> u8 \<Rightarrow> ifmon_addr list \<Rightarrow> ifmon_addr list" where
  "add_unicast u as =
     (case fst u of
        None \<Rightarrow> as
      | Some ip \<Rightarrow> if length as < IFMON_MAX_IPS_PER_IFACE then as @ [\<lparr>ia_ip = ip, ia_prefix_len = snd u\<rparr>] else as)"

definition add_adapter :: "adapter \<Rightarrow> ifmon_iface list \<Rightarrow> ifmon_iface list" where
  "add_adapter a l =
     (let idx = (if ad_index a = 0 then ad_index6 a else ad_index a);
          name = (case ad_name a of Some s \<Rightarrow> s | None \<Rightarrow> [])
      in if \<not> ad_up a \<or> idx = 0 \<or> IFMON_MAX_INTERFACES \<le> length l \<or> \<not> is_iface_allowed name then l
         else l @ [\<lparr>if_index = idx, if_name = name, if_hw_addr = format_mac (ad_mac a),
                    if_addrs = fold add_unicast (ad_unicast a) []\<rparr>])"

definition win_list_get :: "adapter list option \<Rightarrow> ifmon_iface list option" where
  "win_list_get sys = map_option (\<lambda>as. fold add_adapter as []) sys"

text \<open>The notification callback, inside its critical section: the snapshot kept and the update reported.\<close>

definition windows_callback :: "adapter list option \<Rightarrow> ifmon_iface list \<Rightarrow> ifmon_iface list \<times> ifmon_update option" where
  "windows_callback sys prev =
     (case win_list_get sys of
        None \<Rightarrow> (prev, None)
      | Some cur \<Rightarrow>
          let up = generate_update prev cur False
          in if up_added up \<noteq> [] \<or> up_removed up \<noteq> [] \<or> up_modified up \<noteq> [] then (cur, Some up) else (prev, None))"

text \<open>
  Starting and stopping on Windows. The system calls are the record \<open>win_os\<close>; \<open>wi_notify\<close> returns whether it succeeded
  and the handle it leaves, \<open>None\<close> being \<^verbatim>\<open>INVALID_HANDLE_VALUE\<close>.
\<close>

record 'w win_os =
  wi_adapters :: "'w \<Rightarrow> adapter list option \<times> 'w"
  wi_init_lock :: "'w \<Rightarrow> 'w"
  wi_delete_lock :: "'w \<Rightarrow> 'w"
  wi_notify :: "'w \<Rightarrow> (bool \<times> int option) \<times> 'w"
  wi_cancel :: "int \<Rightarrow> 'w \<Rightarrow> 'w"

record win_watcher =
  ww_prev :: "ifmon_iface list"
  ww_notify_handle :: "int option"

definition win_watch_start :: "'w win_os \<Rightarrow> (ifmon_update \<Rightarrow> 'w \<Rightarrow> 'w) \<Rightarrow> 'w \<Rightarrow> bool \<times> win_watcher \<times> 'w" where
  "win_watch_start K cb w =
     (let (sys, w1) = wi_adapters K (wi_init_lock K w);
          (prev, w2) = (case win_list_get sys of None \<Rightarrow> ([], w1) | Some l \<Rightarrow> (l, cb (generate_update [] l True) w1));
          ((ok, h), w3) = wi_notify K w2;
          wt = \<lparr>ww_prev = prev, ww_notify_handle = h\<rparr>
      in if ok then (True, wt, w3) else (False, wt, wi_delete_lock K w3))"

definition win_watch_stop :: "'w win_os \<Rightarrow> win_watcher \<Rightarrow> 'w \<Rightarrow> 'w" where
  "win_watch_stop K wt w =
     wi_delete_lock K (case ww_notify_handle wt of None \<Rightarrow> w | Some h \<Rightarrow> wi_cancel K h w)"

section \<open>Counting leading ones\<close>

definition leading_ones :: "'a::len word \<Rightarrow> nat" where
  "leading_ones w = length (takeWhile (bit w) (rev [0..<LENGTH('a)]))"

lemma rev_upt_top: "rev [0..<LENGTH('a::len)] = (LENGTH('a) - 1) # rev [0..<LENGTH('a) - 1]"
proof -
  have "LENGTH('a) = Suc (LENGTH('a) - 1)" by simp
  then show ?thesis by (metis rev_append rev_singleton_conv append_Cons append_Nil upt_Suc_append zero_le)
qed

lemma leading_ones_top:
  "bit (w :: 'a::len word) (LENGTH('a) - 1) \<Longrightarrow> leading_ones w = Suc (leading_ones (push_bit 1 w))"
proof -
  assume top: "bit w (LENGTH('a) - 1)"
  let ?n = "LENGTH('a) - 1"
  have b0: "\<not> bit (w * 2) 0" and bS: "k < ?n \<Longrightarrow> bit (w * 2) (Suc k) = bit w k" for k
    using bit_push_bit_iff [of 1 w 0] bit_push_bit_iff [of 1 w "Suc k"] by auto
  have "[0..<LENGTH('a)] = 0 # map Suc [0..<?n]" by (metis One_nat_def Suc_pred len_gt_0 map_Suc_upt upt_conv_Cons)
  then have "takeWhile (bit (w * 2)) (rev [0..<LENGTH('a)]) = takeWhile (bit (w * 2)) (map Suc (rev [0..<?n]) @ [0])"
    by (simp add: rev_map)
  also have "\<dots> = takeWhile (bit (w * 2)) (map Suc (rev [0..<?n]))"
    by (rule takeWhile_tail) (rule b0)
  also have "\<dots> = map Suc (takeWhile (bit w) (rev [0..<?n]))"
    unfolding takeWhile_map by (intro arg_cong [of _ _ "map Suc"] takeWhile_cong) (simp_all add: bS)
  finally show ?thesis using top by (simp add: leading_ones_def rev_upt_top)
qed

lemma leading_ones_low: "\<not> bit (w :: 'a::len word) (LENGTH('a) - 1) \<Longrightarrow> leading_ones w = 0"
  by (simp add: leading_ones_def rev_upt_top)

lemma strip_ones_eq: "strip_ones w c = (c + of_nat (leading_ones w), push_bit (leading_ones w) w)"
proof (induction w c rule: strip_ones.induct)
  case (1 w c)
  then show ?case
    by (cases "bit w (LENGTH('a) - 1)") (simp_all add: strip_ones.simps [of w] leading_ones_top leading_ones_low ac_simps)
qed

definition netmask_v4 :: "nat \<Rightarrow> u32" where
  "netmask_v4 n = NOT (mask (32 - n))"

definition netmask_v6 :: "nat \<Rightarrow> bytes" where
  "netmask_v6 n = map (\<lambda>i. NOT (mask (8 - min 8 (n - 8 * i)))) [0..<16]"

lemma leading_netmask:
  assumes "n \<le> LENGTH('a::len)"
  shows "leading_ones (NOT (mask (LENGTH('a) - n)) :: 'a word) = n"
proof -
  have split: "rev [0..<LENGTH('a)] = rev [LENGTH('a) - n..<LENGTH('a)] @ rev [0..<LENGTH('a) - n]"
    using upt_add_eq_append [of 0 "LENGTH('a) - n" n] assms by (simp flip: rev_append)
  have "takeWhile (bit (NOT (mask (LENGTH('a) - n)) :: 'a word)) (rev [0..<LENGTH('a)]) = rev [LENGTH('a) - n..<LENGTH('a)]"
  proof (cases "LENGTH('a) - n")
    case 0
    then show ?thesis unfolding split by (simp add: takeWhile_eq_all_conv bit_not_iff bit_mask_iff possible_bit_word)
  next
    case (Suc k)
    then have "rev [0..<LENGTH('a) - n] = k # rev [0..<k]" by simp
    then show ?thesis unfolding split
      by (subst takeWhile_append2) (auto simp: bit_not_iff bit_mask_iff possible_bit_word Suc)
  qed
  with assms show ?thesis by (simp add: leading_ones_def)
qed

lemma strip_netmask_byte:
  "m \<le> 8 \<Longrightarrow> strip_ones (NOT (mask (8 - m)) :: 8 word) c = (c + of_nat m, 0)"
proof -
  assume m: "m \<le> 8"
  have "push_bit m (NOT (mask (8 - m)) :: 8 word) = 0"
    by (rule bit_word_eqI) (use m in \<open>auto simp: bit_push_bit_iff bit_not_iff bit_mask_iff possible_bit_word\<close>)
  then show ?thesis using leading_netmask [where ?'a = 8, of m] m by (simp add: strip_ones_eq)
qed

lemma count_bits_netmask:
  "count_bits_bytes (map (\<lambda>i. NOT (mask (8 - min 8 (n - 8 * i)))) is) c = c + of_nat (sum_list (map (\<lambda>i. min 8 (n - 8 * i)) is))"
  by (induction "is" arbitrary: c) (simp_all add: strip_netmask_byte del: of_nat_min)

lemma sum_byte_bits: "sum_list (map (\<lambda>i. min 8 (n - 8 * i)) [0..<k]) = min n (8 * k)"
  by (induction k) auto

text \<open>
  C39. The prefix length read off a netmask is right. \<^verbatim>\<open>count_bits_v4\<close> is the number of leading ones of
  its argument, for every 32-bit word, and both counters give back the prefix length of every
  IPv4 and IPv6 netmask.
\<close>

theorem prefix_length_counts:
  "count_bits_v4 w = of_nat (leading_ones w) \<and>
   (n \<le> 32 \<longrightarrow> count_bits_v4 (netmask_v4 n) = of_nat n) \<and>
   (n \<le> 128 \<longrightarrow> count_bits_v6 (netmask_v6 n) = of_nat n)"
proof (intro conjI impI)
  show v4: "count_bits_v4 w = of_nat (leading_ones w)" for w by (simp add: count_bits_v4_def strip_ones_eq)
  show "count_bits_v4 (netmask_v4 n) = of_nat n" if "n \<le> 32"
    using leading_netmask [where ?'a = 32, of n] that by (simp add: v4 netmask_v4_def)
  show "count_bits_v6 (netmask_v6 n) = of_nat n" if "n \<le> 128"
    using that unfolding count_bits_v6_def netmask_v6_def by (simp add: count_bits_netmask sum_byte_bits del: of_nat_min upt_rec_numeral)
qed

theorem prefix_length_counts_witness:
  "count_bits_v4 0xFFFFFF00 = 24 \<and> count_bits_v6 (netmask_v6 64) = 64"
proof -
  have "netmask_v4 24 = 0xFFFFFF00" by code_simp
  with prefix_length_counts [of 0 24] prefix_length_counts [of 0 64] show ?thesis by simp
qed

section \<open>What the BSD loop does\<close>

text \<open>The message at which the loop stays: an interface that is up, fits, and is not allowed.\<close>

definition rt_stays :: "rtmsg \<Rightarrow> ifmon_iface list \<Rightarrow> bool" where
  "rt_stays m l = (case m of
     RtIfInfo up idx link \<Rightarrow> up \<and> length l < IFMON_MAX_INTERFACES \<and> \<not> is_iface_allowed (if_name (rt_iface idx link))
   | _ \<Rightarrow> False)"

text \<open>What a message adds to the snapshot, and the scan that moves on after every message.\<close>

definition rt_note :: "rtmsg \<Rightarrow> ifmon_iface list \<Rightarrow> ifmon_iface list" where
  "rt_note m l = (case m of
     RtIfInfo up idx link \<Rightarrow>
       if up \<and> length l < IFMON_MAX_INTERFACES \<and> is_iface_allowed (if_name (rt_iface idx link)) then l @ [rt_iface idx link] else l
   | RtNewAddr idx addr nmask \<Rightarrow> rt_addr idx addr nmask l
   | _ \<Rightarrow> l)"

fun rt_scan_spec :: "rtmsg list \<Rightarrow> ifmon_iface list \<Rightarrow> ifmon_iface list option" where
  "rt_scan_spec [] l = Some l"
| "rt_scan_spec (m # ms) l =
     (if m = RtEnd then Some l else if rt_stays m l then None else rt_scan_spec ms (rt_note m l))"

lemma rt_scan_step:
  "m \<noteq> RtEnd \<Longrightarrow> \<not> rt_stays m l \<Longrightarrow> rt_scan (m # ms) l = rt_scan ms (rt_note m l)"
  by (subst rt_scan.simps) (auto simp: rt_stays_def rt_note_def split: rtmsg.splits)

lemma rt_scan_stays:
  assumes "rt_stays m l"
  shows "rt_scan (m # ms) l = None"
proof (rule ccontr)
  assume "rt_scan (m # ms) l \<noteq> None"
  then obtain r where run: "rt_scan (m # ms) l = Some r" by auto
  let ?P = "\<lambda>(ms' :: rtmsg list) (l' :: ifmon_iface list) (r :: ifmon_iface list). ms' = m # ms \<longrightarrow> l' = l \<longrightarrow> False"
  have "?P (m # ms) l r"
    by (rule rt_scan.raw_induct [where P = ?P, OF _ run])
      (use assms in \<open>auto simp: rt_stays_def split: rtmsg.splits list.splits if_splits\<close>)
  then show False by simp
qed

lemma rt_scan_eq: "rt_scan ms l = rt_scan_spec ms l"
proof (induction ms arbitrary: l)
  case Nil
  show ?case by (subst rt_scan.simps) simp
next
  case (Cons m ms)
  show ?case
  proof (cases "m = RtEnd")
    case True
    then show ?thesis by (subst rt_scan.simps) simp
  next
    case False
    with Cons.IH show ?thesis by (cases "rt_stays m l") (simp_all add: rt_scan_stays rt_scan_step)
  qed
qed

lemma rt_iface_addrs [simp]: "if_addrs (rt_iface idx link) = []"
  by (simp add: rt_iface_def split: option.splits)

lemma rt_note_ok: "snapshot_ok l \<Longrightarrow> snapshot_ok (rt_note m l)"
  by (auto simp: rt_note_def rt_addr_def snapshot_ok_def iface_ok_def dest!: find_index_SomeD set_update_subset_insert [THEN subsetD]
      split: rtmsg.splits option.splits)

lemma rt_scan_spec_ok: "rt_scan_spec ms l = Some l' \<Longrightarrow> snapshot_ok l \<Longrightarrow> snapshot_ok l'"
  by (induction ms arbitrary: l) (auto simp: rt_note_ok split: if_splits)

lemma rt_stays_iff:
  "rt_stays m l \<longleftrightarrow> (\<exists>idx link. m = RtIfInfo True idx link \<and> length l < IFMON_MAX_INTERFACES \<and> \<not> is_iface_allowed (if_name (rt_iface idx link)))"
  by (cases m) (auto simp: rt_stays_def)

text \<open>The loop hangs at the first message at which it stays.\<close>

lemma rt_scan_spec_None:
  "rt_scan_spec ms l = None \<longleftrightarrow>
     (\<exists>pre m post l'. ms = pre @ m # post \<and> RtEnd \<notin> set pre \<and> rt_scan_spec pre l = Some l' \<and> rt_stays m l')"
proof (induction ms arbitrary: l)
  case (Cons m ms)
  show ?case
  proof (cases "m = RtEnd \<or> rt_stays m l")
    case True
    then show ?thesis
      by (auto simp: rt_stays_iff Cons_eq_append_conv split: if_splits intro!: exI [of _ "[]"])
  next
    case False
    let ?hang = "\<lambda>ms l pre m post l'. ms = pre @ m # post \<and> RtEnd \<notin> set pre \<and> rt_scan_spec pre l = Some l' \<and> rt_stays m l'"
    have "(\<exists>pre m' post l'. ?hang (m # ms) l pre m' post l') \<longleftrightarrow> (\<exists>pre m' post l'. ?hang ms (rt_note m l) pre m' post l')"
    proof
      assume "\<exists>pre m' post l'. ?hang (m # ms) l pre m' post l'"
      then obtain pre m' post l' where h: "?hang (m # ms) l pre m' post l'" by blast
      with False obtain pre' where "pre = m # pre'" by (cases pre) auto
      with h False have "?hang ms (rt_note m l) pre' m' post l'" by simp
      then show "\<exists>pre m' post l'. ?hang ms (rt_note m l) pre m' post l'" by blast
    next
      assume "\<exists>pre m' post l'. ?hang ms (rt_note m l) pre m' post l'"
      then obtain pre m' post l' where "?hang ms (rt_note m l) pre m' post l'" by blast
      with False have "?hang (m # ms) l (m # pre) m' post l'" by auto
      then show "\<exists>pre m' post l'. ?hang (m # ms) l pre m' post l'" by blast
    qed
    with False Cons.IH [of "rt_note m l"] show ?thesis by simp
  qed
qed simp

text \<open>
  C40. The BSD snapshot either respects its bounds or never comes. The loop fails to return exactly
  if somewhere in the messages, with fewer than 16 interfaces taken from those before it,
  there is an interface that is up but excluded; the loopback interface \<^verbatim>\<open>lo0\<close> is one. What it returns has at most 16
  allowed interfaces with at most 16 addresses, each with a prefix length.
\<close>

theorem bsd_snapshot_bounded_or_hangs:
  "(bsd_list_get (Some ms) = None \<longleftrightarrow>
     (\<exists>pre idx link post l. ms = pre @ RtIfInfo True idx link # post \<and> RtEnd \<notin> set pre \<and>
        bsd_list_get (Some pre) = Some (Some l) \<and> length l < 16 \<and> \<not> is_iface_allowed (if_name (rt_iface idx link)))) \<and>
   \<not> is_iface_allowed (if_name (rt_iface lo (Some (chars ''lo0'', mac)))) \<and>
   (case bsd_list_get (Some ms) of
      None \<Rightarrow> True
    | Some None \<Rightarrow> False
    | Some (Some l) \<Rightarrow> length l \<le> 16 \<and> list_all (\<lambda>i. is_iface_allowed (if_name i) \<and> length (if_addrs i) \<le> 16 \<and>
        list_all (\<lambda>a. ia_prefix_len a \<noteq> 0) (if_addrs i)) l)"
proof (intro conjI)
  have g: "bsd_list_get (Some ms) = map_option (\<lambda>l. Some (map fill_prefix l)) (rt_scan_spec ms [])" for ms
    by (simp add: bsd_list_get_def rt_scan_eq split: option.splits)
  show "bsd_list_get (Some ms) = None \<longleftrightarrow>
     (\<exists>pre idx link post l. ms = pre @ RtIfInfo True idx link # post \<and> RtEnd \<notin> set pre \<and>
        bsd_list_get (Some pre) = Some (Some l) \<and> length l < 16 \<and> \<not> is_iface_allowed (if_name (rt_iface idx link)))"
    unfolding g by (auto simp: rt_scan_spec_None [of ms] rt_stays_iff IFMON_MAX_INTERFACES_def) fastforce+
  have "cstr_of (take 63 (chars ''lo0'')) = chars ''lo0''" "\<not> is_iface_allowed (chars ''lo0'')" by code_simp+
  then show "\<not> is_iface_allowed (if_name (rt_iface lo (Some (chars ''lo0'', mac))))" by (simp add: rt_iface_def)
  show "case bsd_list_get (Some ms) of
      None \<Rightarrow> True
    | Some None \<Rightarrow> False
    | Some (Some l) \<Rightarrow> length l \<le> 16 \<and> list_all (\<lambda>i. is_iface_allowed (if_name i) \<and> length (if_addrs i) \<le> 16 \<and>
        list_all (\<lambda>a. ia_prefix_len a \<noteq> 0) (if_addrs i)) l"
  proof (cases "rt_scan_spec ms []")
    case None
    then show ?thesis by (simp add: g)
  next
    case (Some l)
    then have "snapshot_ok l" by (rule rt_scan_spec_ok) (simp add: snapshot_ok_def)
    then have "length l \<le> 16" "\<forall>i \<in> set l. iface_ok (fill_prefix i)"
      by (auto simp: snapshot_ok_def IFMON_MAX_INTERFACES_def intro: fill_prefix_ok)
    then show ?thesis using Some fill_prefix_nonzero
      by (auto simp: g list_all_iff iface_ok_def IFMON_MAX_IPS_PER_IFACE_def)
  qed
qed

section \<open>What the Windows loop does\<close>

lemma add_unicast_length: "length as \<le> IFMON_MAX_IPS_PER_IFACE \<Longrightarrow> length (fold add_unicast us as) \<le> IFMON_MAX_IPS_PER_IFACE"
  by (induction us arbitrary: as) (auto simp: add_unicast_def split: option.splits)

lemma add_adapter_ok: "snapshot_ok l \<Longrightarrow> snapshot_ok (add_adapter a l)"
  using add_unicast_length [of "[]" "ad_unicast a"] by (auto simp: add_adapter_def snapshot_ok_def iface_ok_def Let_def)

lemma win_list_get_ok: "win_list_get sys = Some l \<Longrightarrow> snapshot_ok l"
proof -
  have "snapshot_ok (fold add_adapter as l)" if "snapshot_ok l" for as l
    using that by (induction as arbitrary: l) (simp_all add: add_adapter_ok)
  moreover have "snapshot_ok []" by (simp add: snapshot_ok_def)
  moreover assume "win_list_get sys = Some l"
  ultimately show ?thesis by (auto simp: win_list_get_def)
qed

text \<open>Applying what the callback reports gives the addresses of the snapshot kept.\<close>

lemma windows_callback_tracks:
  assumes "snapshot_ok prev" and "distinct (map if_index prev)" and "\<forall>cur. win_list_get sys = Some cur \<longrightarrow> distinct (map if_index cur)"
    and "windows_callback sys prev = (prev', rep)"
  shows "(case rep of None \<Rightarrow> prev' = prev | Some up \<Rightarrow> patch up (addrs_at prev) = addrs_at prev') \<and> snapshot_ok prev'"
proof (cases "win_list_get sys")
  case None
  with assms show ?thesis by (auto simp: windows_callback_def)
next
  case (Some cur)
  with update_patches [OF assms(1) win_list_get_ok [OF Some] assms(2)] win_list_get_ok [OF Some] assms show ?thesis
    by (auto simp: windows_callback_def Let_def split: if_splits)
qed

text \<open>
  The critical section is created and deleted in pairs: a watcher that runs owns one, a failed start and a
  start followed by a stop leave none behind. A stop after a failed start deletes one too many.
\<close>

lemma win_watch_lock_balance:
  fixes locks :: "'w \<Rightarrow> int"
  assumes "\<forall>w. locks (wi_init_lock K w) = locks w + 1" "\<forall>w. locks (wi_delete_lock K w) = locks w - 1"
    and "\<forall>w. locks (snd (wi_adapters K w)) = locks w" "\<forall>w. locks (snd (wi_notify K w)) = locks w"
    and "\<forall>h w. locks (wi_cancel K h w) = locks w" "\<forall>up w. locks (cb up w) = locks w"
    and "win_watch_start K cb w = (ok, wt, w')"
  shows "locks w' = (if ok then locks w + 1 else locks w)" "locks (win_watch_stop K wt w') = (if ok then locks w else locks w - 1)"
proof -
  obtain sys w1 where 1: "wi_adapters K (wi_init_lock K w) = (sys, w1)" by force
  then have l1: "locks w1 = locks w + 1" using assms(1,3) by (metis snd_conv)
  let ?w2 = "case win_list_get sys of None \<Rightarrow> w1 | Some l \<Rightarrow> cb (generate_update [] l True) w1"
  obtain r h w3 where 3: "wi_notify K ?w2 = ((r, h), w3)" by (metis surj_pair)
  then have "locks w3 = locks ?w2" using assms(4) by (metis snd_conv)
  with l1 assms(6) have l3: "locks w3 = locks w + 1" by (auto split: option.splits)
  have "ok = r \<and> w' = (if r then w3 else wi_delete_lock K w3)"
    using assms(7) 1 3 by (auto simp: win_watch_start_def split: option.splits if_splits)
  with l3 assms(2) show s: "locks w' = (if ok then locks w + 1 else locks w)" by simp
  have "locks (win_watch_stop K wt w') = locks w' - 1" using assms(2,5) by (simp add: win_watch_stop_def split: option.split)
  with s show "locks (win_watch_stop K wt w') = (if ok then locks w else locks w - 1)" by simp
qed

end
