(* ===== verification/Sockets.thy ===== *)
theory Sockets
  imports Loops
begin

text \<open>
  The operating-system calls of the local data pipe and the reading and writing loops around them:
  \<^verbatim>\<open>read_exact_timeout\<close> and \<^verbatim>\<open>write_exact_timeout\<close> of \<^verbatim>\<open>data_uds.c\<close>,
  \<^verbatim>\<open>read_exact\<close> of \<^verbatim>\<open>tund.c\<close>. The system is the parameter record \<open>os\<close> over an opaque
  world. What the callers rely on is stated by \<open>in_stream\<close> and \<open>out_stream\<close>: a descriptor is a byte
  stream, and a call is interrupted only finitely often (\<open>pat\<close> counts the interruptions left).
\<close>

section \<open>System calls\<close>

text \<open>\<^verbatim>\<open>EWOULDBLOCK\<close> is \<^verbatim>\<open>EAGAIN\<close> on the supported hosts.\<close>

datatype errno = EINTR | EAGAIN | EOTHER

text \<open>
  \<open>os_poll1 fd inp\<close> waits 10 ms for one descriptor to be readable (\<open>inp\<close>) or writable; \<open>Inr False\<close> is
  the timeout. \<open>os_poll fds timeout\<close> returns the number of descriptors with an event and, for each, whether
  it is readable; the flag of a descriptor says whether it is watched for input.
\<close>

record 'w os =
  os_read :: "int \<Rightarrow> nat \<Rightarrow> 'w \<Rightarrow> (errno + bytes) \<times> 'w"
  os_write :: "int \<Rightarrow> bytes \<Rightarrow> 'w \<Rightarrow> (errno + nat) \<times> 'w"
  os_poll1 :: "int \<Rightarrow> bool \<Rightarrow> 'w \<Rightarrow> (errno + bool) \<times> 'w"
  os_poll :: "(int \<times> bool) list \<Rightarrow> int \<Rightarrow> 'w \<Rightarrow> (errno + nat \<times> bool list) \<times> 'w"
  os_accept :: "int \<Rightarrow> 'w \<Rightarrow> int option \<times> 'w"
  os_nonblock :: "int \<Rightarrow> 'w \<Rightarrow> 'w"
  os_shutdown :: "int \<Rightarrow> 'w \<Rightarrow> 'w"
  os_close :: "int \<Rightarrow> 'w \<Rightarrow> 'w"
  os_socket :: "'w \<Rightarrow> int option \<times> 'w"
  os_unlink :: "cstr \<Rightarrow> 'w \<Rightarrow> 'w"
  os_bind :: "int \<Rightarrow> cstr \<Rightarrow> 'w \<Rightarrow> bool \<times> 'w"
  os_listen :: "int \<Rightarrow> 'w \<Rightarrow> bool \<times> 'w"
  os_connect :: "int \<Rightarrow> cstr \<Rightarrow> 'w \<Rightarrow> bool \<times> 'w"

section \<open>Loops\<close>

text \<open>The result of a read is the success flag, the bytes read so far and the world.\<close>

partial_function (option) read_exact_timeout ::
  "'w os \<Rightarrow> int \<Rightarrow> nat \<Rightarrow> bytes \<Rightarrow> 'w \<Rightarrow> (bool \<times> bytes \<times> 'w) option" where
  "read_exact_timeout os fd want buf w =
     (if want \<le> length buf then Some (True, buf, w)
      else case os_read os fd (want - length buf) w of
             (Inl e, w1) \<Rightarrow>
               if e = EINTR then read_exact_timeout os fd want buf w1
               else if e = EAGAIN then
                 (let (p, w2) = os_poll1 os fd True w1 in
                  if p = Inr True \<or> p = Inl EINTR then read_exact_timeout os fd want buf w2
                  else Some (False, buf, w2))
               else Some (False, buf, w1)
           | (Inr bs, w1) \<Rightarrow>
               if bs = [] then Some (False, buf, w1)
               else read_exact_timeout os fd want (buf @ bs) w1)"

partial_function (option) write_exact_timeout ::
  "'w os \<Rightarrow> int \<Rightarrow> bytes \<Rightarrow> nat \<Rightarrow> 'w \<Rightarrow> (bool \<times> 'w) option" where
  "write_exact_timeout os fd buf written w =
     (if length buf \<le> written then Some (True, w)
      else case os_write os fd (drop written buf) w of
             (Inl e, w1) \<Rightarrow>
               if e = EINTR then write_exact_timeout os fd buf written w1
               else if e = EAGAIN then
                 (let (p, w2) = os_poll1 os fd False w1 in
                  if p = Inr True \<or> p = Inl EINTR then write_exact_timeout os fd buf written w2
                  else Some (False, w2))
               else Some (False, w1)
           | (Inr n, w1) \<Rightarrow> write_exact_timeout os fd buf (written + n) w1)"

text \<open>The blocking variants of the tunnel helper.\<close>

partial_function (option) read_exact ::
  "'w os \<Rightarrow> int \<Rightarrow> nat \<Rightarrow> bytes \<Rightarrow> 'w \<Rightarrow> (bool \<times> bytes \<times> 'w) option" where
  "read_exact os fd want buf w =
     (if want \<le> length buf then Some (True, buf, w)
      else case os_read os fd (want - length buf) w of
             (Inl e, w1) \<Rightarrow>
               if e = EINTR then read_exact os fd want buf w1 else Some (False, buf, w1)
           | (Inr bs, w1) \<Rightarrow>
               if bs = [] then Some (False, buf, w1)
               else read_exact os fd want (buf @ bs) w1)"

partial_function (option) write_exact :: "'w os \<Rightarrow> int \<Rightarrow> bytes \<Rightarrow> nat \<Rightarrow> 'w \<Rightarrow> (bool \<times> 'w) option" where
  "write_exact os fd buf written w =
     (if length buf \<le> written then Some (True, w)
      else case os_write os fd (drop written buf) w of
             (Inl e, w1) \<Rightarrow> if e = EINTR then write_exact os fd buf written w1 else Some (False, w1)
           | (Inr n, w1) \<Rightarrow> write_exact os fd buf (written + n) w1)"

declare read_exact_timeout.simps [code]
declare write_exact_timeout.simps [code]
declare read_exact.simps [code]
declare write_exact.simps [code]

section \<open>Byte streams\<close>

text \<open>
  \<open>avail w\<close> is what can still be read from \<open>fd\<close>. A read returns a non-empty piece of it while there
  is any, at most as much as was asked for, or an error that leaves it alone; while there is data,
  waiting for input does not time out.
\<close>

definition in_stream :: "'w os \<Rightarrow> int \<Rightarrow> ('w \<Rightarrow> bytes) \<Rightarrow> ('w \<Rightarrow> nat) \<Rightarrow> bool" where
  "in_stream os fd avail pat \<longleftrightarrow>
     (\<forall>n w. case os_read os fd n w of
        (Inr bs, w1) \<Rightarrow> length bs \<le> n \<and> avail w = bs @ avail w1 \<and> pat w1 \<le> pat w \<and> (0 < n \<and> avail w \<noteq> [] \<longrightarrow> bs \<noteq> [])
      | (Inl e, w1) \<Rightarrow> avail w1 = avail w \<and> pat w1 < pat w \<and> e \<noteq> EOTHER) \<and>
     (\<forall>w. case os_poll1 os fd True w of
        (r, w1) \<Rightarrow> avail w1 = avail w \<and> pat w1 \<le> pat w \<and> (avail w \<noteq> [] \<longrightarrow> r = Inr True \<or> r = Inl EINTR))"

lemma in_stream_read:
  assumes "in_stream os fd avail pat"
  shows "os_read os fd n w = (Inr bs, w1) \<Longrightarrow>
      length bs \<le> n \<and> avail w = bs @ avail w1 \<and> pat w1 \<le> pat w \<and> (0 < n \<and> avail w \<noteq> [] \<longrightarrow> bs \<noteq> [])"
    and "os_read os fd n w = (Inl e, w1) \<Longrightarrow> avail w1 = avail w \<and> pat w1 < pat w \<and> e \<noteq> EOTHER"
    and "os_poll1 os fd True w = (r, w1) \<Longrightarrow>
      avail w1 = avail w \<and> pat w1 \<le> pat w \<and> (avail w \<noteq> [] \<longrightarrow> r = Inr True \<or> r = Inl EINTR)"
  using assms by (fastforce simp: in_stream_def split: prod.splits sum.splits)+

text \<open>
  A loop that returns once it has \<open>want\<close> bytes and otherwise takes a piece from the stream or uses up
  an interruption gets exactly the bytes asked for, in order, and leaves the rest.
\<close>

lemma reading_loop_gets:
  fixes loop :: "bytes \<Rightarrow> 'w \<Rightarrow> (bool \<times> bytes \<times> 'w) option" and pat :: "'w \<Rightarrow> nat"
  assumes full: "\<And>buf w. want \<le> length buf \<Longrightarrow> loop buf w = Some (True, buf, w)"
    and turn: "\<And>buf w. length buf < want \<Longrightarrow> avail w \<noteq> [] \<Longrightarrow> \<exists>bs v. loop buf w = loop (buf @ bs) v \<and>
      avail w = bs @ avail v \<and> length bs \<le> want - length buf \<and> pat v \<le> pat w \<and> (bs = [] \<longrightarrow> pat v < pat w)"
  shows "length buf \<le> want \<Longrightarrow> want \<le> length buf + length (avail w) \<Longrightarrow>
    \<exists>w'. loop buf w = Some (True, buf @ take (want - length buf) (avail w), w') \<and>
      avail w' = drop (want - length buf) (avail w) \<and> pat w' \<le> pat w"
proof (induction "want - length buf + pat w" arbitrary: buf w rule: less_induct)
  case less
  show ?case
  proof (cases "want \<le> length buf")
    case True
    then show ?thesis using less.prems full by simp
  next
    case False
    then have "avail w \<noteq> []" using less.prems by auto
    with turn [of buf w] False obtain bs v where t: "loop buf w = loop (buf @ bs) v" "avail w = bs @ avail v"
      "length bs \<le> want - length buf" "pat v \<le> pat w" "bs = [] \<longrightarrow> pat v < pat w" by auto
    have "want - length (buf @ bs) + pat v < want - length buf + pat w"
    proof (cases "bs = []")
      case False
      then have "0 < length bs" by simp
      with t(3,4) show ?thesis unfolding length_append by linarith
    qed (use t in simp)
    moreover have "length (buf @ bs) \<le> want" "want \<le> length (buf @ bs) + length (avail v)"
      using less.prems t(2,3) by auto
    ultimately obtain w' where
      "loop (buf @ bs) v = Some (True, (buf @ bs) @ take (want - length (buf @ bs)) (avail v), w')"
      "avail w' = drop (want - length (buf @ bs)) (avail v)" "pat w' \<le> pat v" using less.hyps by blast
    with t show ?thesis by auto
  qed
qed

lemma read_exact_timeout_turn:
  assumes "in_stream os fd avail pat" "length buf < want" "avail w \<noteq> []"
  shows "\<exists>bs v. read_exact_timeout os fd want buf w = read_exact_timeout os fd want (buf @ bs) v \<and>
    avail w = bs @ avail v \<and> length bs \<le> want - length buf \<and> pat v \<le> pat w \<and> (bs = [] \<longrightarrow> pat v < pat w)"
proof -
  obtain r w1 where rd: "os_read os fd (want - length buf) w = (r, w1)" by force
  show ?thesis
  proof (cases r)
    case (Inr bs)
    with in_stream_read(1) [OF assms(1) rd [unfolded Inr]] assms(2,3) rd show ?thesis
      by (intro exI [of _ bs] exI [of _ w1]) (simp add: read_exact_timeout.simps [of os fd want buf w])
  next
    case (Inl e)
    note b = in_stream_read(2) [OF assms(1) rd [unfolded Inl]]
    obtain r2 w2 where pl: "os_poll1 os fd True w1 = (r2, w2)" by force
    note c = in_stream_read(3) [OF assms(1) pl]
    have "read_exact_timeout os fd want buf w = read_exact_timeout os fd want buf (if e = EINTR then w1 else w2)"
      using Inl rd pl b c assms(2,3) by (cases e) (auto simp: read_exact_timeout.simps [of os fd want buf w])
    with b c show ?thesis
      by (intro exI [of _ "[]"] exI [of _ "if e = EINTR then w1 else w2"]) auto
  qed
qed

lemma read_exact_timeout_full: "want \<le> length buf \<Longrightarrow> read_exact_timeout os fd want buf w = Some (True, buf, w)"
  by (simp add: read_exact_timeout.simps [of os fd want buf])

lemma read_exact_timeout_gets:
  assumes "in_stream os fd avail pat" "want \<le> length (avail w)"
  obtains w' where "read_exact_timeout os fd want [] w = Some (True, take want (avail w), w')"
    "avail w' = drop want (avail w)" "pat w' \<le> pat w"
  using reading_loop_gets [where loop = "read_exact_timeout os fd want" and want = want and buf = "[]" and w = w,
      OF read_exact_timeout_full read_exact_timeout_turn [OF assms(1)]] assms(2)
  by auto

lemma read_exact_turn:
  assumes "in_stream os fd avail pat" "\<forall>n w. fst (os_read os fd n w) \<noteq> Inl EAGAIN" "length buf < want" "avail w \<noteq> []"
  shows "\<exists>bs v. read_exact os fd want buf w = read_exact os fd want (buf @ bs) v \<and>
    avail w = bs @ avail v \<and> length bs \<le> want - length buf \<and> pat v \<le> pat w \<and> (bs = [] \<longrightarrow> pat v < pat w)"
proof -
  obtain r w1 where rd: "os_read os fd (want - length buf) w = (r, w1)" by force
  show ?thesis
  proof (cases r)
    case (Inr bs)
    with in_stream_read(1) [OF assms(1) rd [unfolded Inr]] assms(3,4) rd show ?thesis
      by (intro exI [of _ bs] exI [of _ w1]) (simp add: read_exact.simps [of os fd want buf w])
  next
    case (Inl e)
    have "e = EINTR" using in_stream_read(2) [OF assms(1) rd [unfolded Inl]] assms(2) rd Inl
      by (metis errno.exhaust fst_conv)
    with in_stream_read(2) [OF assms(1) rd [unfolded Inl]] Inl assms(3) rd show ?thesis
      by (intro exI [of _ "[]"] exI [of _ w1]) (simp add: read_exact.simps [of os fd want buf w])
  qed
qed

lemma read_exact_full: "want \<le> length buf \<Longrightarrow> read_exact os fd want buf w = Some (True, buf, w)"
  by (simp add: read_exact.simps [of os fd want buf])

lemma read_exact_gets:
  assumes "in_stream os fd avail pat" "\<forall>n w. fst (os_read os fd n w) \<noteq> Inl EAGAIN" "want \<le> length (avail w)"
  obtains w' where "read_exact os fd want [] w = Some (True, take want (avail w), w')"
    "avail w' = drop want (avail w)" "pat w' \<le> pat w"
  using reading_loop_gets [where loop = "read_exact os fd want" and want = want and buf = "[]" and w = w,
      OF read_exact_full read_exact_turn [OF assms(1,2)]] assms(3)
  by auto

text \<open>
  \<open>out w\<close> is what has been written to \<open>fd\<close>. A write appends a non-empty prefix of the bytes given, or
  is interrupted; waiting for room does not time out (the peer keeps reading).
\<close>

definition out_stream :: "'w os \<Rightarrow> int \<Rightarrow> ('w \<Rightarrow> bytes) \<Rightarrow> ('w \<Rightarrow> nat) \<Rightarrow> bool" where
  "out_stream os fd out pat \<longleftrightarrow>
     (\<forall>bs w. case os_write os fd bs w of
        (Inr n, w1) \<Rightarrow> n \<le> length bs \<and> out w1 = out w @ take n bs \<and> pat w1 \<le> pat w \<and> (bs \<noteq> [] \<longrightarrow> 0 < n)
      | (Inl e, w1) \<Rightarrow> out w1 = out w \<and> pat w1 < pat w \<and> e \<noteq> EOTHER) \<and>
     (\<forall>w. case os_poll1 os fd False w of
        (r, w1) \<Rightarrow> out w1 = out w \<and> pat w1 \<le> pat w \<and> (r = Inr True \<or> r = Inl EINTR))"

lemma out_stream_write:
  assumes "out_stream os fd out pat"
  shows "os_write os fd bs w = (Inr n, w1) \<Longrightarrow>
      n \<le> length bs \<and> out w1 = out w @ take n bs \<and> pat w1 \<le> pat w \<and> (bs \<noteq> [] \<longrightarrow> 0 < n)"
    and "os_write os fd bs w = (Inl e, w1) \<Longrightarrow> out w1 = out w \<and> pat w1 < pat w \<and> e \<noteq> EOTHER"
    and "os_poll1 os fd False w = (r, w1) \<Longrightarrow> out w1 = out w \<and> pat w1 \<le> pat w \<and> (r = Inr True \<or> r = Inl EINTR)"
  using assms by (fastforce simp: out_stream_def split: prod.splits sum.splits)+

lemma writing_loop_puts:
  fixes loop :: "nat \<Rightarrow> 'w \<Rightarrow> (bool \<times> 'w) option" and pat :: "'w \<Rightarrow> nat"
  assumes full: "\<And>n w. length buf \<le> n \<Longrightarrow> loop n w = Some (True, w)"
    and turn: "\<And>n w. n < length buf \<Longrightarrow> \<exists>k v. loop n w = loop (n + k) v \<and> out v = out w @ take k (drop n buf) \<and>
      k \<le> length buf - n \<and> pat v \<le> pat w \<and> (k = 0 \<longrightarrow> pat v < pat w)"
  shows "\<exists>w'. loop n w = Some (True, w') \<and> out w' = out w @ drop n buf \<and> pat w' \<le> pat w"
proof (induction "length buf - n + pat w" arbitrary: n w rule: less_induct)
  case less
  show ?case
  proof (cases "length buf \<le> n")
    case False
    then obtain k v where t: "loop n w = loop (n + k) v" "out v = out w @ take k (drop n buf)" "k \<le> length buf - n"
      "pat v \<le> pat w" "k = 0 \<longrightarrow> pat v < pat w" using turn [of n w] by auto
    have "length buf - (n + k) + pat v < length buf - n + pat w" using t(3-5) False by (cases "k = 0") auto
    from less.hyps [OF this] obtain w' where "loop (n + k) v = Some (True, w')" "out w' = out v @ drop (n + k) buf"
      "pat w' \<le> pat v" by blast
    moreover have "take k (drop n buf) @ drop (n + k) buf = drop n buf"
      by (metis add.commute append_take_drop_id drop_drop)
    ultimately show ?thesis using t by auto
  qed (simp add: full)
qed

lemma write_exact_timeout_turn:
  assumes str: "out_stream os fd out pat" and n: "n < length buf"
  shows "\<exists>k v. write_exact_timeout os fd buf n w = write_exact_timeout os fd buf (n + k) v \<and> out v = out w @ take k (drop n buf) \<and>
    k \<le> length buf - n \<and> pat v \<le> pat w \<and> (k = 0 \<longrightarrow> pat v < pat w)"
proof -
  obtain r w1 where wr: "os_write os fd (drop n buf) w = (r, w1)" by force
  show ?thesis
  proof (cases r)
    case (Inr k)
    with out_stream_write(1) [OF str wr [unfolded Inr]] n wr show ?thesis
      by (intro exI [of _ k] exI [of _ w1]) (simp add: write_exact_timeout.simps [of os fd buf n w])
  next
    case (Inl e)
    note b = out_stream_write(2) [OF str wr [unfolded Inl]]
    obtain r2 w2 where pl: "os_poll1 os fd False w1 = (r2, w2)" by force
    note c = out_stream_write(3) [OF str pl]
    have "write_exact_timeout os fd buf n w = write_exact_timeout os fd buf n (if e = EINTR then w1 else w2)"
      using Inl wr pl b c n by (cases e) (auto simp: write_exact_timeout.simps [of os fd buf n w])
    with b c show ?thesis by (intro exI [of _ 0] exI [of _ "if e = EINTR then w1 else w2"]) auto
  qed
qed

lemma write_exact_timeout_full: "length buf \<le> n \<Longrightarrow> write_exact_timeout os fd buf n w = Some (True, w)"
  by (simp add: write_exact_timeout.simps [of os fd buf n])

lemma write_exact_timeout_puts:
  assumes "out_stream os fd out pat"
  obtains w' where "write_exact_timeout os fd buf 0 w = Some (True, w')" "out w' = out w @ buf" "pat w' \<le> pat w"
  using writing_loop_puts [where loop = "write_exact_timeout os fd buf" and n = 0 and w = w,
      OF write_exact_timeout_full write_exact_timeout_turn [OF assms]] by auto

lemma write_exact_turn:
  assumes str: "out_stream os fd out pat" and block: "\<forall>bs w. fst (os_write os fd bs w) \<noteq> Inl EAGAIN" and n: "n < length buf"
  shows "\<exists>k v. write_exact os fd buf n w = write_exact os fd buf (n + k) v \<and> out v = out w @ take k (drop n buf) \<and>
    k \<le> length buf - n \<and> pat v \<le> pat w \<and> (k = 0 \<longrightarrow> pat v < pat w)"
proof -
  obtain r w1 where wr: "os_write os fd (drop n buf) w = (r, w1)" by force
  show ?thesis
  proof (cases r)
    case (Inr k)
    with out_stream_write(1) [OF str wr [unfolded Inr]] n wr show ?thesis
      by (intro exI [of _ k] exI [of _ w1]) (simp add: write_exact.simps [of os fd buf n w])
  next
    case (Inl e)
    note b = out_stream_write(2) [OF str wr [unfolded Inl]]
    have "e = EINTR" using b block wr Inl by (metis errno.exhaust fst_conv)
    with b Inl wr n show ?thesis
      by (intro exI [of _ 0] exI [of _ w1]) (simp add: write_exact.simps [of os fd buf n w])
  qed
qed

lemma write_exact_full: "length buf \<le> n \<Longrightarrow> write_exact os fd buf n w = Some (True, w)"
  by (simp add: write_exact.simps [of os fd buf n])

lemma write_exact_puts:
  assumes "out_stream os fd out pat" "\<forall>bs w. fst (os_write os fd bs w) \<noteq> Inl EAGAIN"
  obtains w' where "write_exact os fd buf 0 w = Some (True, w')" "out w' = out w @ buf" "pat w' \<le> pat w"
  using writing_loop_puts [where loop = "write_exact os fd buf" and n = 0 and w = w,
      OF write_exact_full write_exact_turn [OF assms]] by auto

text \<open>Reading leaves alone what the system's reads leave alone.\<close>

lemma read_exact_frame:
  assumes "\<And>n w. f (snd (os_read os fd n w)) = f w"
  shows "read_exact os fd want buf w = Some (ok, bs, w') \<Longrightarrow> f w' = f w"
proof -
  let ?P = "\<lambda>os fd want buf w r. (\<forall>n w. f (snd (os_read os fd n w)) = f w) \<longrightarrow> f (snd (snd r)) = f w"
  have "?P os fd want buf w r" if run: "read_exact os fd want buf w = Some r" for r
  proof (rule read_exact.raw_induct [where P = ?P, OF _ run], rule impI)
    fix rec os fd want buf w r
    assume ih: "\<And>os fd want buf w r. rec os fd want buf w = Some r \<Longrightarrow> ?P os fd want buf w r"
      and body: "(if want \<le> length buf then Some (True, buf, w)
        else case os_read os fd (want - length buf) w of
             (Inl e, w1) \<Rightarrow> if e = EINTR then rec os fd want buf w1 else Some (False, buf, w1)
           | (Inr bs, w1) \<Rightarrow> if bs = [] then Some (False, buf, w1) else rec os fd want (buf @ bs) w1) = Some r"
      and f: "\<forall>n w. f (snd (os_read os fd n w)) = f w"
    obtain x w1 where rd: "os_read os fd (want - length buf) w = (x, w1)" by force
    with f [rule_format, of "want - length buf" w] have w1: "f w1 = f w" by simp
    have again: "f (snd (snd r)) = f w1" if "rec os fd want b w1 = Some r" for b
      using ih [OF that] f by blast
    show "f (snd (snd r)) = f w"
      using body rd w1 again by (auto split: if_splits sum.splits)
  qed
  with assms show "read_exact os fd want buf w = Some (ok, bs, w') \<Longrightarrow> f w' = f w" by force
qed

section \<open>Pipes in memory\<close>

text \<open>
  A system whose descriptors are byte queues and that transfers at most \<open>k\<close> bytes in a call, so that
  with a small \<open>k\<close> a transfer takes several turns of the loops. A pending connection on the listener 3
  becomes the descriptor 7. Descriptors from
  100 on are packet devices: a read takes one packet, a write puts one; only device 100 has packets to read.
\<close>

record pipes =
  pp_in :: "int \<Rightarrow> bytes"
  pp_out :: "int \<Rightarrow> bytes"
  pp_pending :: bool
  pp_rx :: "bytes list"
  pp_tx :: "bytes list"
  pp_log :: "string list"

definition pipe_os :: "nat \<Rightarrow> pipes os" where
  "pipe_os k = \<lparr>
     os_read = (\<lambda>fd n w.
       if fd = 100 then (Inr (if pp_rx w = [] then [] else take n (hd (pp_rx w))), w\<lparr>pp_rx := tl (pp_rx w)\<rparr>)
       else (Inr (take (min n k) (pp_in w fd)), w\<lparr>pp_in := (pp_in w)(fd := drop (min n k) (pp_in w fd))\<rparr>)),
     os_write = (\<lambda>fd bs w.
       if 100 \<le> fd then (Inr (length bs), w\<lparr>pp_tx := pp_tx w @ [bs]\<rparr>)
       else (Inr (min (length bs) k), w\<lparr>pp_out := (pp_out w)(fd := pp_out w fd @ take k bs)\<rparr>)),
     os_poll1 = (\<lambda>fd inp w. (Inr (inp \<longrightarrow> pp_in w fd \<noteq> []), w)),
     os_poll = (\<lambda>fds ms w.
       let rs = map (\<lambda>(fd, inp). inp \<and> (if 100 \<le> fd then fd = 100 \<and> pp_rx w \<noteq> [] else pp_in w fd \<noteq> [] \<or> fd = 3 \<and> pp_pending w)) fds in
       (Inr (count_true rs, rs), w)),
     os_accept = (\<lambda>fd w. (if pp_pending w then Some (fd + 4) else None, w\<lparr>pp_pending := False\<rparr>)),
     os_nonblock = (\<lambda>fd w. w),
     os_shutdown = (\<lambda>fd w. w\<lparr>pp_log := ''shutdown'' # pp_log w\<rparr>),
     os_close = (\<lambda>fd w. w\<lparr>pp_log := ''close'' # pp_log w\<rparr>),
     os_socket = (\<lambda>w. (Some 3, w)),
     os_unlink = (\<lambda>path w. w\<lparr>pp_log := ''unlink'' # pp_log w\<rparr>),
     os_bind = (\<lambda>fd path w. (True, w)),
     os_listen = (\<lambda>fd w. (True, w)),
     os_connect = (\<lambda>fd path w. (True, w))\<rparr>"

lemma pipe_in_stream: "0 < k \<Longrightarrow> fd < 100 \<Longrightarrow> in_stream (pipe_os k) fd (\<lambda>w. pp_in w fd) (\<lambda>_. 0)"
  by (auto simp: in_stream_def pipe_os_def Let_def)

lemma pipe_out_stream: "0 < k \<Longrightarrow> fd < 100 \<Longrightarrow> out_stream (pipe_os k) fd (\<lambda>w. pp_out w fd) (\<lambda>_. 0)"
  by (auto simp: out_stream_def pipe_os_def min_def)

end
