(* ===== verification/Data_Uds.thy ===== *)
theory Data_Uds
  imports Wire Sockets "HOL-Library.Monad_Syntax"
begin

text \<open>
  The local data pipe (\<^verbatim>\<open>data_uds.c\<close>): a Unix-domain listener with a table of at most 16 helper
  processes, each registered for one track. The operating system is the parameter \<open>os\<close> over the
  world \<open>'w\<close>; the owner's callbacks act on a state \<open>'s\<close> of its own. \<open>None\<close> is a call that does not
  return, \<open>Some (Inl fault)\<close> one that leaves an object's bounds.
\<close>

section \<open>State\<close>

definition MAX_UDS_CLIENTS :: nat where "MAX_UDS_CLIENTS = 16"

record uds_client =
  uc_fd :: int
  uc_track :: moq_track_id
  uc_active :: bool

text \<open>
  The payload buffer is scratch space: a payload is complete in it before it is used, so only its
  capacity is kept.
\<close>

record data_uds =
  du_listen_fd :: int
  du_socket_name :: cstr
  du_clients :: "uds_client list"
  du_payload_cap :: nat

section \<open>Creation and destruction\<close>

text \<open>\<^verbatim>\<open>snprintf (sun_path, 108, "/tmp/%s.sock", name)\<close>.\<close>

definition setup_uds_addr :: "cstr \<Rightarrow> cstr" where
  "setup_uds_addr name = take 107 ([47, 116, 109, 112, 47] @ name @ [46, 115, 111, 99, 107])"

definition data_uds_create :: "'w os \<Rightarrow> cstr \<Rightarrow> 'w \<Rightarrow> data_uds option \<times> 'w" where
  "data_uds_create os name w =
     (case os_socket os w of
        (None, w1) \<Rightarrow> (None, w1)
      | (Some fd, w1) \<Rightarrow>
          let w2 = os_unlink os (setup_uds_addr name) (os_nonblock os fd w1);
              (bound, w3) = os_bind os fd (setup_uds_addr name) w2
          in if \<not> bound then (None, os_close os fd w3)
             else let (listening, w4) = os_listen os fd w3
                  in if \<not> listening then (None, os_close os fd w4)
                     else (Some \<lparr>du_listen_fd = fd, du_socket_name = cstr_copy 128 name,
                             du_clients = replicate MAX_UDS_CLIENTS \<lparr>uc_fd = 0, uc_track = zero_track, uc_active = False\<rparr>,
                             du_payload_cap = 0\<rparr>, w4))"

definition data_uds_destroy :: "'w os \<Rightarrow> data_uds \<Rightarrow> 'w \<Rightarrow> 'w" where
  "data_uds_destroy os d w =
     (let w1 = fold (\<lambda>c w. if uc_active c then os_close os (uc_fd c) (os_shutdown os (uc_fd c) w) else w)
                 (du_clients d) w;
          w2 = os_close os (du_listen_fd d) (os_shutdown os (du_listen_fd d) w1)
      in os_unlink os (setup_uds_addr (du_socket_name d)) w2)"

section \<open>Sending\<close>

definition client_fd :: "(uds_client \<Rightarrow> bool) \<Rightarrow> data_uds \<Rightarrow> int" where
  "client_fd P d = (case find_index (\<lambda>c. uc_active c \<and> P c) (du_clients d) of
     Some i \<Rightarrow> uc_fd (du_clients d ! i) | None \<Rightarrow> -1)"

definition send_target :: "moq_track_id \<Rightarrow> data_uds \<Rightarrow> int" where
  "send_target track d =
     (let fd = client_fd (\<lambda>c. tk_type (uc_track c) = tk_type track \<and> tk_name (uc_track c) = tk_name track) d
      in if fd = -1 \<and> tk_type track = MOQ_TRACK_DATA
         then client_fd (\<lambda>c. tk_type (uc_track c) = MOQ_TRACK_DATA) d else fd)"

definition data_uds_send ::
  "'w os \<Rightarrow> data_uds option \<Rightarrow> moq_track_id \<Rightarrow> bytes \<Rightarrow> u8 \<Rightarrow> 'w \<Rightarrow> (bool \<times> 'w) option" where
  "data_uds_send os dp track buf priority w =
     (case dp of None \<Rightarrow> Some (False, w)
      | Some d \<Rightarrow>
         let fd = send_target track d in
         if fd = -1 then Some (False, w)
         else do {
           (ok1, w1) \<leftarrow> write_exact_timeout os fd (le_bytes 4 (length buf)) 0 w;
           if \<not> ok1 then Some (False, w1) else do {
             (ok2, w2) \<leftarrow> write_exact_timeout os fd [priority] 0 w1;
             if \<not> ok2 then Some (False, w2)
             else write_exact_timeout os fd buf 0 w2
           }
         })"

section \<open>Accepting a helper\<close>

text \<open>
  The helper's name is read into \<^verbatim>\<open>char name[64]\<close> before its length is cut to 63: reading more
  than 64 bytes leaves the array, whether or not the rest of the name arrives.
\<close>

definition register_client :: "'w os \<Rightarrow> int \<Rightarrow> bytes \<Rightarrow> bytes \<Rightarrow> data_uds \<Rightarrow> 'w \<Rightarrow> data_uds \<times> 'w" where
  "register_client os fd hdr name d w =
     (case find_index (\<lambda>c. \<not> uc_active c) (du_clients d) of
        None \<Rightarrow> (d, os_close os fd w)
      | Some slot \<Rightarrow>
          (d\<lparr>du_clients := (du_clients d)[slot := \<lparr>uc_fd = fd,
               uc_track = \<lparr>tk_type = ucast (hdr ! 0), tk_flags = hdr ! 1, tk_name = cstr_of (take 63 name)\<rparr>,
               uc_active = True\<rparr>]\<rparr>, w))"

definition accept_client :: "'w os \<Rightarrow> data_uds \<Rightarrow> 'w \<Rightarrow> (fault + data_uds \<times> 'w) option" where
  "accept_client os d w =
     (case os_accept os (du_listen_fd d) w of
        (None, w1) \<Rightarrow> Some (Inr (d, w1))
      | (Some fd, w1) \<Rightarrow> do {
          (ok, hdr, w2) \<leftarrow> read_exact_timeout os fd 3 [] (os_nonblock os fd w1);
          if \<not> ok then Some (Inr (d, os_close os fd w2))
          else do {
            (ok', name, w3) \<leftarrow> read_exact_timeout os fd (unat (hdr ! 2)) [] w2;
            if 64 < length name then Some (Inl OutOfBounds)
            else if \<not> ok' then Some (Inr (d, os_close os fd w3))
            else Some (Inr (register_client os fd hdr name d w3))
          }
        })"

section \<open>Serving a helper\<close>

text \<open>One frame from a helper; the result is \<open>None\<close> inside when the helper has gone.\<close>

definition read_frame ::
  "'w os \<Rightarrow> int \<Rightarrow> nat \<Rightarrow> 'w \<Rightarrow> ((u8 \<times> bytes) option \<times> nat \<times> 'w) option" where
  "read_frame os fd cap w = do {
     (ok1, sz, w1) \<leftarrow> read_exact_timeout os fd 4 [] w;
     if \<not> ok1 then Some (None, cap, w1) else do {
       (ok2, pr, w2) \<leftarrow> read_exact_timeout os fd 1 [] w1;
       if \<not> ok2 then Some (None, cap, w2)
       else if le_val sz = 0 then Some (Some (pr ! 0, []), cap, w2)
       else do {
         (ok3, payload, w3) \<leftarrow> read_exact_timeout os fd (le_val sz) [] w2;
         Some (if ok3 then Some (pr ! 0, payload) else None, max cap (le_val sz), w3)
       }
     }
   }"

definition serve_client ::
  "'w os \<Rightarrow> (moq_track_id \<Rightarrow> bytes \<Rightarrow> u8 \<Rightarrow> 's \<Rightarrow> fault + 's) \<Rightarrow> nat \<Rightarrow> data_uds \<times> 's \<times> 'w \<Rightarrow>
   (fault + data_uds \<times> 's \<times> 'w) option" where
  "serve_client os cb idx = (\<lambda>(d, s, w).
     let c = du_clients d ! idx;
         fd = (if uc_active c then uc_fd c else -1)
     in if fd = -1 then Some (Inr (d, s, w))
        else do {
          (fr, cap, w1) \<leftarrow> read_frame os fd (du_payload_cap d) w;
          let d1 = d\<lparr>du_payload_cap := cap\<rparr>;
          Some (case fr of
              None \<Rightarrow> Inr (d1\<lparr>du_clients := (du_clients d)[idx := c\<lparr>uc_active := False\<rparr>]\<rparr>, s, os_close os fd w1)
            | Some (priority, payload) \<Rightarrow>
                if payload = [] then Inr (d1, s, w1)
                else bindf (cb (uc_track c) payload priority s) (\<lambda>s'. Inr (d1, s', w1)))
        })"

section \<open>One tick\<close>

definition poll_indices :: "data_uds \<Rightarrow> nat list" where
  "poll_indices d = filter (\<lambda>i. uc_active (du_clients d ! i)) [0..<length (du_clients d)]"

definition poll_set ::
  "(moq_track_id \<Rightarrow> 's \<Rightarrow> bool) option \<Rightarrow> data_uds \<Rightarrow> 's \<Rightarrow> (int \<times> bool) list" where
  "poll_set is_ready_cb d s = (du_listen_fd d, True) #
     map (\<lambda>i. let c = du_clients d ! i in
          (uc_fd c, case is_ready_cb of None \<Rightarrow> True | Some rdy \<Rightarrow> rdy (uc_track c) s)) (poll_indices d)"

fun serve_clients ::
  "'w os \<Rightarrow> (moq_track_id \<Rightarrow> bytes \<Rightarrow> u8 \<Rightarrow> 's \<Rightarrow> fault + 's) \<Rightarrow> nat list \<Rightarrow> data_uds \<times> 's \<times> 'w \<Rightarrow>
   (fault + data_uds \<times> 's \<times> 'w) option" where
  "serve_clients os cb [] x = Some (Inr x)"
| "serve_clients os cb (i # is) x = bindr (serve_client os cb i x) (serve_clients os cb is)"

definition data_uds_tick ::
  "'w os \<Rightarrow> (moq_track_id \<Rightarrow> bytes \<Rightarrow> u8 \<Rightarrow> 's \<Rightarrow> fault + 's) \<Rightarrow> (moq_track_id \<Rightarrow> 's \<Rightarrow> bool) option \<Rightarrow>
   data_uds \<Rightarrow> 's \<Rightarrow> 'w \<Rightarrow> (fault + data_uds \<times> 's \<times> 'w) option" where
  "data_uds_tick os cb is_ready_cb d s w =
     (case os_poll os (poll_set is_ready_cb d s) 0 w of
        (Inl e, w1) \<Rightarrow> Some (Inr (d, s, w1))
      | (Inr (ret, revents), w1) \<Rightarrow>
          if ret = 0 then Some (Inr (d, s, w1))
          else bindr (if revents ! 0 then accept_client os d w1 else Some (Inr (d, w1))) (\<lambda>(d2, w2).
            serve_clients os cb
              (map fst (filter snd (zip (poll_indices d) (tl revents)))) (d2, s, w2)))"

section \<open>Frames\<close>

text \<open>A block on the pipe: its size in host order, its priority, its bytes.\<close>

definition uds_frame :: "u8 \<Rightarrow> bytes \<Rightarrow> bytes" where
  "uds_frame priority buf = le_bytes 4 (length buf) @ priority # buf"

lemma le_val_frame_size: "length buf < 2 ^ 32 \<Longrightarrow> le_val (le_bytes 4 (length buf)) = length buf"
  by (simp add: le_val_le_bytes)

lemma data_uds_send_frame:
  assumes "send_target track d = fd" "fd \<noteq> -1" "out_stream os fd out pat"
  obtains w' where "data_uds_send os (Some d) track buf priority w = Some (True, w')"
    "out w' = out w @ uds_frame priority buf" "pat w' \<le> pat w"
proof -
  obtain w1 where 1: "write_exact_timeout os fd (le_bytes 4 (length buf)) 0 w = Some (True, w1)"
    "out w1 = out w @ le_bytes 4 (length buf)" "pat w1 \<le> pat w"
    by (rule write_exact_timeout_puts [OF assms(3)])
  obtain w2 where 2: "write_exact_timeout os fd [priority] 0 w1 = Some (True, w2)" "out w2 = out w1 @ [priority]" "pat w2 \<le> pat w1"
    by (rule write_exact_timeout_puts [OF assms(3)])
  obtain w3 where 3: "write_exact_timeout os fd buf 0 w2 = Some (True, w3)" "out w3 = out w2 @ buf" "pat w3 \<le> pat w2"
    by (rule write_exact_timeout_puts [OF assms(3)])
  show ?thesis
    by (rule that [of w3]) (use 1 2 3 assms(1,2) in \<open>simp_all add: data_uds_send_def uds_frame_def\<close>)
qed

lemma read_frame_gets:
  assumes "in_stream os fd avail pat" "avail w = uds_frame priority buf @ rest" "length buf < 2 ^ 32"
  obtains w' where "read_frame os fd cap w = Some (Some (priority, buf), max cap (length buf), w')" "avail w' = rest" "pat w' \<le> pat w"
proof -
  have av: "avail w = le_bytes 4 (length buf) @ [priority] @ buf @ rest" using assms(2) by (simp add: uds_frame_def)
  have "4 \<le> length (avail w)" using av by simp
  from read_exact_timeout_gets [OF assms(1) this] av obtain w1 where
    1: "read_exact_timeout os fd 4 [] w = Some (True, le_bytes 4 (length buf), w1)"
    "avail w1 = [priority] @ buf @ rest" "pat w1 \<le> pat w" by auto
  have "1 \<le> length (avail w1)" using 1 by simp
  from read_exact_timeout_gets [OF assms(1) this] 1(2) obtain w2 where
    2: "read_exact_timeout os fd 1 [] w1 = Some (True, [priority], w2)" "avail w2 = buf @ rest" "pat w2 \<le> pat w1" by auto
  have "length buf \<le> length (avail w2)" using 2 by simp
  from read_exact_timeout_gets [OF assms(1) this] 2(2) obtain w3 where
    3: "read_exact_timeout os fd (length buf) [] w2 = Some (True, buf, w3)" "avail w3 = rest" "pat w3 \<le> pat w2" by auto
  show ?thesis
  proof (cases "buf = []")
    case True
    with 1 2 show ?thesis by (intro that [of w2]) (simp_all add: read_frame_def le_val_le_bytes)
  next
    case False
    with 1 2 3 assms(3) show ?thesis by (intro that [of w3]) (simp_all add: read_frame_def le_val_frame_size)
  qed
qed

lemma serve_client_frame:
  assumes "uc_active (du_clients d ! i)" "uc_fd (du_clients d ! i) = fd" "fd \<noteq> -1" "in_stream os fd avail pat"
    and "avail w = uds_frame priority buf @ rest" "length buf < 2 ^ 32" "buf \<noteq> []"
  obtains w' where "serve_client os cb i (d, s, w) =
      Some (bindf (cb (uc_track (du_clients d ! i)) buf priority s)
        (\<lambda>s'. Inr (d\<lparr>du_payload_cap := max (du_payload_cap d) (length buf)\<rparr>, s', w')))"
    "avail w' = rest"
proof -
  obtain w' where w': "read_frame os fd (du_payload_cap d) w = Some (Some (priority, buf), max (du_payload_cap d) (length buf), w')"
    "avail w' = rest"
    by (rule read_frame_gets [OF assms(4-6)])
  show ?thesis
    by (rule that [of w']) (use w' assms(1-3,7) in \<open>simp_all add: serve_client_def Let_def\<close>)
qed

section \<open>The table of helpers\<close>

definition active_fds :: "uds_client list \<Rightarrow> int list" where
  "active_fds cs = map uc_fd (filter uc_active cs)"

text \<open>
  Sixteen slots; the active descriptors are valid and distinct; a name fits its array with its
  terminator.
\<close>

definition uds_ok :: "data_uds \<Rightarrow> bool" where
  "uds_ok d \<longleftrightarrow> length (du_clients d) = MAX_UDS_CLIENTS \<and> distinct (active_fds (du_clients d)) \<and>
     (\<forall>fd \<in> set (active_fds (du_clients d)). 0 \<le> fd) \<and>
     (\<forall>c \<in> set (du_clients d). length (tk_name (uc_track c)) < 64 \<and> 0 \<notin> set (tk_name (uc_track c)))"

lemma active_fds_update:
  assumes "i < length cs" "\<not> uc_active (cs ! i)" "uc_active c"
  shows "set (active_fds (cs[i := c])) = insert (uc_fd c) (set (active_fds cs))"
    and "length (active_fds (cs[i := c])) = Suc (length (active_fds cs))"
    and "distinct (active_fds cs) \<Longrightarrow> uc_fd c \<notin> set (active_fds cs) \<Longrightarrow> distinct (active_fds (cs[i := c]))"
proof -
  have cs: "cs = take i cs @ cs ! i # drop (Suc i) cs" using assms(1) by (rule id_take_nth_drop)
  have "active_fds cs = active_fds (take i cs) @ active_fds (drop (Suc i) cs)"
    using assms(2) by (subst cs) (simp add: active_fds_def)
  moreover have "active_fds (cs[i := c]) = active_fds (take i cs) @ uc_fd c # active_fds (drop (Suc i) cs)"
    using assms(1,3) by (simp add: upd_conv_take_nth_drop active_fds_def)
  ultimately show "set (active_fds (cs[i := c])) = insert (uc_fd c) (set (active_fds cs))"
    "length (active_fds (cs[i := c])) = Suc (length (active_fds cs))"
    "distinct (active_fds cs) \<Longrightarrow> uc_fd c \<notin> set (active_fds cs) \<Longrightarrow> distinct (active_fds (cs[i := c]))"
    by auto
qed

lemma active_fds_retire:
  assumes "i < length cs"
  shows "set (active_fds (cs[i := (cs ! i)\<lparr>uc_active := False\<rparr>])) \<subseteq> set (active_fds cs)"
    and "length (active_fds (cs[i := (cs ! i)\<lparr>uc_active := False\<rparr>])) \<le> length (active_fds cs)"
    and "distinct (active_fds cs) \<Longrightarrow> distinct (active_fds (cs[i := (cs ! i)\<lparr>uc_active := False\<rparr>]))"
proof -
  have cs: "cs = take i cs @ cs ! i # drop (Suc i) cs" using assms(1) by (rule id_take_nth_drop)
  have "active_fds cs = active_fds (take i cs) @ active_fds [cs ! i] @ active_fds (drop (Suc i) cs)"
    by (subst cs) (simp add: active_fds_def)
  moreover have "active_fds (cs[i := (cs ! i)\<lparr>uc_active := False\<rparr>]) = active_fds (take i cs) @ active_fds (drop (Suc i) cs)"
    using assms(1) by (simp add: upd_conv_take_nth_drop active_fds_def)
  ultimately show "set (active_fds (cs[i := (cs ! i)\<lparr>uc_active := False\<rparr>])) \<subseteq> set (active_fds cs)"
    "length (active_fds (cs[i := (cs ! i)\<lparr>uc_active := False\<rparr>])) \<le> length (active_fds cs)"
    "distinct (active_fds cs) \<Longrightarrow> distinct (active_fds (cs[i := (cs ! i)\<lparr>uc_active := False\<rparr>]))"
    by auto
qed

text \<open>\<^verbatim>\<open>accept\<close> returns a descriptor that is not open yet.\<close>

definition accept_fresh :: "'w os \<Rightarrow> data_uds \<Rightarrow> bool" where
  "accept_fresh os d \<longleftrightarrow> (\<forall>w fd w1. os_accept os (du_listen_fd d) w = (Some fd, w1) \<longrightarrow>
     0 \<le> fd \<and> fd \<notin> set (active_fds (du_clients d)))"

text \<open>What a tick may do to the table: keep it well-formed, and add at most \<open>n\<close> helpers.\<close>

definition table_step :: "nat \<Rightarrow> data_uds \<Rightarrow> data_uds \<Rightarrow> bool" where
  "table_step n d d' \<longleftrightarrow> uds_ok d' \<and> du_listen_fd d' = du_listen_fd d \<and> du_socket_name d' = du_socket_name d \<and>
     length (active_fds (du_clients d')) \<le> length (active_fds (du_clients d)) + n"

lemma table_step_refl: "uds_ok d \<Longrightarrow> table_step n d d"
  by (simp add: table_step_def)

lemma table_step_trans: "table_step m a b \<Longrightarrow> table_step n b c \<Longrightarrow> table_step (m + n) a c"
  by (auto simp: table_step_def)

lemma register_client_step:
  assumes ok: "uds_ok d" and fresh: "0 \<le> fd" "fd \<notin> set (active_fds (du_clients d))"
    and reg: "register_client os fd hdr name d w = (d', w')"
  shows "table_step 1 d d'"
proof (cases "find_index (\<lambda>c. \<not> uc_active c) (du_clients d)")
  case None
  with reg ok show ?thesis by (simp add: register_client_def table_step_refl)
next
  case (Some slot)
  let ?c = "\<lparr>uc_fd = fd, uc_track = \<lparr>tk_type = ucast (hdr ! 0), tk_flags = hdr ! 1, tk_name = cstr_of (take 63 name)\<rparr>,
    uc_active = True\<rparr>"
  have s: "slot < length (du_clients d)" "\<not> uc_active (du_clients d ! slot)"
    using find_index_SomeD [OF Some] by auto
  note u = active_fds_update [OF s, of ?c]
  have "length (cstr_of (take 63 name)) < 64" using length_cstr_of [of "take 63 name"] by simp
  then have "uds_ok (d\<lparr>du_clients := (du_clients d)[slot := ?c]\<rparr>)"
    using ok fresh u cstr_of_no_nul by (auto simp: uds_ok_def dest!: set_update_subset_insert [THEN subsetD])
  with reg Some u(2) show ?thesis by (auto simp: register_client_def table_step_def)
qed

lemma accept_client_step:
  assumes "uds_ok d" "accept_fresh os d" "accept_client os d w = Some (Inr (d', w'))"
  shows "table_step 1 d d'"
proof (cases "os_accept os (du_listen_fd d) w")
  case (Pair r w1)
  show ?thesis
  proof (cases r)
    case None
    with Pair assms(3) table_step_refl [OF assms(1)] show ?thesis by (simp add: accept_client_def)
  next
    case (Some fd)
    with Pair assms(2) have fd: "0 \<le> fd" "fd \<notin> set (active_fds (du_clients d))"
      unfolding accept_fresh_def by blast+
    have "d' = d \<or> (\<exists>hdr name w3. register_client os fd hdr name d w3 = (d', w'))"
      using assms(3) Pair Some by (auto simp: accept_client_def bind_eq_Some_conv split: if_splits)
    with register_client_step [OF assms(1) fd] table_step_refl [OF assms(1)] show ?thesis by auto
  qed
qed

lemma serve_client_step:
  assumes ok: "uds_ok d" and i: "i < MAX_UDS_CLIENTS" and run: "serve_client os cb i (d, s, w) = Some (Inr (d', s', w'))"
  shows "table_step 0 d d'"
proof -
  have keep: "table_step 0 d (d\<lparr>du_payload_cap := cap\<rparr>)" for cap
    using ok by (simp add: table_step_def uds_ok_def)
  have "table_step 0 d (d\<lparr>du_payload_cap := cap, du_clients := (du_clients d)[i := (du_clients d ! i)\<lparr>uc_active := False\<rparr>]\<rparr>)" for cap
  proof -
    have "i < length (du_clients d)" using ok i by (simp add: uds_ok_def)
    note r = active_fds_retire [OF this]
    then show ?thesis
      using ok \<open>i < length (du_clients d)\<close>
      by (auto simp: table_step_def uds_ok_def dest!: set_update_subset_insert [THEN subsetD])
  qed
  with run keep table_step_refl [OF ok, of 0] show ?thesis
    by (auto simp: serve_client_def Let_def bind_eq_Some_conv bindf_Inr_iff split: if_splits option.splits)
qed

lemma serve_clients_step:
  "uds_ok d \<Longrightarrow> \<forall>i \<in> set is. i < MAX_UDS_CLIENTS \<Longrightarrow> serve_clients os cb is (d, s, w) = Some (Inr (d', s', w')) \<Longrightarrow>
   table_step 0 d d'"
proof (induction "is" arbitrary: d s w)
  case (Cons i "is")
  obtain d1 s1 w1 where 1: "serve_client os cb i (d, s, w) = Some (Inr (d1, s1, w1))"
    "serve_clients os cb is (d1, s1, w1) = Some (Inr (d', s', w'))"
    using Cons.prems(3) by (auto simp: bindr_Inr_iff)
  have a: "table_step 0 d d1" using serve_client_step [OF Cons.prems(1) _ 1(1)] Cons.prems(2) by simp
  then have "table_step 0 d1 d'" using Cons.IH [OF _ _ 1(2)] Cons.prems(2) by (simp add: table_step_def)
  with a table_step_trans [of 0 d d1 0 d'] show ?case by simp
qed (simp add: table_step_refl)

lemma tick_table_step:
  assumes "uds_ok d" "accept_fresh os d" "data_uds_tick os cb is_ready_cb d s w = Some (Inr (d', s', w'))"
  shows "table_step 1 d d'"
proof (cases "os_poll os (poll_set is_ready_cb d s) 0 w")
  case (Pair r w1)
  show ?thesis
  proof (cases "case r of Inl e \<Rightarrow> True | Inr (ret, revents) \<Rightarrow> ret = 0")
    case True
    with Pair assms table_step_refl [OF assms(1)] show ?thesis by (auto simp: data_uds_tick_def split: sum.splits)
  next
    case False
    then obtain ret revents where Some: "r = Inr (ret, revents)" "ret \<noteq> 0" by (cases r) auto
    let ?is = "map fst (filter snd (zip (poll_indices d) (tl revents)))"
    obtain d2 w2 where acc: "(if revents ! 0 then accept_client os d w1 else Some (Inr (d, w1))) = Some (Inr (d2, w2))"
      and srv: "serve_clients os cb ?is (d2, s, w2) = Some (Inr (d', s', w'))"
      using assms(3) Pair Some by (auto simp: data_uds_tick_def bindr_Inr_iff)
    have a: "table_step 1 d d2"
      using acc accept_client_step [OF assms(1,2)] table_step_refl [OF assms(1)] by (auto split: if_splits)
    have "\<forall>i \<in> set ?is. i < MAX_UDS_CLIENTS"
      using assms(1) by (auto simp: poll_indices_def uds_ok_def dest!: set_zip_leftD)
    then have "table_step 0 d2 d'" using serve_clients_step [OF _ _ srv] a by (simp add: table_step_def)
    from table_step_trans [OF a this] show ?thesis by simp
  qed
qed

text \<open>
  C32. A tick of the data pipe keeps the table of helpers well-formed: sixteen slots, distinct valid
  descriptors, terminated names; at most one helper is added, and the listener stays. It holds
  whatever the helpers send, as long as the tick returns without a fault.
\<close>

theorem data_uds_tick_keeps_table:
  assumes "uds_ok d" and "accept_fresh os d"
    and "data_uds_tick os cb is_ready_cb d s w = Some (Inr (d', s', w'))"
  shows "uds_ok d' \<and> du_listen_fd d' = du_listen_fd d \<and> du_socket_name d' = du_socket_name d \<and>
    length (active_fds (du_clients d')) \<le> length (active_fds (du_clients d)) + 1"
  using tick_table_step [OF assms] by (simp add: table_step_def)

text \<open>A property of the owner's state that the callback keeps is kept by the tick.\<close>

lemma serve_client_owner:
  assumes "\<forall>tr p pr s s'. I s \<longrightarrow> cb tr p pr s = Inr s' \<longrightarrow> I s'" "I s" "serve_client os cb i (d, s, w) = Some (Inr (d', s', w'))"
  shows "I s'"
  using assms by (auto simp: serve_client_def Let_def bind_eq_Some_conv bindf_Inr_iff split: if_splits option.splits)

lemma serve_clients_owner:
  assumes "\<forall>tr p pr s s'. I s \<longrightarrow> cb tr p pr s = Inr s' \<longrightarrow> I s'"
  shows "I s \<Longrightarrow> serve_clients os cb is (d, s, w) = Some (Inr (d', s', w')) \<Longrightarrow> I s'"
proof (induction "is" arbitrary: d s w)
  case (Cons i "is")
  then obtain d1 s1 w1 where 1: "serve_client os cb i (d, s, w) = Some (Inr (d1, s1, w1))"
    "serve_clients os cb is (d1, s1, w1) = Some (Inr (d', s', w'))" by (auto simp: bindr_Inr_iff)
  show ?case by (rule Cons.IH [OF serve_client_owner [OF assms Cons.prems(1) 1(1)] 1(2)])
qed simp

lemma tick_owner:
  assumes "\<forall>tr p pr s s'. I s \<longrightarrow> cb tr p pr s = Inr s' \<longrightarrow> I s'" "I s"
    and "data_uds_tick os cb is_ready_cb d s w = Some (Inr (d', s', w'))"
  shows "I s'"
proof -
  obtain r w1 where r: "os_poll os (poll_set is_ready_cb d s) 0 w = (r, w1)" by force
  have "s' = s \<or> (\<exists>is d2 w2. serve_clients os cb is (d2, s, w2) = Some (Inr (d', s', w')))"
    using assms(3) r by (auto simp: data_uds_tick_def bindr_Inr_iff split: sum.splits if_splits)
  then show ?thesis
  proof (elim disjE exE)
    fix "is" d2 w2
    assume "serve_clients os cb is (d2, s, w2) = Some (Inr (d', s', w'))"
    then show ?thesis by (rule serve_clients_owner [OF assms(1,2)])
  qed (use assms(2) in simp)
qed

text \<open>A fresh listener and a helper that registers as \<open>ab\<close> for grouped data.\<close>

definition demo_uds :: data_uds where
  "demo_uds = the (fst (data_uds_create (pipe_os 3) [109] \<lparr>pp_in = (\<lambda>_. []), pp_out = (\<lambda>_. []), pp_pending = True, pp_rx = [], pp_tx = [], pp_log = []\<rparr>))"

definition demo_pipes :: "bytes \<Rightarrow> pipes" where
  "demo_pipes bs = \<lparr>pp_in = (\<lambda>_. [])(7 := bs), pp_out = (\<lambda>_. []), pp_pending = True, pp_rx = [], pp_tx = [], pp_log = []\<rparr>"

lemma demo_uds_eq: "demo_uds = \<lparr>du_listen_fd = 3, du_socket_name = [109],
    du_clients = replicate 16 \<lparr>uc_fd = 0, uc_track = zero_track, uc_active = False\<rparr>, du_payload_cap = 0\<rparr>"
  by (simp add: demo_uds_def data_uds_create_def pipe_os_def cstr_copy_def MAX_UDS_CLIENTS_def)

lemma demo_uds_ok: "uds_ok demo_uds" "accept_fresh (pipe_os 3) demo_uds"
  by (auto simp: uds_ok_def accept_fresh_def demo_uds_eq active_fds_def MAX_UDS_CLIENTS_def zero_track_def pipe_os_def)

theorem data_uds_tick_keeps_table_witness:
  "\<exists>d' s' w'. data_uds_tick (pipe_os 3) (\<lambda>_ _ _ n. Inr (Suc n)) None demo_uds 0 (demo_pipes [4, 2, 2, 97, 98]) = Some (Inr (d', s', w')) \<and>
     uds_ok d' \<and> length (active_fds (du_clients d')) \<le> 1"
proof -
  let ?r = "data_uds_tick (pipe_os 3) (\<lambda>_ _ _ n. Inr (Suc n)) None demo_uds 0 (demo_pipes [4, 2, 2, 97, 98])"
  have "case ?r of Some (Inr _) \<Rightarrow> True | _ \<Rightarrow> False" by code_simp
  then obtain d' s' w' where r: "?r = Some (Inr (d', s', w'))"
    by (auto split: option.splits sum.splits prod.splits)
  have "length (active_fds (du_clients demo_uds)) = 0" by (simp add: demo_uds_eq active_fds_def)
  with data_uds_tick_keeps_table [OF demo_uds_ok r] r show ?thesis by auto
qed

text \<open>The bytes a helper starts with, and what the listener does with them.\<close>

definition uds_registration :: "u8 \<Rightarrow> u8 \<Rightarrow> bytes \<Rightarrow> bytes" where
  "uds_registration ty fl name = ty # fl # of_nat (length name) # name"

lemma accept_client_gets:
  assumes acc: "os_accept os (du_listen_fd d) w = (Some fd, w1)" and str: "in_stream os fd avail pat"
    and av: "avail (os_nonblock os fd w1) = uds_registration ty fl name @ rest" and len: "length name < 256"
  obtains w3 where "accept_client os d w = Some (if 64 < length name then Inl OutOfBounds
      else Inr (register_client os fd [ty, fl, of_nat (length name)] name d w3))" "avail w3 = rest"
proof -
  let ?w = "os_nonblock os fd w1" and ?n = "of_nat (length name) :: u8"
  have "3 \<le> length (avail ?w)" using av by (simp add: uds_registration_def)
  from read_exact_timeout_gets [OF str this] av obtain w2 where
    2: "read_exact_timeout os fd 3 [] ?w = Some (True, [ty, fl, ?n], w2)" "avail w2 = name @ rest"
    by (auto simp: uds_registration_def eval_nat_numeral)
  have n: "unat ?n = length name" using len by (simp add: unat_of_nat)
  have "length name \<le> length (avail w2)" using 2 by simp
  from read_exact_timeout_gets [OF str this] 2(2) obtain w3 where
    3: "read_exact_timeout os fd (length name) [] w2 = Some (True, name, w3)" "avail w3 = rest" by auto
  show ?thesis
    by (rule that [of w3]) (use acc 2 3 n in \<open>simp_all add: accept_client_def eval_nat_numeral\<close>)
qed

text \<open>
  C33. Registration of a helper. When a helper connects and its registration arrives (type, flags, a
  name of at most 255 bytes), then: a name of more than 64 bytes overruns the name array on the stack;
  otherwise the first free slot takes the helper with its type, flags and name (cut at 63 bytes), no
  other slot changes and the bytes after the registration stay on the socket; with no free slot the
  table is unchanged.
\<close>

theorem helper_registration:
  assumes "os_accept os (du_listen_fd d) w = (Some fd, w1)" and "in_stream os fd avail pat"
    and "avail (os_nonblock os fd w1) = uds_registration ty fl name @ rest" and "length name < 256"
  shows "\<exists>w3. avail w3 = rest \<and> accept_client os d w = Some (
      if 64 < length name then Inl OutOfBounds
      else case find_index (\<lambda>c. \<not> uc_active c) (du_clients d) of
             None \<Rightarrow> Inr (d, os_close os fd w3)
           | Some i \<Rightarrow> Inr (d\<lparr>du_clients := (du_clients d)[i := \<lparr>uc_fd = fd,
               uc_track = \<lparr>tk_type = ucast ty, tk_flags = fl, tk_name = cstr_of (take 63 name)\<rparr>, uc_active = True\<rparr>]\<rparr>, w3))"
proof -
  obtain w3 where w3: "accept_client os d w = Some (if 64 < length name then Inl OutOfBounds
      else Inr (register_client os fd [ty, fl, of_nat (length name)] name d w3))" "avail w3 = rest"
    by (rule accept_client_gets [OF assms])
  then show ?thesis
    by (intro exI [of _ w3]) (auto simp: register_client_def split: option.splits)
qed

theorem helper_registration_witness:
  "\<exists>w3. pp_in w3 7 = [9] \<and> accept_client (pipe_os 3) demo_uds (demo_pipes (uds_registration 4 2 [97, 98] @ [9])) =
     Some (Inr (demo_uds\<lparr>du_clients := (du_clients demo_uds)[0 := \<lparr>uc_fd = 7,
       uc_track = \<lparr>tk_type = 4, tk_flags = 2, tk_name = [97, 98]\<rparr>, uc_active = True\<rparr>]\<rparr>, w3))"
proof -
  let ?w = "demo_pipes (uds_registration 4 2 [97, 98] @ [9])"
  have acc: "os_accept (pipe_os 3) (du_listen_fd demo_uds) ?w = (Some 7, ?w\<lparr>pp_pending := False\<rparr>)"
    by (simp add: pipe_os_def demo_uds_eq demo_pipes_def)
  have free: "find_index (\<lambda>c. \<not> uc_active c) (du_clients demo_uds) = Some 0"
    by (simp add: demo_uds_eq numeral_eq_Suc)
  show ?thesis
    using helper_registration [OF acc pipe_in_stream, of 4 2 "[97, 98]" "[9]"]
    by (simp add: free cstr_of_def demo_pipes_def pipe_os_def)
qed

section \<open>Routing\<close>

lemma client_fd_cases:
  obtains (found) i where "find_index (\<lambda>c. uc_active c \<and> P c) (du_clients d) = Some i"
      "client_fd P d = uc_fd (du_clients d ! i)" "i < length (du_clients d)" "uc_active (du_clients d ! i)" "P (du_clients d ! i)"
  | (missing) "client_fd P d = -1" "\<forall>c \<in> set (du_clients d). uc_active c \<longrightarrow> \<not> P c"
  by (cases "find_index (\<lambda>c. uc_active c \<and> P c) (du_clients d)")
    (auto simp: client_fd_def scan_simps dest: find_index_SomeD)

lemma active_fd_valid:
  assumes "uds_ok d" "i < length (du_clients d)" "uc_active (du_clients d ! i)"
  shows "0 \<le> uc_fd (du_clients d ! i)"
proof -
  have "uc_fd (du_clients d ! i) \<in> set (active_fds (du_clients d))"
    using assms(2,3) by (auto simp: active_fds_def)
  with assms(1) show ?thesis by (auto simp: uds_ok_def)
qed

definition serves :: "moq_track_id \<Rightarrow> uds_client \<Rightarrow> bool" where
  "serves track c \<longleftrightarrow> uc_active c \<and> tk_type (uc_track c) = tk_type track \<and> tk_name (uc_track c) = tk_name track"

text \<open>
  C31. Routing of received data. \<^verbatim>\<open>data_uds_send\<close> looks for a helper registered for exactly the
  track; for data tracks it falls back to any data helper. If the helper found reads its socket, the
  call returns true and has put one frame (size, priority, bytes) on that helper's socket; if there is
  no helper it returns false and makes no system call.
\<close>

theorem data_uds_send_routes:
  assumes "uds_ok d" and "\<forall>fd \<in> set (active_fds (du_clients d)). out_stream os fd (out fd) pat"
  shows "(\<exists>c w'. c \<in> set (du_clients d) \<and> uc_active c \<and>
        (serves track c \<or> tk_type track = MOQ_TRACK_DATA \<and> tk_type (uc_track c) = MOQ_TRACK_DATA \<and>
           (\<forall>c' \<in> set (du_clients d). \<not> serves track c')) \<and>
        data_uds_send os (Some d) track buf priority w = Some (True, w') \<and>
        out (uc_fd c) w' = out (uc_fd c) w @ uds_frame priority buf) \<or>
    (\<forall>c \<in> set (du_clients d). \<not> serves track c \<and>
        \<not> (uc_active c \<and> tk_type track = MOQ_TRACK_DATA \<and> tk_type (uc_track c) = MOQ_TRACK_DATA)) \<and>
      data_uds_send os (Some d) track buf priority w = Some (False, w)"
proof -
  let ?P = "\<lambda>c. tk_type (uc_track c) = tk_type track \<and> tk_name (uc_track c) = tk_name track"
  let ?Q = "\<lambda>c. tk_type (uc_track c) = MOQ_TRACK_DATA"
  have sent: "\<exists>w'. data_uds_send os (Some d) track buf priority w = Some (True, w') \<and>
      out (uc_fd (du_clients d ! i)) w' = out (uc_fd (du_clients d ! i)) w @ uds_frame priority buf"
    if i: "i < length (du_clients d)" "uc_active (du_clients d ! i)" "send_target track d = uc_fd (du_clients d ! i)" for i
  proof -
    have "uc_fd (du_clients d ! i) \<noteq> -1" using active_fd_valid [OF assms(1) i(1,2)] by auto
    moreover have "out_stream os (uc_fd (du_clients d ! i)) (out (uc_fd (du_clients d ! i))) pat"
      using assms(2) i(1,2) by (auto simp: active_fds_def)
    ultimately obtain w' where "data_uds_send os (Some d) track buf priority w = Some (True, w')"
      "out (uc_fd (du_clients d ! i)) w' = out (uc_fd (du_clients d ! i)) w @ uds_frame priority buf"
      by (rule data_uds_send_frame [OF i(3)])
    then show ?thesis by blast
  qed
  show ?thesis
  proof (cases rule: client_fd_cases [of ?P d])
    case (found i)
    have "uc_fd (du_clients d ! i) \<noteq> -1" using active_fd_valid [OF assms(1) found(3,4)] by auto
    then have "send_target track d = uc_fd (du_clients d ! i)" using found by (simp add: send_target_def)
    with sent [OF found(3,4)] found show ?thesis by (intro disjI1 exI [of _ "du_clients d ! i"]) (auto simp: serves_def)
  next
    case missing
    note noP = missing
    show ?thesis
    proof (cases "tk_type track = MOQ_TRACK_DATA")
      case False
      with noP show ?thesis by (intro disjI2) (auto simp: send_target_def data_uds_send_def serves_def)
    next
      case True
      show ?thesis
      proof (cases rule: client_fd_cases [of ?Q d])
        case (found i)
        with noP True have "send_target track d = uc_fd (du_clients d ! i)" by (simp add: send_target_def)
        with sent [OF found(3,4)] found noP True show ?thesis
          by (intro disjI1 exI [of _ "du_clients d ! i"]) (auto simp: serves_def)
      next
        case missing
        with noP True show ?thesis by (intro disjI2) (auto simp: send_target_def data_uds_send_def serves_def)
      qed
    qed
  qed
qed

definition demo_helper :: "int \<Rightarrow> cstr \<Rightarrow> uds_client" where
  "demo_helper fd name = \<lparr>uc_fd = fd, uc_track = \<lparr>tk_type = 4, tk_flags = 2, tk_name = name\<rparr>, uc_active = True\<rparr>"

definition demo_table :: data_uds where
  "demo_table = demo_uds\<lparr>du_clients := (du_clients demo_uds)[0 := demo_helper 7 [97], 1 := demo_helper 8 [98]]\<rparr>"

lemma demo_table_ok: "uds_ok demo_table"
  by code_simp

lemma demo_table_fds: "active_fds (du_clients demo_table) = [7, 8]"
  by code_simp

theorem data_uds_send_routes_witness:
  "\<exists>c w'. c \<in> set (du_clients demo_table) \<and> uc_active c \<and>
     data_uds_send (pipe_os 3) (Some demo_table) \<lparr>tk_type = 4, tk_flags = 0, tk_name = [98]\<rparr> [1, 2, 3] 5 (demo_pipes []) = Some (True, w') \<and>
     pp_out w' (uc_fd c) = pp_out (demo_pipes []) (uc_fd c) @ uds_frame 5 [1, 2, 3]"
proof -
  have "demo_helper 8 [98] \<in> set (du_clients demo_table)" "serves \<lparr>tk_type = 4, tk_flags = 0, tk_name = [98]\<rparr> (demo_helper 8 [98])"
    by (simp_all add: demo_table_def demo_uds_eq demo_helper_def serves_def numeral_eq_Suc)
  with data_uds_send_routes [OF demo_table_ok, of "pipe_os 3" "\<lambda>fd w. pp_out w fd" "\<lambda>_. 0"
      "\<lparr>tk_type = 4, tk_flags = 0, tk_name = [98]\<rparr>" "[1, 2, 3]" 5 "demo_pipes []"] pipe_out_stream [of 3]
  show ?thesis by (auto simp: demo_table_fds)
qed

section \<open>The socket's path\<close>

lemma setup_uds_addr_cut: "setup_uds_addr (cstr_copy 128 name) = setup_uds_addr name"
  by (cases "length name < 128") (simp_all add: setup_uds_addr_def cstr_copy_def min_def)

lemma uds_create_ok:
  assumes "data_uds_create os name w = (Some d, w')"
  shows "uds_ok d" "active_fds (du_clients d) = []" "du_socket_name d = cstr_copy 128 name"
  using assms by (auto simp: data_uds_create_def Let_def uds_ok_def active_fds_def zero_track_def
      split: prod.splits option.splits if_splits)

text \<open>
  Creation and destruction agree on the path. When creation succeeds it has unlinked, then bound and
  listened on, the path \<^verbatim>\<open>/tmp/name.sock\<close> cut to 107 bytes, and the table is empty and well-formed;
  destroying that pipe closes every active helper and the listener and unlinks that same path, however
  long the name is, although the pipe keeps only 127 bytes of it.
\<close>

theorem data_uds_lifecycle:
  assumes "data_uds_create os name w = (Some d, w')"
  shows "uds_ok d \<and> active_fds (du_clients d) = [] \<and>
    (\<exists>w1 w3. os_socket os w = (Some (du_listen_fd d), w1) \<and>
      os_bind os (du_listen_fd d) (setup_uds_addr name) (os_unlink os (setup_uds_addr name) (os_nonblock os (du_listen_fd d) w1)) = (True, w3) \<and>
      os_listen os (du_listen_fd d) w3 = (True, w')) \<and>
    data_uds_destroy os (d\<lparr>du_clients := cs\<rparr>) v = os_unlink os (setup_uds_addr name)
      (os_close os (du_listen_fd d) (os_shutdown os (du_listen_fd d)
        (fold (\<lambda>fd v. os_close os fd (os_shutdown os fd v)) (active_fds cs) v)))"
proof -
  have f: "fold (\<lambda>c w. if uc_active c then os_close os (uc_fd c) (os_shutdown os (uc_fd c) w) else w) cs v =
    fold (\<lambda>fd v. os_close os fd (os_shutdown os fd v)) (active_fds cs) v"
    by (induction cs arbitrary: v) (simp_all add: active_fds_def)
  note ok = uds_create_ok [OF assms]
  have "\<exists>w1 w3. os_socket os w = (Some (du_listen_fd d), w1) \<and>
      os_bind os (du_listen_fd d) (setup_uds_addr name) (os_unlink os (setup_uds_addr name) (os_nonblock os (du_listen_fd d) w1)) = (True, w3) \<and>
      os_listen os (du_listen_fd d) w3 = (True, w')"
    using assms by (auto simp: data_uds_create_def Let_def split: prod.splits option.splits if_splits)
  moreover have "data_uds_destroy os (d\<lparr>du_clients := cs\<rparr>) v = os_unlink os (setup_uds_addr name)
      (os_close os (du_listen_fd d) (os_shutdown os (du_listen_fd d)
        (fold (\<lambda>fd v. os_close os fd (os_shutdown os fd v)) (active_fds cs) v)))"
    using ok(3) by (simp add: data_uds_destroy_def setup_uds_addr_cut f)
  ultimately show ?thesis using ok(1,2) by blast
qed

theorem data_uds_lifecycle_witness:
  "uds_ok demo_uds \<and> active_fds (du_clients demo_uds) = [] \<and>
   pp_log (data_uds_destroy (pipe_os 3) (demo_uds\<lparr>du_clients := [demo_helper 7 [97]]\<rparr>) (demo_pipes [])) =
     [''unlink'', ''close'', ''shutdown'', ''close'', ''shutdown'']"
proof -
  let ?w = "\<lparr>pp_in = (\<lambda>_. []), pp_out = (\<lambda>_. []), pp_pending = True, pp_rx = [], pp_tx = [], pp_log = []\<rparr>"
  have c: "data_uds_create (pipe_os 3) [109] ?w = (Some demo_uds, ?w\<lparr>pp_log := [''unlink'']\<rparr>)"
    by (simp add: demo_uds_def data_uds_create_def pipe_os_def)
  show ?thesis
    using data_uds_lifecycle [OF c, of "[demo_helper 7 [97]]" "demo_pipes []"]
    by (simp add: active_fds_def demo_helper_def demo_pipes_def pipe_os_def)
qed

end
