(* ===== verification/Tund.thy ===== *)
theory Tund
  imports Data_Uds
begin

text \<open>
  The tunnel helper (\<^verbatim>\<open>src/host/linux/tund.c\<close>): its options, the addresses it gives the
  interface, and its event loop, which connects and registers with the local data pipe and carries
  packets between the tunnel device and the pipe. The system calls are the \<open>os\<close> of theory \<open>Sockets\<close>;
  the device is a descriptor whose reads and writes are whole packets (theory \<open>Tun_Device\<close> opens it and frames the packets).
\<close>

section \<open>Options\<close>

record tund_cfg =
  td_mock :: bool
  td_dev :: cstr
  td_socket :: cstr
  td_ip :: cstr
  td_priority :: u8
  td_track :: cstr
  td_reliable :: bool

definition tund_defaults :: tund_cfg where
  "tund_defaults = \<lparr>td_mock = False, td_dev = chars ''tun0'', td_socket = chars ''bishlink-data'',
     td_ip = chars ''10.8.0.1/24'', td_priority = 1, td_track = [], td_reliable = False\<rparr>"

text \<open>
  One turn of the option loop: the first component says whether the option took the next argument.
  An option that takes a value is skipped when it is the last argument.
\<close>

definition tund_option :: "cstr \<Rightarrow> cstr list \<Rightarrow> tund_cfg \<Rightarrow> bool \<times> tund_cfg" where
  "tund_option a as c =
     (if a = chars ''--mock'' \<or> a = chars ''-m'' then (False, c\<lparr>td_mock := True\<rparr>)
      else if (a = chars ''--socket'' \<or> a = chars ''-s'') \<and> as \<noteq> []
      then (True, c\<lparr>td_socket := cstr_copy 128 (hd as)\<rparr>)
      else if (a = chars ''--interface'' \<or> a = chars ''-i'') \<and> as \<noteq> []
      then (True, c\<lparr>td_dev := cstr_copy 16 (hd as)\<rparr>)
      else if (a = chars ''--ip'' \<or> a = chars ''-a'') \<and> as \<noteq> []
      then (True, c\<lparr>td_ip := cstr_copy 64 (hd as)\<rparr>)
      else if (a = chars ''--priority'' \<or> a = chars ''-p'') \<and> as \<noteq> []
      then (True, c\<lparr>td_priority :=
             (if hd as = chars ''low'' then 0 else if hd as = chars ''high'' then 2 else 1)\<rparr>)
      else if (a = chars ''--track'' \<or> a = chars ''-t'') \<and> as \<noteq> []
      then (True, c\<lparr>td_track := cstr_copy 64 (hd as)\<rparr>)
      else if a = chars ''--reliable'' \<or> a = chars ''-r'' then (False, c\<lparr>td_reliable := True\<rparr>)
      else (False, c))"

fun tund_args :: "cstr list \<Rightarrow> tund_cfg \<Rightarrow> tund_cfg" where
  "tund_args [] c = c"
| "tund_args (a # as) c =
     (let (took, c') = tund_option a as c in tund_args (if took then tl as else as) c')"

definition tund_config :: "cstr list \<Rightarrow> tund_cfg" where
  "tund_config argv =
     (let c = tund_args (tl argv) tund_defaults
      in if td_track c = [] then c\<lparr>td_track := cstr_copy 64 (chars ''tund/'' @ td_dev c)\<rparr> else c)"

section \<open>Interface addresses\<close>

text \<open>
  The own address without its prefix length, and the other end's address: the same network with
  host 2 when this host is 1, and host 1 otherwise, cut to the buffer of 64 bytes.
\<close>

definition tunnel_addresses :: "cstr \<Rightarrow> cstr \<times> cstr" where
  "tunnel_addresses ip_cidr =
     (let ip = takeWhile (\<lambda>b. b \<noteq> 47) (cstr_copy 64 ip_cidr);
          prefix = rev (dropWhile (\<lambda>b. b \<noteq> 46) (rev ip))
      in (ip, if prefix = [] then chars ''10.8.0.2''
              else prefix @ cstr_copy (64 - length prefix) (chars (if atoi (drop (length prefix) ip) = 1 then ''2'' else ''1''))))"

section \<open>The event loop\<close>

record 'w tund =
  tu_uds :: int
  tu_seq :: u32
  tu_world :: 'w

definition drop_uds :: "'w os \<Rightarrow> 'w \<Rightarrow> 'w tund \<Rightarrow> 'w tund" where
  "drop_uds os w t = t\<lparr>tu_uds := -1, tu_world := os_close os (tu_uds t) w\<rparr>"

text \<open>
  Connecting and registering. The first component is false where the loop continues at once, after a
  pause of half a second.
\<close>

definition connect_uds :: "'w os \<Rightarrow> tund_cfg \<Rightarrow> 'w tund \<Rightarrow> bool \<times> 'w tund" where
  "connect_uds os cfg t =
     (case os_socket os (tu_world t) of
        (None, w1) \<Rightarrow> (True, t\<lparr>tu_world := w1\<rparr>)
      | (Some fd, w1) \<Rightarrow>
          let t1 = t\<lparr>tu_uds := fd\<rparr>;
              (ok, w2) = os_connect os fd (setup_uds_addr (td_socket cfg)) w1
          in if \<not> ok then (False, drop_uds os w2 t1)
             else
               let n = of_nat (length (td_track cfg)) :: u8;
                   fl = (if td_reliable cfg then MOQ_TRACK_FLAG_RELIABLE else MOQ_TRACK_FLAG_FEC_ENABLED);
                   (r1, w3) = os_write os fd [ucast MOQ_TRACK_DATA, fl, n] w2
               in if r1 \<noteq> Inr 3 then (False, drop_uds os w3 t1)
                  else
                    let (r2, w4) = os_write os fd (take (unat n) (td_track cfg)) w3
                    in if r2 \<noteq> Inr (unat n) then (False, drop_uds os w4 t1)
                       else (True, t1\<lparr>tu_world := w4\<rparr>))"

text \<open>The periodic packet of the mock mode.\<close>

definition mock_pkt :: "u32 \<Rightarrow> bytes" where
  "mock_pkt seq = [0x45, 0, 0, 64, ucast (seq AND 0xFF), ucast (drop_bit 8 seq AND 0xFF)] @ replicate 58 0"

definition send_mock :: "'w os \<Rightarrow> tund_cfg \<Rightarrow> 'w tund \<Rightarrow> 'w tund" where
  "send_mock os cfg t =
     (let t1 = t\<lparr>tu_seq := tu_seq t + 1\<rparr>;
          pkt = mock_pkt (tu_seq t1);
          (r1, w1) = os_write os (tu_uds t) (le_bytes 4 64) (tu_world t)
      in if isl r1 then drop_uds os w1 t1
         else let (r2, w2) = os_write os (tu_uds t) [td_priority cfg] w1
              in if isl r2 then drop_uds os w2 t1
                 else let (r3, w3) = os_write os (tu_uds t) pkt w2
                      in if isl r3 then drop_uds os w3 t1 else t1\<lparr>tu_world := w3\<rparr>)"

text \<open>
  Device to pipe. The first component is true where the loop continues at once. A short write of the
  size or of the priority is taken for success.
\<close>

definition uplink :: "'w os \<Rightarrow> tund_cfg \<Rightarrow> int \<Rightarrow> 'w tund \<Rightarrow> (bool \<times> 'w tund) option" where
  "uplink os cfg tun_fd t =
     (case os_read os tun_fd 2048 (tu_world t) of
        (Inl e, w1) \<Rightarrow> Some (False, t\<lparr>tu_world := w1\<rparr>)
      | (Inr packet, w1) \<Rightarrow>
          if packet = [] \<or> tu_uds t = -1 then Some (False, t\<lparr>tu_world := w1\<rparr>)
          else
            let (r1, w2) = os_write os (tu_uds t) (le_bytes 4 (length packet)) w1
            in if isl r1 then Some (True, drop_uds os w2 t)
               else
                 let (r2, w3) = os_write os (tu_uds t) [td_priority cfg] w2
                 in if isl r2 then Some (True, drop_uds os w3 t)
                    else do {
                      (ok, w4) \<leftarrow> write_exact os (tu_uds t) packet 0 w3;
                      Some (False, if ok then t\<lparr>tu_world := w4\<rparr> else drop_uds os w4 t)
                    })"

text \<open>Reading away a packet that does not fit the buffer.\<close>

function drain :: "'w os \<Rightarrow> int \<Rightarrow> nat \<Rightarrow> 'w \<Rightarrow> 'w option" where
  "drain os fd remaining w =
     (if remaining = 0 then Some w
      else do {
        (ok, _, w1) \<leftarrow> read_exact os fd (min remaining 1024) [] w;
        if ok then drain os fd (remaining - min remaining 1024) w1 else Some w1
      })"
  by pat_completeness auto
termination
  by (relation "measure (\<lambda>(os, fd, remaining, w). remaining)") auto

declare drain.simps [simp del]

partial_function (option) tun_write_retry :: "'w os \<Rightarrow> int \<Rightarrow> bytes \<Rightarrow> 'w \<Rightarrow> 'w option" where
  "tun_write_retry os tun_fd packet w =
     (case os_write os tun_fd packet w of
        (Inl e, w1) \<Rightarrow> if e = EINTR then tun_write_retry os tun_fd packet w1 else Some w1
      | (Inr n, w1) \<Rightarrow> Some w1)"

declare tun_write_retry.simps [code]

text \<open>Pipe to device.\<close>

definition downlink :: "'w os \<Rightarrow> tund_cfg \<Rightarrow> int \<Rightarrow> 'w tund \<Rightarrow> 'w tund option" where
  "downlink os cfg tun_fd t = do {
     (ok1, sz, w1) \<leftarrow> read_exact os (tu_uds t) 4 [] (tu_world t);
     if \<not> ok1 then Some (drop_uds os w1 t)
     else do {
       (ok2, pr, w2) \<leftarrow> read_exact os (tu_uds t) 1 [] w1;
       if \<not> ok2 then Some (drop_uds os w2 t)
       else if 2048 < le_val sz then do {
         w3 \<leftarrow> drain os (tu_uds t) (le_val sz) w2;
         Some (drop_uds os w3 t)
       }
       else do {
         (ok3, packet, w3) \<leftarrow> read_exact os (tu_uds t) (le_val sz) [] w2;
         if \<not> ok3 then Some (drop_uds os w3 t)
         else if td_mock cfg then Some (t\<lparr>tu_world := w3\<rparr>)
         else do {
           w4 \<leftarrow> tun_write_retry os tun_fd packet w3;
           Some (t\<lparr>tu_world := w4\<rparr>)
         }
       }
     }
   }"

text \<open>One turn of the loop: \<open>Stop\<close> is the \<^verbatim>\<open>break\<close> after a failed \<^verbatim>\<open>poll\<close>.\<close>

definition tund_turn :: "'w os \<Rightarrow> tund_cfg \<Rightarrow> int \<Rightarrow> 'w tund \<Rightarrow> 'w tund flow option" where
  "tund_turn os cfg tun_fd t =
     (let (go, t1) = (if tu_uds t = -1 then connect_uds os cfg t else (True, t))
      in if \<not> go then Some (More t1)
         else case os_poll os [(if td_mock cfg then -1 else tun_fd, True), (tu_uds t1, True)]
                     (if td_mock cfg then 100 else -1) (tu_world t1) of
             (Inl e, w1) \<Rightarrow> Some (if e = EINTR then More (t1\<lparr>tu_world := w1\<rparr>) else Stop (t1\<lparr>tu_world := w1\<rparr>))
           | (Inr (ret, revents), w1) \<Rightarrow>
               let t2 = t1\<lparr>tu_world := w1\<rparr> in
               if td_mock cfg \<and> ret = 0 then Some (More (send_mock os cfg t2))
               else do {
                 (cont, t3) \<leftarrow> (if revents ! 0 then uplink os cfg tun_fd t2 else Some (False, t2));
                 if cont then Some (More t3)
                 else do {
                   t4 \<leftarrow> (if revents ! 1 then downlink os cfg tun_fd t3 else Some t3);
                   Some (More t4)
                 }
               })"

partial_function (option) tund_loop :: "'w os \<Rightarrow> tund_cfg \<Rightarrow> int \<Rightarrow> 'w tund \<Rightarrow> 'w tund option" where
  "tund_loop os cfg tun_fd t =
     (case tund_turn os cfg tun_fd t of
        None \<Rightarrow> None
      | Some fl \<Rightarrow> (case fl of Stop t' \<Rightarrow> Some t' | More t' \<Rightarrow> tund_loop os cfg tun_fd t'))"

text \<open>
  After the loop the descriptors are closed. Allocating and configuring the interface is
  \<open>tun_fd\<close>'s business: in mock mode the device is the constant 1000.
\<close>

definition tund_run :: "'w os \<Rightarrow> cstr list \<Rightarrow> int \<Rightarrow> 'w \<Rightarrow> 'w option" where
  "tund_run os argv dev w =
     (let cfg = tund_config argv;
          tun_fd = (if td_mock cfg then 1000 else dev)
      in do {
        t \<leftarrow> tund_loop os cfg tun_fd \<lparr>tu_uds = -1, tu_seq = 0, tu_world = w\<rparr>;
        let w1 = (if tu_uds t \<noteq> -1 then os_close os (tu_uds t) (tu_world t) else tu_world t);
        Some (if \<not> td_mock cfg \<and> tun_fd \<noteq> -1 then os_close os tun_fd w1 else w1)
      })"

section \<open>Configuration\<close>

lemma snd_if: "P (snd a) \<Longrightarrow> P (snd b) \<Longrightarrow> P (snd (if c then a else b))"
  by simp

lemma tund_option_track: "length (td_track c) < 64 \<Longrightarrow> length (td_track (snd (tund_option a as c))) < 64"
  unfolding tund_option_def by (intro snd_if [where P = "\<lambda>c. length (td_track c) < 64"]) (simp_all add: cstr_copy_def)

interpretation tund_opts: option_loop tund_option tund_args
  by unfold_locales simp_all

lemma tund_args_track: "length (td_track c) < 64 \<Longrightarrow> length (td_track (tund_args as c)) < 64"
  by (rule tund_opts.loop_invariant [where Q = "\<lambda>_. True"]) (simp_all add: tund_option_track)

lemma tund_track_length: "0 < length (td_track (tund_config argv)) \<and> length (td_track (tund_config argv)) < 64"
  using tund_args_track [of tund_defaults "tl argv"]
  by (auto simp: tund_config_def Let_def tund_defaults_def cstr_copy_def chars_def)

lemma tunnel_addresses_host:
  assumes "47 \<notin> set q" "length q \<le> 60" "x \<noteq> 47" "x \<noteq> 46"
  shows "tunnel_addresses (q @ [46, x, 47] @ sfx) = (q @ [46, x], q @ 46 # chars (if atoi [x] = 1 then ''2'' else ''1''))"
proof -
  have cut: "cstr_copy 64 (q @ [46, x, 47] @ sfx) = (q @ [46, x]) @ 47 # take (60 - length q) sfx"
    using assms(2) by (simp add: cstr_copy_def take_Cons')
  have ip: "takeWhile (\<lambda>b. b \<noteq> 47) ((q @ [46, x]) @ 47 # r) = q @ [46, x]" for r
    using assms(1,3) by (subst takeWhile_append2) auto
  show ?thesis
    unfolding tunnel_addresses_def cut ip Let_def using assms(2,4) by (simp add: cstr_copy_def chars_def)
qed

text \<open>
  The two ends of a tunnel agree. For the hosts 1 and 2 of a network, given with a prefix length,
  each end's own address is the address the other end configures for its peer.
\<close>

theorem tunnel_ends_agree:
  assumes "47 \<notin> set net" and "length net \<le> 60"
  shows "snd (tunnel_addresses (net @ chars ''.1/'' @ bits)) = fst (tunnel_addresses (net @ chars ''.2/'' @ bits')) \<and>
    snd (tunnel_addresses (net @ chars ''.2/'' @ bits')) = fst (tunnel_addresses (net @ chars ''.1/'' @ bits)) \<and>
    fst (tunnel_addresses (net @ chars ''.1/'' @ bits)) = net @ chars ''.1'' \<and>
    fst (tunnel_addresses (net @ chars ''.2/'' @ bits')) = net @ chars ''.2''"
proof -
  have lit: "chars ''.1/'' = [46, 49, 47]" "chars ''.2/'' = [46, 50, 47]" "chars ''.1'' = [46, 49]" "chars ''.2'' = [46, 50]"
    "chars ''1'' = [49]" "chars ''2'' = [50]" "atoi [49] = 1" "atoi [50] = 2" by code_simp+
  show ?thesis
    using tunnel_addresses_host [OF assms, of 49] tunnel_addresses_host [OF assms, of 50] by (simp add: lit)
qed

theorem tunnel_ends_agree_witness:
  "snd (tunnel_addresses (chars ''10.8.0.1/24'')) = chars ''10.8.0.2'' \<and> snd (tunnel_addresses (chars ''10.8.0.2/24'')) = chars ''10.8.0.1''"
proof -
  have lit: "chars ''10.8.0.1/24'' = chars ''10.8.0'' @ chars ''.1/'' @ chars ''24''" "chars ''10.8.0.2/24'' = chars ''10.8.0'' @ chars ''.2/'' @ chars ''24''"
    "chars ''10.8.0.1'' = chars ''10.8.0'' @ chars ''.1''" "chars ''10.8.0.2'' = chars ''10.8.0'' @ chars ''.2''" by code_simp+
  have "47 \<notin> set (chars ''10.8.0'')" "length (chars ''10.8.0'') \<le> 60" by code_simp+
  from tunnel_ends_agree [OF this, of "chars ''24''" "chars ''24''"] show ?thesis unfolding lit by simp
qed

section \<open>What the helper writes\<close>

text \<open>
  The helper's socket blocks, so a call is never refused for lack of room or data; a write of at most
  64 bytes to a stream socket is complete.
\<close>

definition blocking :: "'w os \<Rightarrow> int \<Rightarrow> bool" where
  "blocking os fd \<longleftrightarrow> (\<forall>n w. fst (os_read os fd n w) \<noteq> Inl EAGAIN) \<and> (\<forall>bs w. fst (os_write os fd bs w) \<noteq> Inl EAGAIN) \<and>
     (\<forall>bs w. length bs \<le> 64 \<longrightarrow> fst (os_write os fd bs w) = Inr (length bs))"

lemma small_write:
  assumes "out_stream os fd out pat" "blocking os fd" "length bs \<le> 64"
  obtains w' where "os_write os fd bs w = (Inr (length bs), w')" "out w' = out w @ bs"
proof -
  obtain w' where w': "os_write os fd bs w = (Inr (length bs), w')"
    using assms(2,3) unfolding blocking_def by (metis prod.collapse)
  with out_stream_write(1) [OF assms(1) w'] show ?thesis by (intro that) auto
qed

definition registration_of :: "tund_cfg \<Rightarrow> bytes" where
  "registration_of cfg = uds_registration 4 (if td_reliable cfg then 1 else 2) (td_track cfg)"

lemma connect_registers:
  assumes "os_socket os (tu_world t) = (Some fd, w1)" "os_connect os fd (setup_uds_addr (td_socket cfg)) w1 = (True, w2)"
    and "out_stream os fd out pat" "blocking os fd" "length (td_track cfg) < 64"
  obtains w' where "connect_uds os cfg t = (True, t\<lparr>tu_uds := fd, tu_world := w'\<rparr>)" "out w' = out w2 @ registration_of cfg"
proof -
  let ?n = "of_nat (length (td_track cfg)) :: u8"
  let ?h = "[ucast MOQ_TRACK_DATA, if td_reliable cfg then MOQ_TRACK_FLAG_RELIABLE else MOQ_TRACK_FLAG_FEC_ENABLED, ?n] :: bytes"
  have n: "unat ?n = length (td_track cfg)" using assms(5) by (simp add: unat_of_nat)
  obtain w3 where 3: "os_write os fd ?h w2 = (Inr (length ?h), w3)" "out w3 = out w2 @ ?h"
    by (rule small_write [OF assms(3,4), of ?h w2]) simp
  obtain w4 where 4: "os_write os fd (td_track cfg) w3 = (Inr (length (td_track cfg)), w4)" "out w4 = out w3 @ td_track cfg"
    by (rule small_write [OF assms(3,4), of "td_track cfg" w3]) (use assms(5) in simp)
  show ?thesis
    by (rule that [of w4])
      (use assms(1,2) n 3 4 in \<open>simp_all add: connect_uds_def registration_of_def uds_registration_def track_consts\<close>)
qed

lemma uplink_frame:
  assumes "os_read os tun_fd 2048 (tu_world t) = (Inr packet, w1)" "packet \<noteq> []" "tu_uds t \<noteq> -1"
    and "out_stream os (tu_uds t) out pat" "blocking os (tu_uds t)"
  obtains w' where "uplink os cfg tun_fd t = Some (False, t\<lparr>tu_world := w'\<rparr>)"
    "out w' = out w1 @ uds_frame (td_priority cfg) packet"
proof -
  let ?fd = "tu_uds t" and ?s = "le_bytes 4 (length packet)" and ?p = "[td_priority cfg]"
  obtain w2 where 2: "os_write os ?fd ?s w1 = (Inr (length ?s), w2)" "out w2 = out w1 @ ?s"
    by (rule small_write [OF assms(4,5), of ?s w1]) simp
  obtain w3 where 3: "os_write os ?fd ?p w2 = (Inr (length ?p), w3)" "out w3 = out w2 @ ?p"
    by (rule small_write [OF assms(4,5), of ?p w2]) simp
  have block: "\<forall>bs w. fst (os_write os ?fd bs w) \<noteq> Inl EAGAIN" using assms(5) by (simp add: blocking_def)
  obtain w4 where 4: "write_exact os ?fd packet 0 w3 = Some (True, w4)" "out w4 = out w3 @ packet"
    by (rule write_exact_puts [OF assms(4) block])
  show ?thesis
    by (rule that [of w4]) (use assms(1-3) 2 3 4 in \<open>simp_all add: uplink_def uds_frame_def\<close>)
qed

section \<open>What the helper reads\<close>

text \<open>
  The device takes packets, possibly after interruptions; \<open>put p\<close> is what it gets for the packet \<open>p\<close>. It is no
  part of the pipe.
\<close>

definition packet_sink :: "(bytes \<Rightarrow> bytes list) \<Rightarrow> 'w os \<Rightarrow> int \<Rightarrow> ('w \<Rightarrow> bytes list) \<Rightarrow> ('w \<Rightarrow> nat) \<Rightarrow> bool" where
  "packet_sink put os fd sink pat \<longleftrightarrow> (\<forall>p w. case os_write os fd p w of
      (Inr n, w1) \<Rightarrow> sink w1 = sink w @ put p
    | (Inl e, w1) \<Rightarrow> if e = EINTR then sink w1 = sink w \<and> pat w1 < pat w else sink w1 = sink w \<and> put p = [])"

lemma tun_write_retry_puts:
  assumes "packet_sink put os fd sink pat" "\<And>p w. f (snd (os_write os fd p w)) = f w"
  shows "\<exists>w'. tun_write_retry os fd p w = Some w' \<and> sink w' = sink w @ put p \<and> f w' = f w"
proof (induction "pat w" arbitrary: w rule: less_induct)
  case less
  obtain r w1 where wr: "os_write os fd p w = (r, w1)" by force
  have f: "f w1 = f w" using assms(2) [of p w] wr by simp
  have sink: "case r of Inr n \<Rightarrow> sink w1 = sink w @ put p
      | Inl e \<Rightarrow> if e = EINTR then sink w1 = sink w \<and> pat w1 < pat w else sink w1 = sink w \<and> put p = []"
    using assms(1) wr unfolding packet_sink_def by (metis (no_types, lifting) case_prod_conv)
  show ?case
    using less [of w1] wr f sink by (cases r) (auto simp: tun_write_retry.simps [of os fd p w])
qed

lemma downlink_delivers:
  assumes str: "in_stream os (tu_uds t) avail pat" and blk: "blocking os (tu_uds t)"
    and sink: "packet_sink put os tun_fd sink pat'"
    and sep: "\<And>n w. sink (snd (os_read os (tu_uds t) n w)) = sink w" "\<And>p w. avail (snd (os_write os tun_fd p w)) = avail w"
    and av: "avail (tu_world t) = uds_frame priority packet @ rest" and len: "length packet \<le> 2048" and "\<not> td_mock cfg"
  obtains w' where "downlink os cfg tun_fd t = Some (t\<lparr>tu_world := w'\<rparr>)" "sink w' = sink (tu_world t) @ put packet" "avail w' = rest"
proof -
  let ?fd = "tu_uds t" and ?w = "tu_world t"
  have block: "\<forall>n w. fst (os_read os ?fd n w) \<noteq> Inl EAGAIN" using blk by (simp add: blocking_def)
  note gets = read_exact_gets [OF str block] and same = read_exact_frame [where f = sink, OF sep(1)]
  have av: "avail ?w = le_bytes 4 (length packet) @ [priority] @ packet @ rest" using av by (simp add: uds_frame_def)
  obtain w1 where 1: "read_exact os ?fd 4 [] ?w = Some (True, le_bytes 4 (length packet), w1)" "avail w1 = [priority] @ packet @ rest"
    using gets [of 4 ?w] av by auto
  obtain w2 where 2: "read_exact os ?fd 1 [] w1 = Some (True, [priority], w2)" "avail w2 = packet @ rest"
    using gets [of 1 w1] 1(2) by auto
  obtain w3 where 3: "read_exact os ?fd (length packet) [] w2 = Some (True, packet, w3)" "avail w3 = rest"
    using gets [of "length packet" w2] 2(2) by auto
  obtain w4 where 4: "tun_write_retry os tun_fd packet w3 = Some w4" "sink w4 = sink w3 @ put packet" "avail w4 = avail w3"
    using tun_write_retry_puts [where f = avail, OF sink sep(2)] by blast
  have "sink w3 = sink ?w" using same 1(1) 2(1) 3(1) by metis
  with 1 2 3 4 len assms(8) show ?thesis
    by (intro that [of w4]) (simp_all add: downlink_def le_val_frame_size)
qed

section \<open>Registration\<close>

definition cfg_clean :: "tund_cfg \<Rightarrow> bool" where
  "cfg_clean c \<longleftrightarrow> 0 \<notin> set (td_track c) \<and> 0 \<notin> set (td_dev c)"

lemma cstr_copy_clean: "0 \<notin> set s \<Longrightarrow> 0 \<notin> set (cstr_copy n s)"
  by (auto simp: cstr_copy_def dest: in_set_takeD)

lemma tund_option_clean:
  assumes "cfg_clean c" "\<forall>a \<in> set as. 0 \<notin> set a"
  shows "cfg_clean (snd (tund_option a as c))"
proof (cases "as = []")
  case True
  show ?thesis
    using assms(1) by (simp add: tund_option_def True cfg_clean_def)
next
  case False
  then have "0 \<notin> set (hd as)" using assms(2) by simp
  then show ?thesis
    unfolding tund_option_def using assms(1) by (intro snd_if [where P = cfg_clean]) (simp_all add: cfg_clean_def cstr_copy_clean)
qed

lemma tund_args_clean: "cfg_clean c \<Longrightarrow> \<forall>a \<in> set as. 0 \<notin> set a \<Longrightarrow> cfg_clean (tund_args as c)"
  by (rule tund_opts.loop_invariant [where Q = "\<lambda>a. 0 \<notin> set a"]) (rule tund_option_clean)

lemma tund_track_clean:
  assumes "\<forall>a \<in> set argv. 0 \<notin> set a"
  shows "cstr_of (take 63 (td_track (tund_config argv))) = td_track (tund_config argv)"
proof -
  have d: "cfg_clean tund_defaults" by code_simp
  have "\<forall>a \<in> set (tl argv). 0 \<notin> set a" using assms by (cases argv) auto
  from tund_args_clean [OF d this] have c: "cfg_clean (tund_args (tl argv) tund_defaults)" .
  have "0 \<notin> set (chars ''tund/'')" by code_simp
  then have "0 \<notin> set (td_track (tund_config argv))"
    using c cstr_copy_clean [of "chars ''tund/'' @ td_dev (tund_args (tl argv) tund_defaults)" 64]
    by (simp add: tund_config_def Let_def cfg_clean_def)
  then show ?thesis using tund_track_length [of argv] by (simp add: cstr_of_id)
qed

text \<open>
  C30. A tunnel helper registers under its configured track. Started with any arguments, a helper
  whose connection succeeds writes one registration; the pipe that accepts a connection starting with
  those bytes never overruns its name array and puts the helper in the first free slot, for the data
  type, the flag of the chosen mode and exactly the configured track name.
\<close>

theorem tunnel_helper_registers:
  assumes "cfg = tund_config argv" and "\<forall>a \<in> set argv. 0 \<notin> set a"
    and "os_socket os (tu_world t) = (Some fd, w1)" and "os_connect os fd (setup_uds_addr (td_socket cfg)) w1 = (True, w2)"
    and "out_stream os fd out pat" and "blocking os fd"
    and "os_accept os' (du_listen_fd d) v = (Some fd', v1)" and "in_stream os' fd' avail pat'"
    and "find_index (\<lambda>c. \<not> uc_active c) (du_clients d) = Some i"
  shows "\<exists>reg t'. connect_uds os cfg t = (True, t') \<and> tu_uds t' = fd \<and> out (tu_world t') = out w2 @ reg \<and>
    (avail (os_nonblock os' fd' v1) = reg @ rest \<longrightarrow>
      (\<exists>v'. avail v' = rest \<and> accept_client os' d v = Some (Inr (d\<lparr>du_clients := (du_clients d)[i := \<lparr>uc_fd = fd',
         uc_track = \<lparr>tk_type = MOQ_TRACK_DATA,
           tk_flags = (if td_reliable cfg then MOQ_TRACK_FLAG_RELIABLE else MOQ_TRACK_FLAG_FEC_ENABLED),
           tk_name = td_track cfg\<rparr>, uc_active = True\<rparr>]\<rparr>, v'))))"
proof -
  have len: "length (td_track cfg) < 64" using tund_track_length assms(1) by simp
  obtain w' where w': "connect_uds os cfg t = (True, t\<lparr>tu_uds := fd, tu_world := w'\<rparr>)" "out w' = out w2 @ registration_of cfg"
    by (rule connect_registers [OF assms(3-6) len])
  have name: "cstr_of (take 63 (td_track cfg)) = td_track cfg" using tund_track_clean [OF assms(2)] assms(1) by simp
  have "\<exists>v'. avail v' = rest \<and> accept_client os' d v = Some (Inr (d\<lparr>du_clients := (du_clients d)[i := \<lparr>uc_fd = fd',
         uc_track = \<lparr>tk_type = MOQ_TRACK_DATA,
           tk_flags = (if td_reliable cfg then MOQ_TRACK_FLAG_RELIABLE else MOQ_TRACK_FLAG_FEC_ENABLED),
           tk_name = td_track cfg\<rparr>, uc_active = True\<rparr>]\<rparr>, v'))"
    if reg: "avail (os_nonblock os' fd' v1) = registration_of cfg @ rest"
  proof -
    obtain v' where "accept_client os' d v = Some (if 64 < length (td_track cfg) then Inl OutOfBounds
      else Inr (register_client os' fd' [4, if td_reliable cfg then 1 else 2, of_nat (length (td_track cfg))] (td_track cfg) d v'))"
      "avail v' = rest"
      by (rule accept_client_gets [OF assms(7,8) reg [unfolded registration_of_def]]) (use len in simp)
    with len name assms(9) show ?thesis
      by (intro exI [of _ v']) (simp add: register_client_def track_consts)
  qed
  with w' show ?thesis by (intro exI [of _ "registration_of cfg"] exI [of _ "t\<lparr>tu_uds := fd, tu_world := w'\<rparr>"]) simp
qed

lemma pipe_blocking: "64 \<le> k \<Longrightarrow> fd < 100 \<Longrightarrow> blocking (pipe_os k) fd"
  by (simp add: blocking_def pipe_os_def)

definition demo_tund :: "pipes \<Rightarrow> pipes tund" where
  "demo_tund w = \<lparr>tu_uds = -1, tu_seq = 0, tu_world = w\<rparr>"

theorem tunnel_helper_registers_witness:
  "\<exists>t' v'. connect_uds (pipe_os 64) (tund_config [chars ''tund'', chars ''-r'']) (demo_tund (demo_pipes [])) = (True, t') \<and>
     pp_out (tu_world t') 3 = registration_of (tund_config [chars ''tund'', chars ''-r'']) \<and>
     accept_client (pipe_os 3) demo_uds (demo_pipes (registration_of (tund_config [chars ''tund'', chars ''-r'']))) =
       Some (Inr (demo_uds\<lparr>du_clients := (du_clients demo_uds)[0 := \<lparr>uc_fd = 7,
         uc_track = \<lparr>tk_type = 4, tk_flags = 1, tk_name = chars ''tund/tun0''\<rparr>, uc_active = True\<rparr>]\<rparr>, v'))"
proof -
  let ?cfg = "tund_config [chars ''tund'', chars ''-r'']" and ?w = "demo_pipes []" and ?v = "demo_pipes (registration_of (tund_config [chars ''tund'', chars ''-r'']))"
  have args: "\<forall>a \<in> set [chars ''tund'', chars ''-r'']. 0 \<notin> set a" by code_simp
  have s: "os_socket (pipe_os 64) (tu_world (demo_tund ?w)) = (Some 3, ?w)" "os_connect (pipe_os 64) 3 (setup_uds_addr (td_socket ?cfg)) ?w = (True, ?w)"
    by (simp_all add: pipe_os_def demo_tund_def)
  have acc: "os_accept (pipe_os 3) (du_listen_fd demo_uds) ?v = (Some 7, ?v\<lparr>pp_pending := False\<rparr>)"
    by (simp add: pipe_os_def demo_uds_eq demo_pipes_def)
  have free: "find_index (\<lambda>c. \<not> uc_active c) (du_clients demo_uds) = Some 0"
    by (simp add: demo_uds_eq numeral_eq_Suc)
  have nb: "pp_in (os_nonblock (pipe_os 3) 7 (?v\<lparr>pp_pending := False\<rparr>)) 7 = registration_of ?cfg" by (simp add: pipe_os_def demo_pipes_def)
  have cfg: "td_track ?cfg = chars ''tund/tun0''" "td_reliable ?cfg" by code_simp+
  have wrote: "pp_out (tu_world (snd (connect_uds (pipe_os 64) ?cfg (demo_tund ?w)))) 3 = registration_of ?cfg" by code_simp
  have w0: "pp_out ?w 3 = []" by (simp add: demo_pipes_def)
  have out: "out_stream (pipe_os 64) 3 (\<lambda>w. pp_out w 3) (\<lambda>_. 0)" "blocking (pipe_os 64) 3"
    and inp: "in_stream (pipe_os 3) 7 (\<lambda>w. pp_in w 7) (\<lambda>_. 0)"
    by (rule pipe_out_stream pipe_blocking pipe_in_stream; simp)+
  from tunnel_helper_registers [OF refl args s out acc inp free, of "[]"] cfg nb w0 wrote
  show ?thesis by (auto simp: track_consts)
qed

section \<open>Runs of the loop\<close>

text \<open>The first \<open>n\<close> turns of the loop.\<close>

fun tund_turns :: "nat \<Rightarrow> 'w os \<Rightarrow> tund_cfg \<Rightarrow> int \<Rightarrow> 'w tund \<Rightarrow> 'w tund flow option" where
  "tund_turns 0 os cfg tun_fd t = Some (More t)"
| "tund_turns (Suc n) os cfg tun_fd t =
     (case tund_turn os cfg tun_fd t of Some (More t') \<Rightarrow> tund_turns n os cfg tun_fd t' | r \<Rightarrow> r)"

lemma tund_loop_turns: "tund_turns n os cfg tun_fd t = Some (More t') \<Longrightarrow> tund_loop os cfg tun_fd t = tund_loop os cfg tun_fd t'"
proof (induction n arbitrary: t)
  case (Suc n)
  then obtain u where "tund_turn os cfg tun_fd t = Some (More u)" "tund_turns n os cfg tun_fd u = Some (More t')"
    by (auto split: option.splits flow.splits)
  with Suc.IH [of u] show ?case by (subst tund_loop.simps) simp
qed simp

text \<open>
  A connected helper: its socket is a blocking byte stream, its device takes packets and gives none, the
  two do not disturb each other, and waiting reports the socket while it has data.
\<close>

definition tunnel_link_by ::
  "(bytes \<Rightarrow> bytes list) \<Rightarrow> 'w os \<Rightarrow> int \<Rightarrow> int \<Rightarrow> ('w \<Rightarrow> bytes) \<Rightarrow> ('w \<Rightarrow> bytes list) \<Rightarrow> ('w \<Rightarrow> nat) \<Rightarrow> bool" where
  "tunnel_link_by put os tun_fd fd avail sink pat \<longleftrightarrow> fd \<noteq> -1 \<and> in_stream os fd avail pat \<and> blocking os fd \<and> packet_sink put os tun_fd sink pat \<and>
     (\<forall>n w. sink (snd (os_read os fd n w)) = sink w) \<and> (\<forall>p w. avail (snd (os_write os tun_fd p w)) = avail w) \<and>
     (\<forall>w. avail w \<noteq> [] \<longrightarrow> (\<exists>ret w1. os_poll os [(tun_fd, True), (fd, True)] (-1) w = (Inr (ret, [False, True]), w1) \<and>
        avail w1 = avail w \<and> sink w1 = sink w))"

text \<open>A device that takes the packets as they are.\<close>

definition tunnel_link ::
  "'w os \<Rightarrow> int \<Rightarrow> int \<Rightarrow> ('w \<Rightarrow> bytes) \<Rightarrow> ('w \<Rightarrow> bytes list) \<Rightarrow> ('w \<Rightarrow> nat) \<Rightarrow> bool" where
  "tunnel_link = tunnel_link_by (\<lambda>p. [p])"

lemma tund_turn_delivers:
  assumes link: "tunnel_link_by put os tun_fd (tu_uds t) avail sink pat" and mock: "\<not> td_mock cfg"
    and av: "avail (tu_world t) = uds_frame priority packet @ rest" and len: "length packet \<le> 2048"
  obtains w' where "tund_turn os cfg tun_fd t = Some (More (t\<lparr>tu_world := w'\<rparr>))" "sink w' = sink (tu_world t) @ put packet" "avail w' = rest"
proof -
  have "avail (tu_world t) \<noteq> []" using av by (simp add: uds_frame_def)
  then obtain ret w1 where poll: "os_poll os [(tun_fd, True), (tu_uds t, True)] (-1) (tu_world t) = (Inr (ret, [False, True]), w1)"
    and w1: "avail w1 = avail (tu_world t)" "sink w1 = sink (tu_world t)"
    using link unfolding tunnel_link_by_def by blast
  let ?t = "t\<lparr>tu_world := w1\<rparr>"
  obtain w' where "downlink os cfg tun_fd ?t = Some (?t\<lparr>tu_world := w'\<rparr>)" "sink w' = sink (tu_world ?t) @ put packet" "avail w' = rest"
    by (rule downlink_delivers [of os ?t avail pat put tun_fd sink pat priority packet rest cfg])
      (use link mock av len w1 in \<open>auto simp: tunnel_link_by_def\<close>)
  with poll w1 link mock show ?thesis
    by (intro that [of w']) (simp_all add: tund_turn_def tunnel_link_by_def)
qed

lemma tund_turns_deliver:
  assumes "tunnel_link_by put os tun_fd (tu_uds t) avail sink pat" "\<not> td_mock cfg" "\<forall>p \<in> set ps. length p \<le> 2048"
    and "avail (tu_world t) = concat (map (uds_frame priority) ps) @ rest"
  shows "\<exists>w'. tund_turns (length ps) os cfg tun_fd t = Some (More (t\<lparr>tu_world := w'\<rparr>)) \<and>
    sink w' = sink (tu_world t) @ concat (map put ps) \<and> avail w' = rest"
  using assms(1,3,4)
proof (induction ps arbitrary: t)
  case Nil
  then show ?case by (intro exI [of _ "tu_world t"]) simp
next
  case (Cons p ps)
  obtain w1 where w1: "tund_turn os cfg tun_fd t = Some (More (t\<lparr>tu_world := w1\<rparr>))" "sink w1 = sink (tu_world t) @ put p"
    "avail w1 = concat (map (uds_frame priority) ps) @ rest"
    using tund_turn_delivers [OF Cons.prems(1) assms(2), of priority p "concat (map (uds_frame priority) ps) @ rest"] Cons.prems(2,3) by auto
  from Cons.IH [of "t\<lparr>tu_world := w1\<rparr>"] Cons.prems(1,2) w1(2,3) obtain w' where
    "tund_turns (length ps) os cfg tun_fd (t\<lparr>tu_world := w1\<rparr>) = Some (More (t\<lparr>tu_world := w'\<rparr>))"
    "sink w' = sink w1 @ concat (map put ps)" "avail w' = rest" by auto
  with w1 show ?case by auto
qed

lemma pipe_tunnel_link:
  "64 \<le> k \<Longrightarrow> 100 < dev \<Longrightarrow> fd < 100 \<Longrightarrow> fd \<noteq> -1 \<Longrightarrow> tunnel_link (pipe_os k) dev fd (\<lambda>w. pp_in w fd) pp_tx (\<lambda>_. 0)"
  using pipe_in_stream [of k fd] pipe_blocking [of k fd]
  by (auto simp: tunnel_link_def tunnel_link_by_def packet_sink_def pipe_os_def Let_def)

end
