(* ===== verification/Tun_Device.thy ===== *)
theory Tun_Device
  imports Tund
begin

text \<open>
  The tunnel device of the helper (\<^verbatim>\<open>tund.c\<close>) on each platform: creating and configuring the interface,
  and reading and writing packets, which on Apple and OpenBSD travel behind a four-byte address family.
  \<open>tun_layer\<close> puts that framing under the event loop of theory \<open>Tund\<close>. Opening devices, the control requests
  and the shell are the parameter record \<open>tun_os\<close>.
\<close>

section \<open>Creating the interface\<close>

datatype platform = Linux | Apple | OpenBSD | OtherBSD | OtherUnix

record 'w tun_os =
  to_open :: "cstr \<Rightarrow> 'w \<Rightarrow> int option \<times> 'w"
  to_set_iff :: "int \<Rightarrow> cstr \<Rightarrow> 'w \<Rightarrow> cstr option \<times> 'w"
  to_ctl_socket :: "'w \<Rightarrow> int option \<times> 'w"
  to_ctl_info :: "int \<Rightarrow> 'w \<Rightarrow> u32 option \<times> 'w"
  to_ctl_connect :: "int \<Rightarrow> u32 \<Rightarrow> u32 \<Rightarrow> 'w \<Rightarrow> bool \<times> 'w"
  to_inet_socket :: "'w \<Rightarrow> int option \<times> 'w"
  to_set_mtu :: "int \<Rightarrow> cstr \<Rightarrow> int \<Rightarrow> 'w \<Rightarrow> bool \<times> 'w"
  to_close :: "int \<Rightarrow> 'w \<Rightarrow> 'w"
  to_system :: "cstr \<Rightarrow> 'w \<Rightarrow> 'w"

definition IFNAMSIZ :: nat where "IFNAMSIZ = 16"

text \<open>
  The conversion \<^verbatim>\<open>%u\<close> of \<^verbatim>\<open>snprintf\<close> and of \<^verbatim>\<open>sscanf\<close>, which takes white space and a sign and wraps
  a negative number.
\<close>

fun print_u :: "nat \<Rightarrow> cstr" where
  "print_u n = (if n < 10 then [of_nat (48 + n)] else print_u (n div 10) @ [of_nat (48 + n mod 10)])"

declare print_u.simps [simp del]

definition scan_u :: "cstr \<Rightarrow> u32 option" where
  "scan_u s =
     (let s1 = dropWhile (\<lambda>b. b = 32 \<or> 9 \<le> b \<and> b \<le> 13) s;
          s2 = (if s1 \<noteq> [] \<and> (hd s1 = 45 \<or> hd s1 = 43) then tl s1 else s1)
      in if s2 = [] \<or> \<not> is_digit (hd s2) then None else Some (of_int (atoi s1)))"

definition scan_utun :: "cstr \<Rightarrow> u32 option" where
  "scan_utun s = (if take 4 s = chars ''utun'' then scan_u (drop 4 s) else None)"

text \<open>Each creation returns the descriptor and the name of the interface, \<open>None\<close> for the result \<open>-1\<close>.\<close>

definition tun_create_by_id :: "'w tun_os \<Rightarrow> u32 \<Rightarrow> 'w \<Rightarrow> (int \<times> cstr) option \<times> 'w" where
  "tun_create_by_id K i w =
     (case to_ctl_socket K w of
        (None, w1) \<Rightarrow> (None, w1)
      | (Some fd, w1) \<Rightarrow>
          (case to_ctl_info K fd w1 of
             (None, w2) \<Rightarrow> (None, to_close K fd w2)
           | (Some ctl, w2) \<Rightarrow>
               let (ok, w3) = to_ctl_connect K fd ctl (i + 1) w2
               in if ok then (Some (fd, cstr_copy IFNAMSIZ (chars ''utun'' @ print_u (unat i))), w3)
                  else (None, to_close K fd w3)))"

definition open_named :: "'w tun_os \<Rightarrow> cstr \<Rightarrow> 'w \<Rightarrow> (int \<times> cstr) option \<times> 'w" where
  "open_named K name w =
     (let (r, w1) = to_open K (cstr_copy 64 (chars ''/dev/'' @ name)) w in (map_option (\<lambda>fd. (fd, cstr_copy IFNAMSIZ name)) r, w1))"

fun first_created :: "('i \<Rightarrow> 'w \<Rightarrow> (int \<times> cstr) option \<times> 'w) \<Rightarrow> 'i list \<Rightarrow> 'w \<Rightarrow> (int \<times> cstr) option \<times> 'w" where
  "first_created f [] w = (None, w)"
| "first_created f (i # is) w = (case f i w of (None, w1) \<Rightarrow> first_created f is w1 | (Some r, w1) \<Rightarrow> (Some r, w1))"

definition tun_create_linux :: "'w tun_os \<Rightarrow> cstr option \<Rightarrow> 'w \<Rightarrow> (int \<times> cstr) option \<times> 'w" where
  "tun_create_linux K wanted w =
     (case to_open K (chars ''/dev/net/tun'') w of
        (None, w1) \<Rightarrow> (None, w1)
      | (Some fd, w1) \<Rightarrow>
          (case to_set_iff K fd (cstr_copy IFNAMSIZ (case wanted of None \<Rightarrow> [] | Some s \<Rightarrow> s)) w1 of
             (None, w2) \<Rightarrow> (None, to_close K fd w2)
           | (Some name, w2) \<Rightarrow> (Some (fd, cstr_copy IFNAMSIZ name), w2)))"

definition tun_create :: "platform \<Rightarrow> 'w tun_os \<Rightarrow> cstr option \<Rightarrow> 'w \<Rightarrow> (int \<times> cstr) option \<times> 'w" where
  "tun_create pl K wanted w =
     (let any = (wanted = None \<or> wanted = Some [])
      in case pl of
           Linux \<Rightarrow> tun_create_linux K wanted w
         | Apple \<Rightarrow>
             if any then first_created (\<lambda>i. tun_create_by_id K (of_nat i)) [0..<32] w
             else (case scan_utun (the wanted) of None \<Rightarrow> (None, w) | Some i \<Rightarrow> tun_create_by_id K i w)
         | OtherUnix \<Rightarrow> (case wanted of None \<Rightarrow> (None, w) | Some name \<Rightarrow> open_named K name w)
         | _ \<Rightarrow>
             if any then first_created (\<lambda>i. open_named K (chars ''tun'' @ print_u i)) [0..<32] w
             else open_named K (the wanted) w)"

definition tun_alloc :: "platform \<Rightarrow> 'w tun_os \<Rightarrow> cstr \<Rightarrow> 'w \<Rightarrow> (int \<times> cstr) option \<times> 'w" where
  "tun_alloc pl K dev w =
     (let wanted_name = cstr_copy IFNAMSIZ dev
      in tun_create pl K (if wanted_name \<noteq> [] then Some wanted_name else None) w)"

definition tun_set_mtu :: "'w tun_os \<Rightarrow> cstr \<Rightarrow> int \<Rightarrow> 'w \<Rightarrow> 'w" where
  "tun_set_mtu K if_name mtu w =
     (case to_inet_socket K w of
        (None, w1) \<Rightarrow> w1
      | (Some fd, w1) \<Rightarrow> to_close K fd (snd (to_set_mtu K fd (cstr_copy IFNAMSIZ if_name) mtu w1)))"

definition configure_ip_and_up :: "platform \<Rightarrow> 'w tun_os \<Rightarrow> cstr \<Rightarrow> cstr \<Rightarrow> 'w \<Rightarrow> 'w" where
  "configure_ip_and_up pl K if_name ip_cidr w =
     (let (ip, peer_ip) = tunnel_addresses ip_cidr;
          run = (\<lambda>cmd. to_system K (cstr_copy 512 cmd))
      in case pl of
           Linux \<Rightarrow>
             run (chars ''ip link set dev '' @ if_name @ chars '' up 2>/dev/null'')
               (run (chars ''ip addr add '' @ ip @ chars '' peer '' @ peer_ip @ chars '' dev '' @ if_name @ chars '' 2>/dev/null'') w)
         | OtherUnix \<Rightarrow> w
         | _ \<Rightarrow> run (chars ''ifconfig '' @ if_name @ chars '' '' @ ip @ chars '' '' @ peer_ip @ chars '' up 2>/dev/null'') w)"

text \<open>The start of \<^verbatim>\<open>main\<close>: the device, \<open>None\<close> for the exit with status 1.\<close>

definition open_device :: "platform \<Rightarrow> 'w tun_os \<Rightarrow> tund_cfg \<Rightarrow> 'w \<Rightarrow> int option \<times> 'w" where
  "open_device pl K cfg w =
     (if td_mock cfg then (Some 1000, w)
      else case tun_alloc pl K (td_dev cfg) w of
             (None, w1) \<Rightarrow> (None, w1)
           | (Some (fd, name), w1) \<Rightarrow>
               if fd < 0 then (None, w1)
               else (Some fd, tun_set_mtu K name 1400 (configure_ip_and_up pl K name (td_ip cfg) w1)))"

section \<open>Packets on the device\<close>

text \<open>
  The address families as the platforms number them. \<^verbatim>\<open>readv\<close> and \<^verbatim>\<open>writev\<close> on the family and
  the packet are a read and a write of the two in a row. The helper does not look at \<^verbatim>\<open>errno\<close> after a
  failed read.
\<close>

definition framed :: "platform \<Rightarrow> bool" where
  "framed pl \<longleftrightarrow> pl = Apple \<or> pl = OpenBSD"

definition AF_INET :: nat where "AF_INET = 2"

definition AF_INET6 :: "platform \<Rightarrow> nat" where
  "AF_INET6 pl = (if pl = Apple then 30 else 24)"

definition tun_read :: "platform \<Rightarrow> 'w os \<Rightarrow> int \<Rightarrow> nat \<Rightarrow> 'w \<Rightarrow> (errno + bytes) \<times> 'w" where
  "tun_read pl os fd n w =
     (if \<not> framed pl then os_read os fd n w
      else case os_read os fd (4 + n) w of
             (Inl e, w1) \<Rightarrow> (Inl e, w1)
           | (Inr bs, w1) \<Rightarrow> (if bs = [] then Inl EOTHER else Inr (drop 4 bs), w1))"

definition tun_write :: "platform \<Rightarrow> 'w os \<Rightarrow> int \<Rightarrow> bytes \<Rightarrow> 'w \<Rightarrow> (errno + nat) \<times> 'w" where
  "tun_write pl os fd p w =
     (if \<not> framed pl then os_write os fd p w
      else if length p < 20 then (Inr 0, w)
      else
        let ver = drop_bit 4 (hd p)
        in if ver \<noteq> 4 \<and> ver \<noteq> 6 then (Inl EOTHER, w)
           else case os_write os fd (be_bytes 4 (if ver = 4 then AF_INET else AF_INET6 pl) @ p) w of
                  (Inl e, w1) \<Rightarrow> (Inl e, w1)
                | (Inr n, w1) \<Rightarrow> (Inr (n - 4), w1))"

text \<open>
  The system as the event loop sees it: the calls on the device's descriptor are \<^verbatim>\<open>tun_read\<close> and
  \<^verbatim>\<open>tun_write\<close>; the loop's plain reads and writes are on the pipe's descriptor, which is another one while both are open.
\<close>

definition tun_layer :: "platform \<Rightarrow> int \<Rightarrow> 'w os \<Rightarrow> 'w os" where
  "tun_layer pl tun_fd os = os\<lparr>
     os_read := (\<lambda>fd. if fd = tun_fd then tun_read pl os fd else os_read os fd),
     os_write := (\<lambda>fd. if fd = tun_fd then tun_write pl os fd else os_write os fd)\<rparr>"

text \<open>The whole \<^verbatim>\<open>main\<close>: its exit status and the world.\<close>

definition tund_main :: "platform \<Rightarrow> 'w tun_os \<Rightarrow> 'w os \<Rightarrow> cstr list \<Rightarrow> 'w \<Rightarrow> (int \<times> 'w) option" where
  "tund_main pl K os argv w =
     (case open_device pl K (tund_config argv) w of
        (None, w1) \<Rightarrow> Some (1, w1)
      | (Some fd, w1) \<Rightarrow> map_option (\<lambda>w2. (0, w2))
          (tund_run (if td_mock (tund_config argv) then os else tun_layer pl fd os) argv fd w1))"

section \<open>The framing is transparent\<close>

text \<open>What the device gets for a packet: the packet behind its family if it is an IP packet, and nothing otherwise.\<close>

definition family_frame :: "platform \<Rightarrow> bytes \<Rightarrow> bytes list" where
  "family_frame pl p =
     (if length p < 20 then []
      else if hd p div 16 = 4 then [be_bytes 4 AF_INET @ p]
      else if hd p div 16 = 6 then [be_bytes 4 (AF_INET6 pl) @ p] else [])"

lemma drop_bit_4: "drop_bit 4 (b :: u8) = b div 16"
  by (simp add: drop_bit_eq_div)

lemma tun_layer_sink:
  assumes "framed pl" "packet_sink (\<lambda>p. [p]) os tun_fd sink pat"
  shows "packet_sink (family_frame pl) (tun_layer pl tun_fd os) tun_fd sink pat"
proof -
  have raw: "case os_write os tun_fd q w of (Inr n, w1) \<Rightarrow> sink w1 = sink w @ [q] | (Inl e, w1) \<Rightarrow> e = EINTR \<and> sink w1 = sink w \<and> pat w1 < pat w" for q w
    using spec [OF spec [OF assms(2) [unfolded packet_sink_def], of q], of w] by (auto split: prod.splits sum.splits if_splits)
  show ?thesis
    unfolding packet_sink_def
  proof (intro allI)
    fix p w
    show "case os_write (tun_layer pl tun_fd os) tun_fd p w of
        (Inr n, w1) \<Rightarrow> sink w1 = sink w @ family_frame pl p
      | (Inl e, w1) \<Rightarrow> if e = EINTR then sink w1 = sink w \<and> pat w1 < pat w else sink w1 = sink w \<and> family_frame pl p = []"
      using raw [where q = "be_bytes 4 (if hd p div 16 = 4 then AF_INET else AF_INET6 pl) @ p" and w = w] assms(1)
      by (auto simp: tun_layer_def tun_write_def drop_bit_4 family_frame_def Let_def split: prod.splits sum.splits)
  qed
qed

lemma tun_layer_other [simp]:
  "fd \<noteq> tun_fd \<Longrightarrow> os_read (tun_layer pl tun_fd os) fd = os_read os fd"
  "fd \<noteq> tun_fd \<Longrightarrow> os_write (tun_layer pl tun_fd os) fd = os_write os fd"
  "os_poll (tun_layer pl tun_fd os) = os_poll os" "os_poll1 (tun_layer pl tun_fd os) = os_poll1 os"
  by (simp_all add: tun_layer_def)

lemma tun_write_keeps:
  assumes "\<forall>p w. f (snd (os_write os tun_fd p w)) = f w"
  shows "f (snd (os_write (tun_layer pl tun_fd os) tun_fd p w)) = f w"
  using assms by (auto simp: tun_layer_def tun_write_def Let_def split: prod.splits sum.splits) (metis snd_conv)+

lemma tun_layer_link:
  assumes "framed pl" "tunnel_link os tun_fd fd avail sink pat" "fd \<noteq> tun_fd"
  shows "tunnel_link_by (family_frame pl) (tun_layer pl tun_fd os) tun_fd fd avail sink pat"
proof -
  note link = assms(2) [unfolded tunnel_link_def tunnel_link_by_def]
  have "packet_sink (family_frame pl) (tun_layer pl tun_fd os) tun_fd sink pat" by (rule tun_layer_sink [OF assms(1)]) (use link in blast)
  moreover have "avail (snd (os_write (tun_layer pl tun_fd os) tun_fd p w)) = avail w" for p w by (rule tun_write_keeps) (use link in blast)
  moreover have "in_stream (tun_layer pl tun_fd os) fd avail pat" "blocking (tun_layer pl tun_fd os) fd"
    using link assms(3) by (simp_all add: in_stream_def blocking_def)
  ultimately show ?thesis using link assms(3) by (simp add: tunnel_link_by_def)
qed

lemma family_frame_read:
  assumes "framed pl" "f \<in> set (family_frame pl p)" "os_read os fd (4 + n) w = (Inr f, w1)"
  shows "os_read (tun_layer pl fd os) fd n w = (Inr p, w1)"
  using assms by (auto simp: tun_layer_def tun_read_def family_frame_def split: if_splits)

text \<open>
  C29. On the platforms whose tunnel device carries an address family before each packet, the framing is
  invisible to the rest of the program. The packets arriving over the pipe are written to the device in their order,
  each IP packet whole behind the family of its version, and anything else is left out without
  stopping the helper; and whatever the device gives back in that form is read as the packet itself.
\<close>

theorem framed_device_carries_packets:
  assumes "framed pl" and "tunnel_link os tun_fd (tu_uds t) avail sink pat" and "tu_uds t \<noteq> tun_fd" and "\<not> td_mock cfg"
    and "\<forall>p \<in> set ps. length p \<le> 2048" and "avail (tu_world t) = concat (map (uds_frame priority) ps) @ rest"
  shows "(\<exists>w'. tund_turns (length ps) (tun_layer pl tun_fd os) cfg tun_fd t = Some (More (t\<lparr>tu_world := w'\<rparr>)) \<and>
      sink w' = sink (tu_world t) @ concat (map (family_frame pl) ps) \<and> avail w' = rest) \<and>
    (\<forall>p f n w w1. f \<in> set (family_frame pl p) \<longrightarrow> os_read os tun_fd (4 + n) w = (Inr f, w1) \<longrightarrow>
      os_read (tun_layer pl tun_fd os) tun_fd n w = (Inr p, w1))"
  using tund_turns_deliver [OF tun_layer_link [OF assms(1-3)] assms(4-6)] family_frame_read [OF assms(1), of _ _ os tun_fd]
  by (intro conjI allI impI) blast+

text \<open>An IPv4 packet, three bytes that are no packet, and an IPv6 packet.\<close>

definition demo_packets :: "bytes list" where
  "demo_packets = [0x45 # replicate 19 1, [1, 2, 3], 0x60 # replicate 39 2]"

theorem framed_device_carries_packets_witness:
  "\<exists>w'. tund_turns 3 (tun_layer Apple 101 (pipe_os 64)) tund_defaults 101
       \<lparr>tu_uds = 7, tu_seq = 0, tu_world = demo_pipes (concat (map (uds_frame 1) demo_packets))\<rparr> =
       Some (More \<lparr>tu_uds = 7, tu_seq = 0, tu_world = w'\<rparr>) \<and>
     pp_tx w' = [[0, 0, 0, 2] @ demo_packets ! 0, [0, 0, 0, 30] @ demo_packets ! 2]"
proof -
  let ?t = "\<lparr>tu_uds = 7, tu_seq = 0, tu_world = demo_pipes (concat (map (uds_frame 1) demo_packets))\<rparr> :: pipes tund"
  have link: "tunnel_link (pipe_os 64) 101 (tu_uds ?t) (\<lambda>w. pp_in w 7) pp_tx (\<lambda>_. 0)" using pipe_tunnel_link [of 64 101 7] by simp
  have side: "framed Apple" "tu_uds ?t \<noteq> 101" "\<not> td_mock tund_defaults" "\<forall>p \<in> set demo_packets. length p \<le> 2048"
    "pp_in (tu_world ?t) 7 = concat (map (uds_frame 1) demo_packets) @ []"
    by (simp_all add: framed_def tund_defaults_def demo_packets_def demo_pipes_def)
  have out: "concat (map (family_frame Apple) demo_packets) = [[0, 0, 0, 2] @ demo_packets ! 0, [0, 0, 0, 30] @ demo_packets ! 2]" by code_simp
  have tx: "pp_tx (tu_world ?t) = []" "length demo_packets = 3" by (simp_all add: demo_pipes_def demo_packets_def)
  show ?thesis
    using framed_device_carries_packets [OF side(1) link side(2-5)] unfolding out tx by auto
qed

section \<open>No descriptor is left behind\<close>

text \<open>\<open>live w\<close> counts the open descriptors.\<close>

definition tun_counts :: "'w tun_os \<Rightarrow> ('w \<Rightarrow> int) \<Rightarrow> bool" where
  "tun_counts K live \<longleftrightarrow>
     (\<forall>p w. live (snd (to_open K p w)) = live w + (if fst (to_open K p w) = None then 0 else 1)) \<and>
     (\<forall>w. live (snd (to_ctl_socket K w)) = live w + (if fst (to_ctl_socket K w) = None then 0 else 1)) \<and>
     (\<forall>w. live (snd (to_inet_socket K w)) = live w + (if fst (to_inet_socket K w) = None then 0 else 1)) \<and>
     (\<forall>fd w. live (to_close K fd w) = live w - 1) \<and> (\<forall>fd s w. live (snd (to_set_iff K fd s w)) = live w) \<and>
     (\<forall>fd w. live (snd (to_ctl_info K fd w)) = live w) \<and> (\<forall>fd c i w. live (snd (to_ctl_connect K fd c i w)) = live w) \<and>
     (\<forall>fd s m w. live (snd (to_set_mtu K fd s m w)) = live w) \<and> (\<forall>s w. live (to_system K s w) = live w)"

definition one_if_some :: "'a option \<Rightarrow> int" where
  "one_if_some r = (if r = None then 0 else 1)"

lemma tun_countsD:
  assumes "tun_counts K live"
  shows "to_open K p w = (r, u) \<Longrightarrow> live u = live w + one_if_some r"
    and "to_ctl_socket K w = (r, u) \<Longrightarrow> live u = live w + one_if_some r"
    and "to_inet_socket K w = (r, u) \<Longrightarrow> live u = live w + one_if_some r"
    and "to_set_iff K fd p w = (n, u) \<Longrightarrow> live u = live w" and "to_ctl_info K fd w = (c, u) \<Longrightarrow> live u = live w"
    and "to_ctl_connect K fd ctl i w = (b, u) \<Longrightarrow> live u = live w"
    and "live (to_close K fd w) = live w - 1"
  using assms unfolding tun_counts_def one_if_some_def
  by (metis fst_conv snd_conv, metis fst_conv snd_conv, metis fst_conv snd_conv, metis snd_conv, metis snd_conv, metis snd_conv, blast)

definition creates :: "('w \<Rightarrow> int) \<Rightarrow> ('w \<Rightarrow> 'a option \<times> 'w) \<Rightarrow> bool" where
  "creates live f \<longleftrightarrow> (\<forall>w r u. f w = (r, u) \<longrightarrow> live u = live w + one_if_some r)"

lemma by_id_creates:
  assumes "tun_counts K live"
  shows "creates live (tun_create_by_id K i)"
  unfolding creates_def
  using tun_countsD(2,5,6,7) [OF assms]
  by (fastforce simp: tun_create_by_id_def one_if_some_def Let_def split: prod.splits option.splits if_splits)

lemma named_creates: "tun_counts K live \<Longrightarrow> creates live (open_named K name)"
  using tun_countsD(1) [of K live] by (fastforce simp: creates_def open_named_def one_if_some_def split: prod.splits)

lemma linux_creates:
  assumes "tun_counts K live"
  shows "creates live (tun_create_linux K wanted)"
  unfolding creates_def using tun_countsD(1,4,7) [OF assms]
  by (fastforce simp: tun_create_linux_def one_if_some_def split: prod.splits option.splits)

lemma first_creates: "(\<And>i. creates live (f i)) \<Longrightarrow> creates live (first_created f is)"
proof (induction "is")
  case Nil
  then show ?case by (simp add: creates_def one_if_some_def)
next
  case (Cons i "is")
  then have "creates live (first_created f is)" "creates live (f i)" by blast+
  then show ?case by (fastforce simp: creates_def one_if_some_def split: prod.splits option.splits)
qed

lemma tun_create_creates:
  assumes "tun_counts K live"
  shows "creates live (tun_create pl K wanted)"
proof -
  have no: "creates live (\<lambda>w. (None, w))" by (simp add: creates_def one_if_some_def)
  note parts = no by_id_creates [OF assms] named_creates [OF assms] linux_creates [OF assms]
    first_creates [of live, OF by_id_creates [OF assms]] first_creates [of live, OF named_creates [OF assms]]
  show ?thesis
    using parts by (cases pl; cases wanted; cases "scan_utun (the wanted)"; cases "wanted = Some []")
      (simp_all add: creates_def tun_create_def Let_def)
qed

text \<open>
  Setting up the device leaves exactly the device open, also when some step fails: every descriptor
  opened on the way is closed again.
\<close>

lemma open_device_no_leak:
  assumes "tun_counts K live" "\<not> td_mock cfg" "open_device pl K cfg w = (r, w1)" "\<forall>fd name. fst (tun_alloc pl K (td_dev cfg) w) = Some (fd, name) \<longrightarrow> 0 \<le> fd"
  shows "live w1 = live w + one_if_some r"
proof -
  have mtu: "live (tun_set_mtu K name m w) = live w" for name m w
  proof -
    obtain a u where 1: "to_inet_socket K w = (a, u)" by force
    moreover have "live (snd (to_set_mtu K fd s m u)) = live u" for fd s using assms(1) unfolding tun_counts_def by blast
    ultimately show ?thesis using tun_countsD(3,7) [OF assms(1)] by (cases a) (fastforce simp: tun_set_mtu_def one_if_some_def)+
  qed
  have conf: "live (configure_ip_and_up pl K name ip w) = live w" for name ip w
    using assms(1) by (cases pl) (simp_all add: configure_ip_and_up_def tun_counts_def split: prod.splits)
  obtain a u where 1: "tun_alloc pl K (td_dev cfg) w = (a, u)" by force
  then have "live u = live w + one_if_some a" using tun_create_creates [OF assms(1)] by (simp add: tun_alloc_def Let_def creates_def)
  with 1 assms(2-4) mtu conf show ?thesis by (cases a) (auto simp: open_device_def one_if_some_def)
qed

end
