(* ===== verification/Links.thy ===== *)
theory Links
  imports Transport Ifmon Loops
begin

text \<open>
  The links of a transport: its local UDP sockets, kept in arrays of four entries with a counter, and
  how they follow the interface monitor. The monitor's thread writes a message per address change
  into a pipe (\<^verbatim>\<open>on_ifmon_update\<close>); \<^verbatim>\<open>transport_tick\<close> reads the messages and opens or closes
  links. The contract is a list of at most four links; the arrays refine it.
\<close>

section \<open>Messages\<close>

record ifmon_pipe_msg =
  im_index :: u32
  im_addr :: sockaddr
  im_is_added :: bool

definition addr_of_ip :: "ip_addr \<Rightarrow> sockaddr" where
  "addr_of_ip ip = (case ip of IPv4 a \<Rightarrow> SockIn a 0 | IPv6 b \<Rightarrow> SockIn6 b 0)"

definition msg_of :: "bool \<Rightarrow> u32 \<Rightarrow> ifmon_addr \<Rightarrow> ifmon_pipe_msg" where
  "msg_of added idx a = \<lparr>im_index = idx, im_addr = addr_of_ip (ia_ip a), im_is_added = added\<rparr>"

text \<open>The messages an update is turned into; the initial snapshot gives none.\<close>

definition ifmon_messages :: "ifmon_update \<Rightarrow> ifmon_pipe_msg list" where
  "ifmon_messages up =
     (if up_is_initial up then []
      else
        concat (map (\<lambda>idx.
          case find_index (\<lambda>i. if_index i = idx) (up_interfaces up) of
            None \<Rightarrow> []
          | Some j \<Rightarrow> map (msg_of True idx) (if_addrs (up_interfaces up ! j))) (up_added up)) @
        concat (map (\<lambda>d. map (msg_of True (df_index d)) (df_addrs_added d) @
                         map (msg_of False (df_index d)) (df_addrs_removed d)) (up_modified up)))"

section \<open>The system\<close>

record 'w net =
  n_read_msg :: "'w \<Rightarrow> ifmon_pipe_msg option \<times> 'w"
  n_write_msg :: "ifmon_pipe_msg \<Rightarrow> 'w \<Rightarrow> 'w"
  n_socket :: "sockaddr \<Rightarrow> 'w \<Rightarrow> int option \<times> 'w"
  n_reuse_addr :: "int \<Rightarrow> 'w \<Rightarrow> 'w"
  n_bind :: "int \<Rightarrow> sockaddr \<Rightarrow> 'w \<Rightarrow> bool \<times> 'w"
  n_nonblock :: "int \<Rightarrow> 'w \<Rightarrow> 'w"
  n_if_name :: "u32 \<Rightarrow> 'w \<Rightarrow> cstr option"
  n_bind_device :: "int \<Rightarrow> cstr \<Rightarrow> 'w \<Rightarrow> 'w"
  n_close :: "int \<Rightarrow> 'w \<Rightarrow> 'w"
  n_open_path :: "qptr \<Rightarrow> sockaddr \<Rightarrow> sockaddr \<Rightarrow> 'w \<Rightarrow> 'w"

definition on_ifmon_update :: "('w, 'm) net_scheme \<Rightarrow> ifmon_update \<Rightarrow> 'w \<Rightarrow> 'w" where
  "on_ifmon_update N up w = fold (n_write_msg N) (ifmon_messages up) w"

definition bind_to_device :: "('w, 'm) net_scheme \<Rightarrow> int \<Rightarrow> u32 \<Rightarrow> 'w \<Rightarrow> 'w" where
  "bind_to_device N fd index w =
     (if index = 0 then w
      else case n_if_name N index w of
             None \<Rightarrow> w
           | Some ifname \<Rightarrow> if take 4 ifname = chars ''veth'' then w else n_bind_device N fd ifname w)"

text \<open>\<^verbatim>\<open>transport_mock_iface_add\<close>: a test hook that writes the message itself.\<close>

definition transport_mock_iface_add :: "('w, 'm) net_scheme \<Rightarrow> u32 \<Rightarrow> ('rs, 'w) transport \<Rightarrow> ('rs, 'w) transport" where
  "transport_mock_iface_add N ip t =
     (if t_ifmon_open t
      then upd_world (n_write_msg N \<lparr>im_index = 1, im_addr = SockIn ip 0, im_is_added = True\<rparr>) t else t)"

section \<open>Adding and removing a link\<close>

definition sock_port :: "sockaddr \<Rightarrow> u16" where
  "sock_port a = (case a of SockIn ip p \<Rightarrow> p | SockIn6 b p \<Rightarrow> p | SockNone \<Rightarrow> 0)"

definition with_port :: "u16 \<Rightarrow> sockaddr \<Rightarrow> sockaddr" where
  "with_port p a = (case a of SockIn ip _ \<Rightarrow> SockIn ip p | SockIn6 b _ \<Rightarrow> SockIn6 b p | SockNone \<Rightarrow> SockNone)"

text \<open>A new IPv4 address must have the host number of the first bound one.\<close>

definition same_host :: "sockaddr \<Rightarrow> sockaddr \<Rightarrow> bool" where
  "same_host bound new = (case (bound, new) of (SockIn b _, SockIn n _) \<Rightarrow> b AND 0xFF = n AND 0xFF | _ \<Rightarrow> True)"

definition same_subnet :: "sockaddr \<Rightarrow> sockaddr \<Rightarrow> bool" where
  "same_subnet remote local = (case (remote, local) of
     (SockIn r _, SockIn l _) \<Rightarrow> r AND 0xFFFFFF00 = l AND 0xFFFFFF00 | _ \<Rightarrow> True)"

definition same_ip :: "sockaddr \<Rightarrow> sockaddr \<Rightarrow> bool" where
  "same_ip a b = (case (a, b) of (SockIn x _, SockIn y _) \<Rightarrow> x = y | (SockIn6 x _, SockIn6 y _) \<Rightarrow> x = y | _ \<Rightarrow> False)"

text \<open>A client opens a path from the new address to every remote address of the same subnet.\<close>

definition open_paths :: "('w, 'm) net_scheme \<Rightarrow> sockaddr \<Rightarrow> ('rs, 'w) transport \<Rightarrow> fault + ('rs, 'w) transport" where
  "open_paths N addr t =
     (case t_client_conn t of
        Some c \<Rightarrow>
          if t_is_server t then Inr t
          else with_conn c t (\<lambda>k. Inr (upd_world
                 (fold (\<lambda>r w. if same_subnet r addr then n_open_path N (c_quic k) r addr w else w) (t_remote_addrs t)) t))
      | None \<Rightarrow> Inr t)"

definition link_addr :: "ifmon_pipe_msg \<Rightarrow> ('rs, 'w) transport \<Rightarrow> sockaddr" where
  "link_addr msg t = with_port (if t_is_server t then sock_port (t_local_addrs t ! 0) else 0) (im_addr msg)"

definition add_link :: "('w, 'm) net_scheme \<Rightarrow> ifmon_pipe_msg \<Rightarrow> ('rs, 'w) transport \<Rightarrow> fault + ('rs, 'w) transport" where
  "add_link N msg t =
     (if TRANSPORT_MAX_PATHS \<le> t_num_fds t \<or> \<not> same_host (t_local_addrs t ! 0) (im_addr msg) then Inr t
      else case n_socket N (im_addr msg) (t_world t) of
             (None, w1) \<Rightarrow> Inr (t\<lparr>t_world := w1\<rparr>)
           | (Some fd, w1) \<Rightarrow>
               let addr = link_addr msg t;
                   (bound, w2) = n_bind N fd addr (n_reuse_addr N fd w1)
               in if \<not> bound then Inr (t\<lparr>t_world := n_close N fd w2\<rparr>)
                  else open_paths N addr
                    (t\<lparr>t_fds := (t_fds t)[t_num_fds t := fd], t_local_addrs := (t_local_addrs t)[t_num_fds t := addr],
                       t_num_fds := t_num_fds t + 1,
                       t_world := bind_to_device N fd (im_index msg) (n_nonblock N fd w2)\<rparr>))"

text \<open>
  \<open>shift_out n i xs\<close>: the entries from \<open>i + 1\<close> to \<open>n - 1\<close> move down by one; the last one stays where
  it was, beyond the new count.
\<close>

definition shift_out :: "nat \<Rightarrow> nat \<Rightarrow> 'a list \<Rightarrow> 'a list" where
  "shift_out n i xs = take i xs @ take (n - 1 - i) (drop (i + 1) xs) @ drop (n - 1) xs"

definition remove_link :: "('w, 'm) net_scheme \<Rightarrow> ifmon_pipe_msg \<Rightarrow> ('rs, 'w) transport \<Rightarrow> ('rs, 'w) transport" where
  "remove_link N msg t =
     (case find_index (\<lambda>a. same_ip a (im_addr msg)) (take (t_num_fds t) (t_local_addrs t)) of
        None \<Rightarrow> t
      | Some i \<Rightarrow>
          t\<lparr>t_fds := shift_out (t_num_fds t) i (t_fds t), t_local_addrs := shift_out (t_num_fds t) i (t_local_addrs t),
            t_num_fds := t_num_fds t - 1, t_world := n_close N (t_fds t ! i) (t_world t)\<rparr>)"

section \<open>Reading the pipe\<close>

definition ifmon_step :: "('w, 'm) net_scheme \<Rightarrow> ('rs, 'w) transport \<Rightarrow> fault + ('rs, 'w) transport flow" where
  "ifmon_step N t =
     (case n_read_msg N (t_world t) of
        (None, w1) \<Rightarrow> Inr (Stop (t\<lparr>t_world := w1\<rparr>))
      | (Some msg, w1) \<Rightarrow>
          if im_is_added msg then bindf (add_link N msg (t\<lparr>t_world := w1\<rparr>)) (\<lambda>t'. Inr (More t'))
          else Inr (More (remove_link N msg (t\<lparr>t_world := w1\<rparr>))))"

partial_function (option) ifmon_loop :: "('w, 'm) net_scheme \<Rightarrow> ('rs, 'w) transport \<Rightarrow> (fault + ('rs, 'w) transport) option" where
  "ifmon_loop N t =
     (case ifmon_step N t of Inl e \<Rightarrow> Some (Inl e)
      | Inr fl \<Rightarrow> (case fl of Stop t' \<Rightarrow> Some (Inr t') | More t' \<Rightarrow> ifmon_loop N t'))"

declare ifmon_loop.simps [code]

definition process_ifmon :: "('w, 'm) net_scheme \<Rightarrow> ('rs, 'w) transport \<Rightarrow> (fault + ('rs, 'w) transport) option" where
  "process_ifmon N t = (if t_ifmon_open t then ifmon_loop N t else Some (Inr t))"

section \<open>Choosing a socket\<close>

text \<open>A packet leaves by the link with its source address, or by the first one.\<close>

definition out_fd :: "sockaddr \<Rightarrow> ('rs, 'w) transport \<Rightarrow> int" where
  "out_fd src t =
     (case find_index (\<lambda>a. same_ip a src) (take (t_num_fds t) (t_local_addrs t)) of
        Some k \<Rightarrow> t_fds t ! k | None \<Rightarrow> t_fds t ! 0)"

section \<open>The list of links\<close>

definition links_ok :: "('rs, 'w) transport \<Rightarrow> bool" where
  "links_ok t \<longleftrightarrow> length (t_fds t) = TRANSPORT_MAX_PATHS \<and> length (t_local_addrs t) = TRANSPORT_MAX_PATHS \<and>
     t_num_fds t \<le> TRANSPORT_MAX_PATHS"

definition links :: "('rs, 'w) transport \<Rightarrow> (int \<times> sockaddr) list" where
  "links t = zip (take (t_num_fds t) (t_fds t)) (take (t_num_fds t) (t_local_addrs t))"

fun remove_first :: "('a \<Rightarrow> bool) \<Rightarrow> 'a list \<Rightarrow> 'a list" where
  "remove_first P [] = []"
| "remove_first P (x # xs) = (if P x then xs else x # remove_first P xs)"

lemma length_links: "links_ok t \<Longrightarrow> length (links t) = t_num_fds t"
  by (simp add: links_def links_ok_def)

lemma links_world [simp]: "links (t\<lparr>t_world := w\<rparr>) = links t" "links_ok (t\<lparr>t_world := w\<rparr>) = links_ok t"
  by (simp_all add: links_def links_ok_def)

lemma map_snd_links: "links_ok t \<Longrightarrow> map snd (links t) = take (t_num_fds t) (t_local_addrs t)"
  by (simp add: links_def links_ok_def)

lemma find_index_map: "find_index P (map f xs) = find_index (\<lambda>x. P (f x)) xs"
  by (induction xs) auto

lemma remove_first_at: "find_index P xs = Some i \<Longrightarrow> remove_first P xs = take i xs @ drop (i + 1) xs"
  by (induction xs arbitrary: i) (auto split: if_splits)

lemma remove_first_none: "find_index P xs = None \<Longrightarrow> remove_first P xs = xs"
  by (induction xs) (auto split: if_splits)

lemma take_shift_out: "i < n \<Longrightarrow> n \<le> length xs \<Longrightarrow> take (n - Suc 0) (shift_out n i xs) = take i (take n xs) @ drop (i + 1) (take n xs)"
proof -
  assume n: "i < n" "n \<le> length xs"
  let ?a = "take i xs @ take (n - 1 - i) (drop (i + 1) xs)"
  have "length ?a = n - 1" using n by simp
  then have "take (n - 1) (?a @ drop (n - 1) xs) = ?a" by (metis append_eq_conv_conj)
  moreover have "take (n - 1 - i) (drop (i + 1) xs) = drop (i + 1) (take n xs)" by (simp add: drop_take)
  ultimately show ?thesis using n by (simp add: shift_out_def min_def)
qed

lemma length_shift_out: "i < n \<Longrightarrow> n \<le> length xs \<Longrightarrow> length (shift_out n i xs) = length xs"
  by (simp add: shift_out_def)

lemma open_paths_frame: "open_paths N addr t = Inr t' \<Longrightarrow> \<exists>w. t' = t\<lparr>t_world := w\<rparr>"
  by (auto simp: open_paths_def upd_world_def with_conn_def split: option.splits if_splits intro: exI [of _ "t_world t'"])

lemma links_append:
  assumes "links_ok t" "t_num_fds t < TRANSPORT_MAX_PATHS"
  shows "links (t\<lparr>t_fds := (t_fds t)[t_num_fds t := fd], t_local_addrs := (t_local_addrs t)[t_num_fds t := a],
      t_num_fds := t_num_fds t + 1, t_world := w\<rparr>) = links t @ [(fd, a)]"
  using assms by (simp add: links_def links_ok_def take_Suc_conv_app_nth)

text \<open>Everything but the links and the world.\<close>

definition same_but_links :: "('rs, 'w) transport \<Rightarrow> ('rs, 'w) transport \<Rightarrow> bool" where
  "same_but_links t t' \<longleftrightarrow> t' = t\<lparr>t_fds := t_fds t', t_num_fds := t_num_fds t', t_local_addrs := t_local_addrs t', t_world := t_world t'\<rparr>"

lemma same_but_links_refl [simp]: "same_but_links t (t\<lparr>t_world := w\<rparr>)" "same_but_links t t"
  by (simp_all add: same_but_links_def)

lemma same_but_links_trans: "same_but_links a b \<Longrightarrow> same_but_links b c \<Longrightarrow> same_but_links a c"
proof -
  assume ab: "same_but_links a b" and bc: "same_but_links b c"
  show ?thesis unfolding same_but_links_def
    by (subst bc [unfolded same_but_links_def], subst ab [unfolded same_but_links_def]) simp
qed

lemma add_link_cases:
  assumes "add_link N msg t = Inr t'"
  obtains (kept) w where "t' = t\<lparr>t_world := w\<rparr>"
      "TRANSPORT_MAX_PATHS \<le> t_num_fds t \<or> \<not> same_host (t_local_addrs t ! 0) (im_addr msg) \<or>
       (\<forall>fd w1. n_socket N (im_addr msg) (t_world t) = (Some fd, w1) \<longrightarrow> \<not> fst (n_bind N fd (link_addr msg t) (n_reuse_addr N fd w1)))"
  | (opened) fd w1 w where "t_num_fds t < TRANSPORT_MAX_PATHS" "same_host (t_local_addrs t ! 0) (im_addr msg)"
      "n_socket N (im_addr msg) (t_world t) = (Some fd, w1)" "fst (n_bind N fd (link_addr msg t) (n_reuse_addr N fd w1))"
      "t' = t\<lparr>t_fds := (t_fds t)[t_num_fds t := fd], t_local_addrs := (t_local_addrs t)[t_num_fds t := link_addr msg t],
         t_num_fds := t_num_fds t + 1, t_world := w\<rparr>"
proof (cases "TRANSPORT_MAX_PATHS \<le> t_num_fds t \<or> \<not> same_host (t_local_addrs t ! 0) (im_addr msg)")
  case True
  with assms have "t' = t\<lparr>t_world := t_world t\<rparr>" by (auto simp: add_link_def)
  then show ?thesis by (rule kept) (use True in blast)
next
  case False
  obtain r w1 where r: "n_socket N (im_addr msg) (t_world t) = (r, w1)" by force
  show ?thesis
  proof (cases r)
    case None
    with False assms r have "t' = t\<lparr>t_world := w1\<rparr>" by (simp add: add_link_def)
    then show ?thesis by (rule kept) (use None r in simp)
  next
    case (Some fd)
    obtain b w2 where b: "n_bind N fd (link_addr msg t) (n_reuse_addr N fd w1) = (b, w2)" by force
    show ?thesis
    proof (cases b)
      case False2: False
      with False assms r Some b have "t' = t\<lparr>t_world := n_close N fd w2\<rparr>" by (simp add: add_link_def)
      then show ?thesis by (rule kept) (use False2 Some r b in auto)
    next
      case True
      let ?w = "bind_to_device N fd (im_index msg) (n_nonblock N fd w2)"
      let ?t = "t\<lparr>t_fds := (t_fds t)[t_num_fds t := fd], t_local_addrs := (t_local_addrs t)[t_num_fds t := link_addr msg t],
         t_num_fds := t_num_fds t + 1, t_world := ?w\<rparr>"
      have "open_paths N (link_addr msg t) ?t = Inr t'" using False assms r Some b True by (simp add: add_link_def Let_def)
      with open_paths_frame obtain w where "t' = ?t\<lparr>t_world := w\<rparr>" by blast
      then show ?thesis by (intro opened [of fd w1 w]) (use False r Some b True in simp_all)
    qed
  qed
qed

lemma add_link_steps:
  assumes "links_ok t" "add_link N msg t = Inr t'"
  shows "links_ok t' \<and> same_but_links t t'"
  using assms(2)
proof (cases rule: add_link_cases)
  case opened
  then show ?thesis using assms(1) by (simp add: links_ok_def same_but_links_def)
qed (use assms(1) in simp)

lemma remove_link_steps:
  assumes "links_ok t"
  shows "links_ok (remove_link N msg t)" "same_but_links t (remove_link N msg t)"
    "links (remove_link N msg t) = remove_first (\<lambda>l. same_ip (snd l) (im_addr msg)) (links t)"
proof -
  let ?P = "\<lambda>a. same_ip a (im_addr msg)"
  have f: "find_index ?P (take (t_num_fds t) (t_local_addrs t)) = find_index (\<lambda>l. ?P (snd l)) (links t)"
    using assms by (simp add: map_snd_links [symmetric] find_index_map)
  have "links_ok (remove_link N msg t) \<and> same_but_links t (remove_link N msg t) \<and>
    links (remove_link N msg t) = remove_first (\<lambda>l. ?P (snd l)) (links t)"
  proof (cases "find_index (\<lambda>l. ?P (snd l)) (links t)")
    case None
    with f assms show ?thesis by (simp add: remove_link_def remove_first_none)
  next
    case (Some i)
    have i: "i < t_num_fds t" using find_index_SomeD [OF Some] length_links [OF assms] by simp
    let ?t = "t\<lparr>t_fds := shift_out (t_num_fds t) i (t_fds t), t_local_addrs := shift_out (t_num_fds t) i (t_local_addrs t),
            t_num_fds := t_num_fds t - 1, t_world := n_close N (t_fds t ! i) (t_world t)\<rparr>"
    have r: "remove_link N msg t = ?t" using Some f by (simp add: remove_link_def)
    have ok: "links_ok ?t" using assms i by (simp add: links_ok_def length_shift_out le_diff_conv)
    have "links ?t = take i (links t) @ drop (i + 1) (links t)"
      using assms i by (simp add: links_def links_ok_def take_shift_out take_zip drop_zip zip_append1 min_def)
    then have "links ?t = remove_first (\<lambda>l. ?P (snd l)) (links t)" using remove_first_at [OF Some] by simp
    with ok r show ?thesis by (auto simp: same_but_links_def)
  qed
  then show "links_ok (remove_link N msg t)" "same_but_links t (remove_link N msg t)"
    "links (remove_link N msg t) = remove_first (\<lambda>l. same_ip (snd l) (im_addr msg)) (links t)" by blast+
qed

text \<open>A pipe that holds finitely many messages, which no socket operation adds to.\<close>

definition pipe_drains :: "('w, 'm) net_scheme \<Rightarrow> ('w \<Rightarrow> nat) \<Rightarrow> bool" where
  "pipe_drains N pend \<longleftrightarrow>
     (\<forall>w msg w1. n_read_msg N w = (Some msg, w1) \<longrightarrow> pend w1 < pend w) \<and>
     (\<forall>a w. pend (snd (n_socket N a w)) \<le> pend w) \<and> (\<forall>fd w. pend (n_reuse_addr N fd w) \<le> pend w) \<and>
     (\<forall>fd a w. pend (snd (n_bind N fd a w)) \<le> pend w) \<and> (\<forall>fd w. pend (n_nonblock N fd w) \<le> pend w) \<and>
     (\<forall>fd i w. pend (n_bind_device N fd i w) \<le> pend w) \<and> (\<forall>fd w. pend (n_close N fd w) \<le> pend w) \<and>
     (\<forall>q r a w. pend (n_open_path N q r a w) \<le> pend w)"

lemma open_paths_pend:
  assumes "pipe_drains N pend" "open_paths N addr t = Inr t'"
  shows "pend (t_world t') \<le> pend (t_world t)"
proof -
  have "pend (fold (\<lambda>r w. if same_subnet r addr then n_open_path N q r addr w else w) rs w) \<le> pend w" for q rs w
  proof (induction rs arbitrary: w)
    case (Cons r rs)
    have "pend (n_open_path N q r addr w) \<le> pend w" using assms(1) by (simp add: pipe_drains_def)
    with Cons [of w] Cons [of "n_open_path N q r addr w"] show ?case by (auto intro: le_trans)
  qed simp
  with assms(2) show ?thesis by (auto simp: open_paths_def with_conn_def split: option.splits if_splits)
qed

lemma bind_to_device_pend: "pipe_drains N pend \<Longrightarrow> pend (bind_to_device N fd i w) \<le> pend w"
  by (simp add: bind_to_device_def pipe_drains_def split: option.splits)

lemma add_link_pend:
  assumes "pipe_drains N pend" "add_link N msg t = Inr t'"
  shows "pend (t_world t') \<le> pend (t_world t)"
proof (cases "TRANSPORT_MAX_PATHS \<le> t_num_fds t \<or> \<not> same_host (t_local_addrs t ! 0) (im_addr msg)")
  case True
  with assms(2) show ?thesis by (auto simp: add_link_def)
next
  case False
  obtain r w1 where r: "n_socket N (im_addr msg) (t_world t) = (r, w1)" by force
  have w1: "pend w1 \<le> pend (t_world t)" using assms(1) r unfolding pipe_drains_def by (metis snd_conv)
  show ?thesis
  proof (cases r)
    case (Some fd)
    obtain b w2 where b: "n_bind N fd (link_addr msg t) (n_reuse_addr N fd w1) = (b, w2)" by force
    have w2: "pend w2 \<le> pend w1" using assms(1) b unfolding pipe_drains_def by (metis snd_conv le_trans)
    have c: "pend (n_close N fd w2) \<le> pend w2" "pend (n_nonblock N fd w2) \<le> pend w2"
      using assms(1) by (simp_all add: pipe_drains_def)
    show ?thesis
    proof (cases b)
      case True
      let ?w = "bind_to_device N fd (im_index msg) (n_nonblock N fd w2)"
      let ?t = "t\<lparr>t_fds := (t_fds t)[t_num_fds t := fd], t_local_addrs := (t_local_addrs t)[t_num_fds t := link_addr msg t],
         t_num_fds := t_num_fds t + 1, t_world := ?w\<rparr>"
      have "open_paths N (link_addr msg t) ?t = Inr t'" using False assms(2) r Some b True by (simp add: add_link_def Let_def)
      from open_paths_pend [OF assms(1) this] have "pend (t_world t') \<le> pend ?w" by simp
      with bind_to_device_pend [OF assms(1), of fd "im_index msg" "n_nonblock N fd w2"] c w1 w2 show ?thesis by linarith
    next
      case False2: False
      with False assms(2) r Some b have "t' = t\<lparr>t_world := n_close N fd w2\<rparr>" by (simp add: add_link_def)
      with c w1 w2 show ?thesis by simp
    qed
  qed (use False assms(2) r w1 in \<open>auto simp: add_link_def\<close>)
qed

lemma remove_link_pend: "pipe_drains N pend \<Longrightarrow> pend (t_world (remove_link N msg t)) \<le> pend (t_world t)"
  by (simp add: remove_link_def pipe_drains_def split: option.splits)

lemma ifmon_step_more:
  assumes "pipe_drains N pend" "ifmon_step N t = Inr (More t')"
  shows "pend (t_world t') < pend (t_world t)"
proof -
  obtain msg w1 where r: "n_read_msg N (t_world t) = (Some msg, w1)"
    using assms(2) by (cases "n_read_msg N (t_world t)") (auto simp: ifmon_step_def split: option.splits)
  then have "pend w1 < pend (t_world t)" using assms(1) by (auto simp: pipe_drains_def)
  moreover have "pend (t_world t') \<le> pend w1"
    using assms(2) r add_link_pend [OF assms(1), of msg "t\<lparr>t_world := w1\<rparr>" t'] remove_link_pend [OF assms(1), of msg "t\<lparr>t_world := w1\<rparr>"]
    by (auto simp: ifmon_step_def bindf_Inr_iff split: if_splits)
  ultimately show ?thesis by simp
qed

interpretation il: parser_loop "ifmon_step N" "ifmon_loop N" "\<lambda>t. pipe_drains N pend" "\<lambda>t. pend (t_world t)"
  for N :: "('w, 'm) net_scheme" and pend :: "'w \<Rightarrow> nat"
  by unfold_locales (rule ifmon_loop.simps, assumption, rule ifmon_step_more)

lemma ifmon_step_keeps:
  assumes "links_ok t" "ifmon_step N t = Inr (More t') \<or> ifmon_step N t = Inr (Stop t')"
  shows "links_ok t' \<and> same_but_links t t'"
proof -
  obtain r w1 where r: "n_read_msg N (t_world t) = (r, w1)" by force
  let ?t = "t\<lparr>t_world := w1\<rparr>"
  have ok: "links_ok ?t" and same: "same_but_links t ?t" using assms(1) by simp_all
  show ?thesis
  proof (cases r)
    case None
    with r assms show ?thesis by (auto simp: ifmon_step_def)
  next
    case (Some msg)
    show ?thesis
    proof (cases "im_is_added msg")
      case True
      with assms(2) r Some have "add_link N msg ?t = Inr t'" by (auto simp: ifmon_step_def bindf_Inr_iff)
      from add_link_steps [OF ok this] same_but_links_trans [OF same] show ?thesis by blast
    next
      case False
      with assms(2) r Some have "t' = remove_link N msg ?t" by (auto simp: ifmon_step_def)
      with remove_link_steps [OF ok, of N msg] same_but_links_trans [OF same] show ?thesis by blast
    qed
  qed
qed

text \<open>
  Processing the interface messages ends and touches only the links. With finitely many messages in
  the pipe, the loop of \<^verbatim>\<open>transport_tick\<close> returns; unless a client's connection pointer is dangling, it
  returns a transport whose link arrays are well-formed (at most four links) and whose every
  other part is as before.
\<close>

theorem ifmon_processing_keeps_links:
  assumes "links_ok t" and "pipe_drains N pend"
  shows "\<exists>r. process_ifmon N t = Some r \<and> (\<forall>t'. r = Inr t' \<longrightarrow> links_ok t' \<and> same_but_links t t')"
proof (cases "t_ifmon_open t")
  case True
  obtain r where r: "ifmon_loop N t = Some r" using il.loop_terminates [OF assms(2)] by blast
  have "links_ok t' \<and> same_but_links t t'" if "r = Inr t'" for t'
  proof (rule il.loop_keeps [OF assms(2), where P = "\<lambda>u. links_ok u \<and> same_but_links t u"])
    show "links_ok t \<and> same_but_links t t" using assms(1) by simp
    show "ifmon_loop N t = Some (Inr t')" using r that by simp
    show "links_ok t2 \<and> same_but_links t t2"
      if "links_ok t1 \<and> same_but_links t t1" "ifmon_step N t1 = Inr (More t2) \<or> ifmon_step N t1 = Inr (Stop t2)" for t1 t2
      using ifmon_step_keeps [OF _ that(2)] that(1) same_but_links_trans by blast
  qed
  with True r show ?thesis by (simp add: process_ifmon_def)
qed (use assms(1) in \<open>simp add: process_ifmon_def\<close>)

text \<open>A system with a list of messages, whose sockets always open and bind.\<close>

record demo_net_world =
  dn_msgs :: "ifmon_pipe_msg list"
  dn_next_fd :: int
  dn_closed :: "int list"
  dn_paths :: "(qptr \<times> sockaddr \<times> sockaddr) list"

definition demo_net :: "demo_net_world net" where
  "demo_net = \<lparr>
     n_read_msg = (\<lambda>w. case dn_msgs w of [] \<Rightarrow> (None, w) | m # ms \<Rightarrow> (Some m, w\<lparr>dn_msgs := ms\<rparr>)),
     n_write_msg = (\<lambda>m w. w\<lparr>dn_msgs := dn_msgs w @ [m]\<rparr>),
     n_socket = (\<lambda>a w. (Some (dn_next_fd w), w\<lparr>dn_next_fd := dn_next_fd w + 1\<rparr>)),
     n_reuse_addr = (\<lambda>fd w. w),
     n_bind = (\<lambda>fd a w. (True, w)),
     n_nonblock = (\<lambda>fd w. w),
     n_if_name = (\<lambda>i w. Some (chars ''eth0'')),
     n_bind_device = (\<lambda>fd name w. w),
     n_close = (\<lambda>fd w. w\<lparr>dn_closed := fd # dn_closed w\<rparr>),
     n_open_path = (\<lambda>q r a w. w\<lparr>dn_paths := (q, r, a) # dn_paths w\<rparr>)\<rparr>"

definition demo_net_world0 :: "ifmon_pipe_msg list \<Rightarrow> demo_net_world" where
  "demo_net_world0 ms = \<lparr>dn_msgs = ms, dn_next_fd = 3, dn_closed = [], dn_paths = []\<rparr>"

definition demo_linked :: "ifmon_pipe_msg list \<Rightarrow> (nat, demo_net_world) transport" where
  "demo_linked ms = (blank_transport (demo_net_world0 ms))\<lparr>t_ifmon_open := True\<rparr>"

lemma demo_drains: "pipe_drains demo_net (\<lambda>w. length (dn_msgs w))"
  by (auto simp: pipe_drains_def demo_net_def split: list.splits)

lemma demo_linked_ok: "links_ok (demo_linked ms)"
  by (simp add: links_ok_def demo_linked_def blank_transport_def)

definition demo_add :: "u32 \<Rightarrow> ifmon_pipe_msg" where
  "demo_add ip = \<lparr>im_index = 2, im_addr = SockIn ip 0, im_is_added = True\<rparr>"

theorem ifmon_processing_keeps_links_witness:
  "\<exists>t'. process_ifmon demo_net (demo_linked [demo_add 5, demo_add 261, demo_add 6]) = Some (Inr t') \<and> links_ok t' \<and>
     links t' = [(3, SockIn 5 0), (4, SockIn 261 0)]"
proof -
  let ?t = "demo_linked [demo_add 5, demo_add 261, demo_add 6]"
  have run: "(case process_ifmon demo_net ?t of Some (Inr t') \<Rightarrow> links t' = [(3, SockIn 5 0), (4, SockIn 261 0)] | _ \<Rightarrow> False)"
    by code_simp
  from ifmon_processing_keeps_links [OF demo_linked_ok demo_drains, of "[demo_add 5, demo_add 261, demo_add 6]"]
  obtain r where "process_ifmon demo_net ?t = Some r" "\<forall>t'. r = Inr t' \<longrightarrow> links_ok t' \<and> same_but_links ?t t'" by blast
  with run show ?thesis by (auto split: sum.splits)
qed

section \<open>Refinement of the list of links\<close>

text \<open>
  C34. The link arrays implement a list of at most four links. A message about a new address appends the
  socket opened for it, with the transport's port, exactly if there is room, the host number is that of
  the first bound address and the system opens and binds the socket; a message about a lost address
  removes the first link with that address and keeps the order of the others; a packet is sent by the
  first link that has its source address.
\<close>

theorem link_table_refines_list:
  assumes "links_ok t" and "add_link N msg t = Inr t'"
  shows "length (links t) \<le> 4 \<and>
    links t' = (case n_socket N (im_addr msg) (t_world t) of
        (Some fd, w1) \<Rightarrow>
          if length (links t) < 4 \<and> same_host (t_local_addrs t ! 0) (im_addr msg) \<and>
             fst (n_bind N fd (link_addr msg t) (n_reuse_addr N fd w1))
          then links t @ [(fd, link_addr msg t)] else links t
      | (None, w1) \<Rightarrow> links t) \<and>
    links (remove_link N msg t) = remove_first (\<lambda>l. same_ip (snd l) (im_addr msg)) (links t) \<and>
    (\<forall>i < length (links t). same_ip (snd (links t ! i)) src \<and> (\<forall>j < i. \<not> same_ip (snd (links t ! j)) src) \<longrightarrow>
       out_fd src t = fst (links t ! i))"
proof -
  have len: "length (links t) = t_num_fds t" "t_num_fds t \<le> 4"
    using assms(1) length_links by (auto simp: links_ok_def TRANSPORT_MAX_PATHS_def)
  obtain r w1 where r: "n_socket N (im_addr msg) (t_world t) = (r, w1)" by force
  from assms(2) have add: "links t' = (case n_socket N (im_addr msg) (t_world t) of
        (Some fd, w1) \<Rightarrow>
          if length (links t) < 4 \<and> same_host (t_local_addrs t ! 0) (im_addr msg) \<and>
             fst (n_bind N fd (link_addr msg t) (n_reuse_addr N fd w1))
          then links t @ [(fd, link_addr msg t)] else links t
      | (None, w1) \<Rightarrow> links t)"
  proof (cases rule: add_link_cases)
    case (kept w)
    then show ?thesis using r len by (cases r) (auto simp: TRANSPORT_MAX_PATHS_def)
  next
    case (opened fd w1 w)
    then show ?thesis using len links_append [OF assms(1) opened(1)] by (simp add: TRANSPORT_MAX_PATHS_def)
  qed
  have out: "out_fd src t = fst (links t ! i)"
    if i: "i < length (links t)" "same_ip (snd (links t ! i)) src" "\<forall>j < i. \<not> same_ip (snd (links t ! j)) src" for i
  proof -
    have "find_index (\<lambda>l. same_ip (snd l) src) (links t) = Some i" using i by (intro find_index_SomeI) auto
    then have "find_index (\<lambda>a. same_ip a src) (take (t_num_fds t) (t_local_addrs t)) = Some i"
      using assms(1) by (simp add: map_snd_links [symmetric] find_index_map)
    moreover have "fst (links t ! i) = t_fds t ! i" using i(1) len assms(1) by (simp add: links_def links_ok_def)
    ultimately show ?thesis by (simp add: out_fd_def)
  qed
  have "length (links t) \<le> 4" using len by simp
  then show ?thesis using add remove_link_steps(3) [OF assms(1)] out by blast
qed

theorem link_table_refines_list_witness:
  "\<exists>t'. add_link demo_net (demo_add 5) (demo_linked []) = Inr t' \<and> links t' = [(3, SockIn 5 0)]"
proof -
  let ?t = "demo_linked []"
  obtain t' where t': "add_link demo_net (demo_add 5) ?t = Inr t'"
    by (simp add: add_link_def demo_net_def demo_linked_def demo_net_world0_def blank_transport_def demo_add_def same_host_def
        TRANSPORT_MAX_PATHS_def open_paths_def)
  have "links ?t = []" "n_socket demo_net (im_addr (demo_add 5)) (t_world ?t) = (Some 3, (demo_net_world0 [])\<lparr>dn_next_fd := 4\<rparr>)"
    "same_host (t_local_addrs ?t ! 0) (im_addr (demo_add 5))" "link_addr (demo_add 5) ?t = SockIn 5 0"
    by (simp_all add: demo_net_def demo_linked_def demo_net_world0_def blank_transport_def demo_add_def same_host_def
        TRANSPORT_MAX_PATHS_def links_def link_addr_def with_port_def)
  with link_table_refines_list [OF demo_linked_ok t'] t' show ?thesis by (simp add: demo_net_def)
qed

text \<open>
  C35. An interface that disappears altogether is not reported to the transport: the update lists it as
  removed, but no message carries its index, so its links stay open.
\<close>

theorem removed_interface_unreported:
  assumes "length prev \<le> 16" and "length cur \<le> 16" and "p \<in> set prev" and "if_index p \<notin> if_index ` set cur"
  shows "if_index p \<in> set (up_removed (generate_update prev cur False)) \<and>
    (\<forall>m \<in> set (ifmon_messages (generate_update prev cur False)). im_index m \<noteq> if_index p)"
proof -
  let ?up = "generate_update prev cur False"
  note ge = generate_update_eq [of prev cur, unfolded IFMON_MAX_INTERFACES_def, OF assms(1,2)]
  have rm: "if_index p \<in> set (up_removed ?up)" 
  proof -
    have "find_index (\<lambda>c. if_index c = if_index p) cur = None"
      unfolding find_index_None_iff using assms(4) by (metis image_eqI)
    then show ?thesis unfolding ge using assms(3) by auto
  qed
  have "im_index m \<in> if_index ` set cur" if "m \<in> set (ifmon_messages ?up)" for m
  proof -
    have "(\<exists>idx \<in> set (up_added ?up). im_index m = idx) \<or> (\<exists>d \<in> set (up_modified ?up). im_index m = df_index d)"
      using that by (auto simp: ifmon_messages_def msg_of_def split: if_splits option.splits)
    moreover have "df_index d \<in> if_index ` set cur" if d: "d \<in> set (up_modified ?up)" for d
    proof -
      obtain c where "c \<in> set cur" "changed_iface prev c = Some d"
        using d unfolding ge by (force simp: map_filter_def)
      then show ?thesis by (auto simp: changed_iface_def iface_diff_def Let_def split: option.splits if_splits)
    qed
    ultimately show ?thesis unfolding ge by auto
  qed
  then show ?thesis using rm assms(4) by metis
qed

theorem removed_interface_unreported_witness:
  "2 \<in> set (up_removed (generate_update demo_snapshot [] False)) \<and>
   2 \<notin> im_index ` set (ifmon_messages (generate_update demo_snapshot [] False))"
  using removed_interface_unreported [of demo_snapshot "[]" "hd demo_snapshot"] by (auto simp: demo_snapshot_def)

end
