(* ===== verification/Callbacks.thy ===== *)
theory Callbacks
  imports Stream_Parsing
begin

text \<open>
  The callbacks that the transport registers with quicly: the streams' table (\<^verbatim>\<open>on_stream_destroy\<close>,
  \<^verbatim>\<open>on_stop_sending\<close>, \<^verbatim>\<open>on_receive\<close>, \<^verbatim>\<open>on_receive_reset\<close>), \<^verbatim>\<open>on_stream_open\<close> and \<^verbatim>\<open>on_receive_datagram_frame\<close>.
  quicly calls them while it handles a packet; \<open>on_callback\<close> is the dispatch. The locale \<open>callback_relation\<close>
  states what a relation between the transport before and after must allow so that every callback respects it.
\<close>

section \<open>The callbacks\<close>

datatype quic_callback =
    StreamOpened sptr
  | StreamDestroyed sptr
  | StopSending sptr int
  | StreamReceived sptr nat bytes
  | StreamReset sptr int
  | DatagramReceived bytes

text \<open>A callback of the connection \<open>q\<close>. Only those that are given the peer's data can fault or fail to return.\<close>

fun on_callback ::
  "('rs, 'rq, 'sc, 'w) env \<Rightarrow> qptr \<Rightarrow> quic_callback \<Rightarrow> ('rs, 'w) transport \<Rightarrow> (fault + ('rs, 'w) transport) option" where
  "on_callback E q (StreamOpened s) t = Some (Inr (on_stream_open E s t))"
| "on_callback E q (StreamDestroyed s) t = Some (Inr (on_stream_destroy E s t))"
| "on_callback E q (StopSending s err) t = Some (Inr (on_stop_sending E s err t))"
| "on_callback E q (StreamReceived s off src) t = on_receive E s off src t"
| "on_callback E q (StreamReset s err) t = Some (Inr (on_receive_reset E s err t))"
| "on_callback E q (DatagramReceived payload) t = Some (on_receive_datagram_frame E q payload t)"

section \<open>What a callback may do\<close>

text \<open>The operations of quicly that the callbacks use, and reading the clock.\<close>

inductive io_step :: "('rs, 'rq, 'sc, 'w) env \<Rightarrow> 'w \<Rightarrow> 'w \<Rightarrow> bool" for E w where
  io_shift: "io_step E w (e_ingress_shift E s n w)"
| io_receive: "io_step E w (snd (e_ingress_receive E s off src w))"
| io_write: "io_step E w (e_egress_write E s bs w)"
| io_shutdown: "io_step E w (e_egress_shutdown E s w)"
| io_reset: "io_step E w (e_reset_stream E s err w)"
| io_close: "io_step E w (e_close E q msg w)"
| io_datagram: "io_step E w (e_send_datagram E q dg w)"
| io_datagram_path: "io_step E w (e_send_datagram_path E q i dg w)"
| io_time: "io_step E w (snd (e_time_ns E w))"

inductive_simps io_step_iff: "io_step E w w'"

locale callback_relation =
  fixes E :: "('rs, 'rq, 'sc, 'w) env" and R :: "('rs, 'w) transport \<Rightarrow> ('rs, 'w) transport \<Rightarrow> bool"
  assumes refl: "R t t" and trans: "R t t1 \<Longrightarrow> R t1 t2 \<Longrightarrow> R t t2"
    and io: "io_step E (t_world t) w \<Longrightarrow> R t (t\<lparr>t_world := w\<rparr>)"
    and conn: "t_heap t c = Some k \<Longrightarrow> R t (put_conn c k' t)"
    and streams: "R t (t\<lparr>t_streams := x\<rparr>)" and cache: "R t (t\<lparr>t_fec_cache := y\<rparr>)"
    and owd: "R t (t\<lparr>t_min_owd_ns := m, t_latest_owd_fp := l, t_last_telemetry_s_ns := ts, t_last_telemetry_r_ns := tr\<rparr>)"
    and event: "R t (e_callback E ev c t)"
begin

lemma upd: "io_step E (t_world t) (f (t_world t)) \<Longrightarrow> R t (upd_world f t)"
  unfolding upd_world_def by (rule io)

lemma after: "R t u \<Longrightarrow> io_step E (t_world u) (f (t_world u)) \<Longrightarrow> R t (upd_world f u)"
  by (rule trans [OF _ upd])

lemma clock: "e_time_ns E (t_world t) = (now, w) \<Longrightarrow> R t (t\<lparr>t_world := w\<rparr>)"
  using io [OF io_time, of t] by simp

lemma get_fec: "transport_get_fec E ty k m sz t = (f, t') \<Longrightarrow> R t t'"
proof -
  assume get: "transport_get_fec E ty k m sz t = (f, t')"
  obtain now w where tm: "e_time_ns E (t_world t) = (now, w)" by force
  with get obtain y where "t' = t\<lparr>t_world := w, t_fec_cache := y\<rparr>" by (auto simp: transport_get_fec_def split: prod.splits)
  with trans [OF clock [OF tm] cache [of "t\<lparr>t_world := w\<rparr>" y]] show ?thesis by simp
qed

text \<open>Stream callbacks.\<close>

lemma stream_open: "R t (on_stream_open E s t)"
proof -
  have "R t (t\<lparr>t_streams := x\<rparr>)" "t_heap t c = Some k \<Longrightarrow> R t (put_conn c k' (t\<lparr>t_streams := x\<rparr>))" for x c k k'
    using streams [of t x] trans [OF streams [of t x] conn] by simp_all
  then show ?thesis by (simp add: on_stream_open_def Let_def split: option.splits)
qed

lemma stream_destroy: "R t (on_stream_destroy E s t)"
proof -
  have "t_heap t c = Some k \<Longrightarrow> R t ((put_conn c k' t)\<lparr>t_streams := x\<rparr>)" for x c k k'
    using trans [OF conn streams] .
  then show ?thesis using streams by (simp add: on_stream_destroy_def Let_def split: option.splits)
qed

lemma stop_sending: "R t (on_stop_sending E s err t)" "R t (on_receive_reset E s err t)"
  by (auto simp: on_stop_sending_def on_receive_reset_def split: option.splits intro!: upd io_step.intros)

text \<open>Control messages.\<close>

lemma track_update: "t_heap t c = Some k \<Longrightarrow> R t (ctl_track_update E c k ty al track t)"
  by (auto simp: ctl_track_update_def Let_def refl split: option.splits prod.splits intro!: conn after io_step.intros)

lemma track_msg: "ctl_track_msg E c s input t = Inr fl \<Longrightarrow> R t (flow_state fl)"
  by (auto simp: ctl_track_msg_def with_conn_Inr_iff Let_def refl split: if_splits
      intro!: after io_step.intros intro: trans [OF track_update event])

lemma input_msg: "ctl_input_msg E c s input t = Inr fl \<Longrightarrow> R t (flow_state fl)"
  by (auto simp: ctl_input_msg_def with_conn_Inr_iff Let_def refl event split: if_splits intro!: after io_step.intros)

lemma auth_msg: "ctl_auth_msg E c s input t = Inr fl \<Longrightarrow> R t (flow_state fl)"
  by (auto simp: ctl_auth_msg_def Let_def refl event split: if_splits intro!: after io_step.intros)

lemma status_msg: "ctl_status_msg E c s input t = Inr fl \<Longrightarrow> R t (flow_state fl)"
  by (auto simp: ctl_status_msg_def with_conn_Inr_iff Let_def refl event split: if_splits
      intro!: after io_step.intros intro: trans [OF conn event])

lemma reliable_msg: "ctl_reliable_msg E c s input t = Inr fl \<Longrightarrow> R t (flow_state fl)"
  by (auto simp: ctl_reliable_msg_def with_conn_Inr_iff Let_def refl event split: if_splits option.splits
      intro!: after io_step.intros)

text \<open>Retransmission.\<close>

lemma resend_blocks: "resend_blocks E e data t = Inr (d, p, t') \<Longrightarrow> R t t'"
  by (auto simp: resend_blocks_def Let_def refl bindf_Inr_iff dest: get_fec split: if_splits prod.splits option.splits)

lemma resend_symbols: "resend_symbols E q al e ds ps ss t = Inr t' \<Longrightarrow> R t t'"
proof (induction ss arbitrary: t)
  case (Cons x ss)
  obtain now w where tm: "e_time_ns E (t_world t) = (now, w)" by force
  have "R t (t\<lparr>t_world := e_send_datagram E q dg w\<rparr>)" for dg
    using trans [OF clock [OF tm] io [OF io_datagram, of "t\<lparr>t_world := w\<rparr>"]] by simp
  with Cons tm show ?case by (auto simp: Let_def split: if_splits intro: trans)
qed (simp add: refl)

lemma nack_reply: "ctl_nack_reply E k al g ob missing t = Inr t' \<Longrightarrow> R t t'"
  by (auto simp: ctl_nack_reply_def Let_def refl bindf_Inr_iff split: option.splits intro: trans [OF resend_blocks resend_symbols])

lemma nack_msg: "ctl_nack_msg E c s input t = Inr fl \<Longrightarrow> R t (flow_state fl)"
  by (auto simp: ctl_nack_msg_def with_conn_Inr_iff Let_def refl bindf_Inr_iff nack_reply split: if_splits
      intro!: after io_step.intros)

text \<open>The two parsers.\<close>

lemma control_turn: "control_step E c s t = Inr fl \<Longrightarrow> R t (flow_state fl)"
  by (auto simp: control_step_def Let_def refl track_msg input_msg auth_msg status_msg reliable_msg nack_msg
      split: if_splits intro!: after io_step.intros)

lemma track_turn: "track_stream_step E c s t = Inr fl \<Longrightarrow> R t (flow_state fl)"
proof -
  assume step: "track_stream_step E c s t = Inr fl"
  obtain x0 k0 where x0: "t_streams t s = Some x0" "t_heap t c = Some k0"
    using step by (auto simp: track_stream_step_def with_conn_Inr_iff split: option.splits)
  have open1: "R t t1" if "track_stream_open E c s x0 k0 input t = (x, k, t1)" for input x k t1
  proof (cases "sx_header_received x0")
    case False
    have "R t (upd_world (e_ingress_shift E s 1) (t\<lparr>t_streams := y\<rparr>))" for y
      by (rule after, rule streams, rule io_shift)
    then have "R t (put_conn c k1 (upd_world (e_ingress_shift E s 1) (t\<lparr>t_streams := y\<rparr>)))" for k1 y
      by (rule trans [OF _ conn]) (simp add: x0)
    with False that show ?thesis by (auto simp: track_stream_open_def Let_def)
  qed (use that in \<open>simp add: track_stream_open_def refl\<close>)
  obtain x k t1 where o: "track_stream_open E c s x0 k0 (e_ingress_get E s (t_world t)) t = (x, k, t1)" by (metis prod_cases3)
  note r = open1 [OF o]
  show ?thesis
    using step x0 o r by (auto simp: track_stream_step_def Let_def refl split: if_splits option.splits
      intro!: after io_step.intros intro: trans [OF r event])
qed

lemma control_loop: "parse_control_messages E c s t = Some (Inr t') \<Longrightarrow> R t t'"
proof -
  let ?P = "\<lambda>D (c :: cptr) (s :: sptr) t (r :: fault + ('rs, 'w) transport). D = E \<longrightarrow> (\<forall>t'. r = Inr t' \<longrightarrow> R t t')"
  assume run: "parse_control_messages E c s t = Some (Inr t')"
  have "?P E c s t (Inr t')"
    by (rule parse_control_messages.raw_induct [where P = ?P, OF _ run])
      (auto split: sum.splits flow.splits dest: control_turn intro: trans)
  then show ?thesis by simp
qed

lemma track_loop: "parse_track_stream_messages E c s t = Some (Inr t') \<Longrightarrow> R t t'"
proof -
  let ?P = "\<lambda>D (c :: cptr) (s :: sptr) t (r :: fault + ('rs, 'w) transport). D = E \<longrightarrow> (\<forall>t'. r = Inr t' \<longrightarrow> R t t')"
  assume run: "parse_track_stream_messages E c s t = Some (Inr t')"
  have "?P E c s t (Inr t')"
    by (rule parse_track_stream_messages.raw_induct [where P = ?P, OF _ run])
      (auto split: sum.splits flow.splits dest: track_turn intro: trans)
  then show ?thesis by simp
qed

lemma receive: "on_receive E s off src t = Some (Inr t') \<Longrightarrow> R t t'"
proof -
  assume run: "on_receive E s off src t = Some (Inr t')"
  obtain ok w where r: "e_ingress_receive E s off src (t_world t) = (ok, w)" by force
  then have "R t (t\<lparr>t_world := w\<rparr>)" using io [OF io_receive, of t s off src] by simp
  with run r show ?thesis
    by (auto simp: on_receive_def Let_def split: if_splits option.splits intro: trans [OF _ control_loop] trans [OF _ track_loop])
qed

text \<open>Datagrams.\<close>

lemma telemetry: "R t (recv_telemetry E payload t)" "R t (telemetry_reply E q hdr t)"
proof -
  show "R t (recv_telemetry E payload t)"
    unfolding recv_telemetry_def Let_def using owd refl by (simp only: split: option.splits if_split) blast
  obtain now w where tm: "e_time_ns E (t_world t) = (now, w)" by force
  show "R t (telemetry_reply E q hdr t)"
    using trans [OF clock [OF tm] io [OF io_datagram_path, of "t\<lparr>t_world := w\<rparr>"]] tm by (simp add: telemetry_reply_def)
qed

lemma nack: "asm_nack E c i track hdr a t = Inr (a', t') \<Longrightarrow> R t t'"
  by (auto simp: asm_nack_def send_nack_def bindf_Inr_iff with_conn_Inr_iff Let_def refl split: if_splits option.splits
      intro!: upd io_step.intros)

lemma slot: "asm_slot_for E c hdr t = Inr (i, t') \<Longrightarrow> R t t'"
proof -
  assume run: "asm_slot_for E c hdr t = Inr (i, t')"
  then obtain k where k: "t_heap t c = Some k" by (auto simp: asm_slot_for_def with_conn_Inr_iff)
  have "R t (put_conn c k' t)" "R t (e_callback E ev c (put_conn c k' t))" for k' ev
    using conn [OF k] trans [OF conn [OF k] event] by blast+
  with run k show ?thesis
    by (auto simp: asm_slot_for_def with_conn_Inr_iff Let_def refl split: option.splits intro: trans [OF _ conn])
qed

lemma decode: "asm_decode E track hdr a t = Inr (ok, a', t') \<Longrightarrow> R t t'"
  by (auto simp: asm_decode_def Let_def refl bindf_Inr_iff dest: get_fec split: if_splits prod.splits option.splits)

lemma finish: "asm_finish E c i track hdr a t = Inr t' \<Longrightarrow> R t t'"
proof (cases "unat (h_data_symbols hdr) \<le> unat (fa_received_count a)")
  case True
  assume "asm_finish E c i track hdr a t = Inr t'"
  with True obtain ok a1 t1 k where d: "asm_decode E track hdr a t = Inr (ok, a1, t1)" "t_heap t1 c = Some k"
    and rest: "t' = put_conn c (put_slot i a1 k) t1 \<or> (\<exists>ev k3. t_heap (e_callback E ev c (put_conn c (put_slot i a1 k) t1)) c = Some k3 \<and>
        t' = put_conn c (put_slot i ((c_assemblers k3 ! i)\<lparr>fa_decoded := True\<rparr>) k3) (e_callback E ev c (put_conn c (put_slot i a1 k) t1)))"
    by (auto simp: asm_finish_def bindf_Inr_iff with_conn_Inr_iff Let_def split: if_splits)
  have r: "R t (put_conn c (put_slot i a1 k) t1)" by (rule trans [OF decode [OF d(1)] conn [OF d(2)]])
  from rest show ?thesis by (auto intro: r trans [OF trans [OF r event] conn])
next
  case False
  assume "asm_finish E c i track hdr a t = Inr t'"
  with False show ?thesis by (auto simp: asm_finish_def with_conn_Inr_iff intro: conn)
qed

lemma symbol: "recv_symbol E c track hdr body t = Inr t' \<Longrightarrow> R t t'"
  by (auto simp: recv_symbol_def bindf_Inr_iff with_conn_Inr_iff Let_def split: if_splits
      intro: slot trans [OF slot trans [OF nack finish]])

lemma datagram: "on_receive_datagram_frame E q payload t = Inr t' \<Longrightarrow> R t t'"
proof -
  assume run: "on_receive_datagram_frame E q payload t = Inr t'"
  have "R t u" if "recv_symbol E c track hdr body (telemetry_reply E q hdr t) = Inr u" for c track hdr body u
    using trans [OF telemetry(2) symbol [OF that]] .
  with run show ?thesis
    by (auto simp: on_receive_datagram_frame_def with_conn_def Let_def refl telemetry split: option.splits if_split_asm)
qed

text \<open>Every callback.\<close>

lemma callback: "on_callback E q cb t = Some (Inr t') \<Longrightarrow> R t t'"
  by (cases cb) (auto simp: stream_open stream_destroy stop_sending dest: receive datagram)

lemma destroy_streams: "R t (fold (on_stream_destroy E) ss t)"
  by (induction ss arbitrary: t) (auto simp: refl intro: trans [OF stream_destroy])

end

section \<open>The connection table\<close>

text \<open>No connection and no link is added or dropped; what the connections hold may change.\<close>

definition table_frame :: "('rs, 'w) transport \<Rightarrow> ('rs, 'w) transport \<Rightarrow> bool" where
  "table_frame t t' \<longleftrightarrow> t_is_server t' = t_is_server t \<and> t_conns t' = t_conns t \<and> t_client_conn t' = t_client_conn t \<and>
     dom (t_heap t') = dom (t_heap t) \<and> t_fds t' = t_fds t \<and> t_num_fds t' = t_num_fds t \<and> t_local_addrs t' = t_local_addrs t"

lemma table_frame_refl [simp]: "table_frame t t"
  by (simp add: table_frame_def)

lemma table_frame_trans [trans]: "table_frame a b \<Longrightarrow> table_frame b c \<Longrightarrow> table_frame a c"
  by (simp add: table_frame_def)

lemma table_frame_io [simp]:
  "table_frame t (t\<lparr>t_world := w\<rparr>)" "table_frame t (upd_world f t)" "table_frame t (t\<lparr>t_last_pathflow_update := x\<rparr>)"
  "table_frame t (t\<lparr>t_path_states := ps\<rparr>)" "t_heap t c = Some k \<Longrightarrow> table_frame t (put_conn c k' t)"
  by (auto simp: table_frame_def upd_world_def put_conn_def)

text \<open>If the application's event handler leaves the tables alone, so does every callback of quicly.\<close>

definition app_keeps_tables :: "('rs, 'rq, 'sc, 'w) env \<Rightarrow> bool" where
  "app_keeps_tables E \<longleftrightarrow> (\<forall>ev c t. table_frame t (e_callback E ev c t))"

interpretation ct: callback_relation E "\<lambda>t t'. app_keeps_tables E \<longrightarrow> table_frame t t'" for E
  by unfold_locales (auto simp: app_keeps_tables_def table_frame_def put_conn_def)

lemma on_stream_open_table: "table_frame t (on_stream_open E s t)"
  by (auto simp: on_stream_open_def table_frame_def put_conn_def Let_def split: option.splits)

section \<open>Callbacks return\<close>

text \<open>A measure of what is still to come from outside, to which neither quicly's operations nor the application add.\<close>

definition quiet_queue :: "('rs, 'rq, 'sc, 'w) env \<Rightarrow> ('w \<Rightarrow> nat) \<Rightarrow> bool" where
  "quiet_queue E inq \<longleftrightarrow> (\<forall>w w'. io_step E w w' \<longrightarrow> inq w' \<le> inq w) \<and>
     (\<forall>ev c (t :: ('rs, 'w) transport). inq (t_world (e_callback E ev c t)) \<le> inq (t_world t))"

interpretation cq: callback_relation E "\<lambda>t t'. quiet_queue E inq \<longrightarrow> inq (t_world t') \<le> inq (t_world t)" for E inq
  by unfold_locales (auto simp: quiet_queue_def)

text \<open>Fewer than \<open>2 ^ 32\<close> bytes are pending on the stream once the new ones have been stored.\<close>

definition callback_small :: "('rs, 'rq, 'sc, 'w) env \<Rightarrow> quic_callback \<Rightarrow> 'w \<Rightarrow> bool" where
  "callback_small E cb w = (case cb of
     StreamReceived s off src \<Rightarrow>
       (let (ok, w1) = e_ingress_receive E s off src w in ok \<longrightarrow> length (e_ingress_get E s w1) < 2 ^ 32)
   | _ \<Rightarrow> True)"

lemma on_callback_returns:
  assumes "\<forall>s. stream_buffer E s" and "callback_small E cb (t_world t)"
  shows "\<exists>r. on_callback E q cb t = Some r"
proof (cases cb)
  case (StreamReceived s off src)
  obtain ok w where r: "e_ingress_receive E s off src (t_world t) = (ok, w)" by force
  let ?t = "t\<lparr>t_world := w\<rparr>"
  have "\<exists>r. parse_control_messages E c s ?t = Some r" for c
    using ctl.loop_terminates assms(1) by blast
  moreover have "\<exists>r. parse_track_stream_messages E c s ?t = Some r" if ok for c
  proof -
    have "stream_buffer E s \<and> length (pending E s ?t) < 2 ^ 32"
      using assms that r StreamReceived by (simp add: callback_small_def)
    then show ?thesis by (rule trk.loop_terminates)
  qed
  ultimately show ?thesis using r StreamReceived by (auto simp: on_receive_def Let_def split: option.splits)
qed simp_all

end
