(* ===== verification/Tick.thy ===== *)
theory Tick
  imports Daemon Links Sockets Callbacks "HOL-Library.Sublist"
begin

text \<open>
  \<^verbatim>\<open>transport_tick\<close>: flushing a group of packets that has waited long enough, following the
  interface monitor, receiving and dispatching packets (a server accepts new connections), updating
  the path estimates, and running the connections: the connected event, sending, and removing a
  connection that quicly has given up. quicly and the sockets are the parameter record \<open>tick_net\<close>. Where
  quicly calls back into the transport (handling a packet, freeing a connection) the transport's own
  callbacks run, those of theory \<open>Callbacks\<close>.
\<close>

section \<open>The environment of a tick\<close>

text \<open>What \<^verbatim>\<open>quicly_send\<close> gives: packets with their addresses, the end of the connection, or an error.\<close>

datatype send_result = Packets (sr_dest: sockaddr) (sr_src: sockaddr) (sr_dgrams: "bytes list") | FreeConnection | SendError

text \<open>
  \<open>k_recvfrom\<close> fails with \<open>EAGAIN\<close> or another error. \<open>k_decode buf off\<close> is the packet at \<open>off\<close> and the
  offset after it. \<open>k_calloc\<close> is the address of a new connection object. \<open>k_receive\<close> gives quicly a packet, and
  \<open>k_callback\<close> is its work on it up to the next callback, or to the end. \<open>k_streams\<close> are the streams
  of a connection, which \<^verbatim>\<open>quicly_free\<close> destroys before the connection itself.
\<close>

record ('w, 'pkt, 'rs) tick_net = "'w net" +
  k_recvfrom :: "int \<Rightarrow> 'w \<Rightarrow> (errno + bytes \<times> sockaddr) \<times> 'w"
  k_decode :: "bytes \<Rightarrow> nat \<Rightarrow> 'w \<Rightarrow> ('pkt \<times> nat) option"
  k_is_destination :: "qptr \<Rightarrow> sockaddr \<Rightarrow> sockaddr \<Rightarrow> 'pkt \<Rightarrow> 'w \<Rightarrow> bool"
  k_accept :: "sockaddr \<Rightarrow> sockaddr \<Rightarrow> 'pkt \<Rightarrow> 'w \<Rightarrow> qptr option \<times> 'w"
  k_calloc :: "('rs, 'w) transport \<Rightarrow> cptr"
  k_set_data :: "qptr \<Rightarrow> cptr \<Rightarrow> 'w \<Rightarrow> 'w"
  k_receive :: "qptr \<Rightarrow> sockaddr \<Rightarrow> sockaddr \<Rightarrow> 'pkt \<Rightarrow> 'w \<Rightarrow> 'w"
  k_callback :: "qptr \<Rightarrow> 'w \<Rightarrow> quic_callback option \<times> 'w"
  k_is_ready :: "qptr \<Rightarrow> 'w \<Rightarrow> bool"
  k_send :: "qptr \<Rightarrow> 'w \<Rightarrow> send_result \<times> 'w"
  k_sendto :: "int \<Rightarrow> bytes \<Rightarrow> sockaddr \<Rightarrow> 'w \<Rightarrow> (errno + nat) \<times> 'w"
  k_streams :: "qptr \<Rightarrow> 'w \<Rightarrow> sptr list"
  k_free :: "qptr \<Rightarrow> 'w \<Rightarrow> 'w"
  k_update_state :: "path_state \<Rightarrow> int \<Rightarrow> int \<Rightarrow> int \<Rightarrow> nat \<Rightarrow> int \<Rightarrow> path_state"

section \<open>Group timeout\<close>

definition flush_if_due :: "('rs, 'rq, 'sc, 'w) env \<Rightarrow> ('rs, 'w) transport \<Rightarrow> fault + ('rs, 'w) transport" where
  "flush_if_due E t =
     (if t_fec_buf t = [] then Inr t
      else let (now, w) = e_time_ms E (t_world t);
               t1 = t\<lparr>t_world := w\<rparr>
           in if 3 \<le> now - t_fec_first_pkt_time t then flush_fec_buffer E t1 else Inr t1)"

section \<open>Receiving\<close>

text \<open>The first connection of the table that the packet is for.\<close>

fun find_target ::
  "('w, 'pkt, 'rs) tick_net \<Rightarrow> sockaddr \<Rightarrow> sockaddr \<Rightarrow> 'pkt \<Rightarrow> ('rs, 'w) transport \<Rightarrow> cptr list \<Rightarrow> fault + cptr option" where
  "find_target N loc sa pkt t [] = Inr None"
| "find_target N loc sa pkt t (c # cs) = with_conn c t (\<lambda>k.
     if k_is_destination N (c_quic k) loc sa pkt (t_world t) then Inr (Some c) else find_target N loc sa pkt t cs)"

definition accept_conn ::
  "('w, 'pkt, 'rs) tick_net \<Rightarrow> sockaddr \<Rightarrow> sockaddr \<Rightarrow> 'pkt \<Rightarrow> ('rs, 'w) transport \<Rightarrow> cptr option \<times> ('rs, 'w) transport" where
  "accept_conn N loc sa pkt t =
     (if MAX_CONNECTIONS \<le> length (t_conns t) then (None, t)
      else case k_accept N loc sa pkt (t_world t) of
             (None, w1) \<Rightarrow> (None, t\<lparr>t_world := w1\<rparr>)
           | (Some q, w1) \<Rightarrow>
               let t1 = t\<lparr>t_world := w1\<rparr>;
                   c = k_calloc N t1
               in (Some c, (put_conn c (new_conn q) t1)\<lparr>t_conns := t_conns t @ [c], t_world := k_set_data N q c w1\<rparr>))"

definition packet_target ::
  "('w, 'pkt, 'rs) tick_net \<Rightarrow> sockaddr \<Rightarrow> sockaddr \<Rightarrow> 'pkt \<Rightarrow> ('rs, 'w) transport \<Rightarrow>
   fault + cptr option \<times> ('rs, 'w) transport" where
  "packet_target N loc sa pkt t =
     (if t_is_server t then
        bindf (find_target N loc sa pkt t (t_conns t)) (\<lambda>target.
          case target of Some c \<Rightarrow> Inr (Some c, t) | None \<Rightarrow> Inr (accept_conn N loc sa pkt t))
      else Inr (t_client_conn t, t))"

text \<open>\<^verbatim>\<open>quicly_receive\<close>: the callbacks it makes, one after the other.\<close>

partial_function (option) run_callbacks ::
  "('w, 'pkt, 'rs) tick_net \<Rightarrow> ('rs, 'rq, 'sc, 'w) env \<Rightarrow> qptr \<Rightarrow> ('rs, 'w) transport \<Rightarrow> (fault + ('rs, 'w) transport) option" where
  "run_callbacks N E q t =
     (case k_callback N q (t_world t) of
        (None, w1) \<Rightarrow> Some (Inr (t\<lparr>t_world := w1\<rparr>))
      | (Some cb, w1) \<Rightarrow>
          (case on_callback E q cb (t\<lparr>t_world := w1\<rparr>) of
             None \<Rightarrow> None
           | Some (Inl e) \<Rightarrow> Some (Inl e)
           | Some (Inr t1) \<Rightarrow> run_callbacks N E q t1))"

definition handle_packet ::
  "('w, 'pkt, 'rs) tick_net \<Rightarrow> ('rs, 'rq, 'sc, 'w) env \<Rightarrow> nat \<Rightarrow> sockaddr \<Rightarrow> 'pkt \<Rightarrow> ('rs, 'w) transport \<Rightarrow>
   (fault + ('rs, 'w) transport) option" where
  "handle_packet N E i sa pkt t =
     bindr (Some (packet_target N (t_local_addrs t ! i) sa pkt t)) (\<lambda>(target, t1).
       case target of
         None \<Rightarrow> Some (Inr t1)
       | Some c \<Rightarrow> (case t_heap t1 c of
             None \<Rightarrow> Some (Inl NullDeref)
           | Some k \<Rightarrow> run_callbacks N E (c_quic k) (upd_world (k_receive N (c_quic k) (t_local_addrs t1 ! i) sa pkt) t1)))"

partial_function (option) decode_loop ::
  "('w, 'pkt, 'rs) tick_net \<Rightarrow> ('rs, 'rq, 'sc, 'w) env \<Rightarrow> nat \<Rightarrow> sockaddr \<Rightarrow> bytes \<Rightarrow> nat \<Rightarrow> ('rs, 'w) transport \<Rightarrow>
   (fault + ('rs, 'w) transport) option" where
  "decode_loop N E i sa buf off t =
     (if off < length buf then
        (case k_decode N buf off (t_world t) of
           None \<Rightarrow> Some (Inr t)
         | Some (pkt, off') \<Rightarrow>
             (case handle_packet N E i sa pkt t of
                None \<Rightarrow> None
              | Some (Inl e) \<Rightarrow> Some (Inl e)
              | Some (Inr t1) \<Rightarrow> decode_loop N E i sa buf off' t1))
      else Some (Inr t))"

partial_function (option) recv_loop ::
  "('w, 'pkt, 'rs) tick_net \<Rightarrow> ('rs, 'rq, 'sc, 'w) env \<Rightarrow> nat \<Rightarrow> ('rs, 'w) transport \<Rightarrow> (fault + ('rs, 'w) transport) option" where
  "recv_loop N E i t =
     (case k_recvfrom N (t_fds t ! i) (t_world t) of
        (Inl e, w1) \<Rightarrow> if e = EAGAIN then Some (Inr (t\<lparr>t_world := w1\<rparr>)) else recv_loop N E i (t\<lparr>t_world := w1\<rparr>)
      | (Inr (buf, sa), w1) \<Rightarrow>
          (case decode_loop N E i sa buf 0 (t\<lparr>t_world := w1\<rparr>) of
             None \<Rightarrow> None
           | Some (Inl e) \<Rightarrow> Some (Inl e)
           | Some (Inr t1) \<Rightarrow> recv_loop N E i t1))"

partial_function (option) receive_links ::
  "('w, 'pkt, 'rs) tick_net \<Rightarrow> ('rs, 'rq, 'sc, 'w) env \<Rightarrow> nat \<Rightarrow> ('rs, 'w) transport \<Rightarrow> (fault + ('rs, 'w) transport) option" where
  "receive_links N E i t =
     (if i < t_num_fds t then
        (case recv_loop N E i t of
           None \<Rightarrow> None
         | Some (Inl e) \<Rightarrow> Some (Inl e)
         | Some (Inr t1) \<Rightarrow> receive_links N E (i + 1) t1)
      else Some (Inr t))"

declare run_callbacks.simps [code]
declare decode_loop.simps [code]
declare recv_loop.simps [code]
declare receive_links.simps [code]

section \<open>Path estimates\<close>

text \<open>C division of a signed integer by two.\<close>

definition half :: "int \<Rightarrow> int" where
  "half x = (if x < 0 then - ((- x) div 2) else x div 2)"

definition path_estimate ::
  "('w, 'pkt, 'rs) tick_net \<Rightarrow> ('rs, 'rq, 'sc, 'w) env \<Rightarrow> qptr \<Rightarrow> int \<Rightarrow> int \<Rightarrow> ('rs, 'w) transport \<Rightarrow> nat \<Rightarrow> path_state" where
  "path_estimate N E q b l t i =
     (let st = e_get_path_stats E q (find_path_index_by_link E q t i) (t_world t);
          l1 = (case st of Some s \<Rightarrow>
                  if 0 < qp_rtt_smoothed s then e_fp_div E (e_fp_from_int E (unat (qp_rtt_smoothed s))) (e_fp_from_int E 2000) else half l
                | None \<Rightarrow> half l);
          p1 = (case st of Some s \<Rightarrow>
                  if 0 < qp_sent s then e_fp_div E (e_fp_from_int E (unat (qp_lost s))) (e_fp_from_int E (unat (qp_sent s)))
                  else e_fp_from_milli E 10
                | None \<Rightarrow> e_fp_from_milli E 10);
          owd = t_latest_owd_fp t ! i
      in k_update_state N (t_path_states t ! i) b (if 0 < owd then l1 + owd else l1) p1 0 (e_fp_from_milli E 100))"

definition update_paths ::
  "('w, 'pkt, 'rs) tick_net \<Rightarrow> ('rs, 'rq, 'sc, 'w) env \<Rightarrow> ('rs, 'w) transport \<Rightarrow> fault + ('rs, 'w) transport" where
  "update_paths N E t =
     (let (now, w) = e_time_ms E (t_world t);
          t1 = t\<lparr>t_world := w\<rparr>
      in if 25 \<le> now - t_last_pathflow_update t then
           let t2 = t1\<lparr>t_last_pathflow_update := now\<rparr> in
           (case main_conn t2 of
              None \<Rightarrow> Inr t2
            | Some c \<Rightarrow> with_conn c t2 (\<lambda>k.
                case e_get_stats E (c_quic k) (t_world t2) of
                  None \<Rightarrow> Inr t2
                | Some st \<Rightarrow>
                    let rtt = unat (qs_rtt_smoothed st);
                        l = e_fp_div E (e_fp_from_int E rtt) (e_fp_from_int E 1000);
                        cwnd_packets = (let n = unat (qs_cwnd st) div publish_symbol_size E in if n = 0 then 1 else n);
                        b0 = e_fp_from_int E (cwnd_packets * 1000 div (if 0 < rtt then rtt else 1));
                        b = (if b0 \<le> 0 then e_fp_from_int E 100 else b0)
                    in Inr (fold (\<lambda>i t. t\<lparr>t_path_states := (t_path_states t)[i := path_estimate N E (c_quic k) b l t i]\<rparr>)
                              [0..<t_num_fds t2] t2)))
         else Inr t1)"

section \<open>Running the connections\<close>

partial_function (option) sendto_retry ::
  "('w, 'pkt, 'rs) tick_net \<Rightarrow> int \<Rightarrow> bytes \<Rightarrow> sockaddr \<Rightarrow> 'w \<Rightarrow> 'w option" where
  "sendto_retry N fd dg dest w =
     (case k_sendto N fd dg dest w of
        (Inl e, w1) \<Rightarrow> if e = EINTR then sendto_retry N fd dg dest w1 else Some w1
      | (Inr n, w1) \<Rightarrow> Some w1)"

fun send_dgrams ::
  "('w, 'pkt, 'rs) tick_net \<Rightarrow> sockaddr \<Rightarrow> sockaddr \<Rightarrow> bytes list \<Rightarrow> ('rs, 'w) transport \<Rightarrow> ('rs, 'w) transport option" where
  "send_dgrams N dest src [] t = Some t"
| "send_dgrams N dest src (dg # dgs) t =
     (case sendto_retry N (out_fd src t) dg dest (t_world t) of
        None \<Rightarrow> None
      | Some w1 \<Rightarrow> send_dgrams N dest src dgs (t\<lparr>t_world := w1\<rparr>))"

text \<open>\<^verbatim>\<open>quicly_free\<close>, which destroys the streams of the connection.\<close>

definition quic_free ::
  "('w, 'pkt, 'rs) tick_net \<Rightarrow> ('rs, 'rq, 'sc, 'w) env \<Rightarrow> qptr \<Rightarrow> ('rs, 'w) transport \<Rightarrow> ('rs, 'w) transport" where
  "quic_free N E q t = upd_world (k_free N q) (fold (on_stream_destroy E) (k_streams N q (t_world t)) t)"

text \<open>
  The event, then freeing: \<open>True\<close> says that the connection is gone. The memory of its assemblers goes with it.
\<close>

definition free_conn ::
  "('w, 'pkt, 'rs) tick_net \<Rightarrow> ('rs, 'rq, 'sc, 'w) env \<Rightarrow> cptr \<Rightarrow> ('rs, 'w) transport \<Rightarrow> fault + bool \<times> ('rs, 'w) transport" where
  "free_conn N E c t =
     (let t1 = e_callback E Disconnected c t
      in with_conn c t1 (\<lambda>k. let t2 = quic_free N E (c_quic k) t1 in Inr (True, t2\<lparr>t_heap := (t_heap t2)(c := None)\<rparr>)))"

partial_function (option) send_loop ::
  "('w, 'pkt, 'rs) tick_net \<Rightarrow> ('rs, 'rq, 'sc, 'w) env \<Rightarrow> cptr \<Rightarrow> ('rs, 'w) transport \<Rightarrow>
   (fault + bool \<times> ('rs, 'w) transport) option" where
  "send_loop N E c t =
     (case t_heap t c of
        None \<Rightarrow> Some (Inl NullDeref)
      | Some k \<Rightarrow>
          (let (r, w1) = k_send N (c_quic k) (t_world t);
               t1 = t\<lparr>t_world := w1\<rparr>
           in case r of
                Packets dest src dgs \<Rightarrow>
                  if dgs = [] then Some (Inr (False, t1))
                  else (case send_dgrams N dest src dgs t1 of None \<Rightarrow> None | Some t2 \<Rightarrow> send_loop N E c t2)
              | FreeConnection \<Rightarrow> Some (free_conn N E c t1)
              | SendError \<Rightarrow> Some (Inr (False, t1))))"

declare sendto_retry.simps [code]
declare send_loop.simps [code]

definition run_conn ::
  "('w, 'pkt, 'rs) tick_net \<Rightarrow> ('rs, 'rq, 'sc, 'w) env \<Rightarrow> cptr \<Rightarrow> ('rs, 'w) transport \<Rightarrow>
   (fault + bool \<times> ('rs, 'w) transport) option" where
  "run_conn N E c t =
     (case t_heap t c of
        None \<Rightarrow> Some (Inl NullDeref)
      | Some k \<Rightarrow>
          let t1 = (if \<not> c_handshake_complete k \<and> k_is_ready N (c_quic k) (t_world t)
                    then e_callback E Connected c (put_conn c (k\<lparr>c_handshake_complete := True\<rparr>) t) else t)
          in send_loop N E c t1)"

text \<open>
  The loop over the connections: \<open>n\<close> is \<^verbatim>\<open>active_count\<close>. Removing connection \<open>i\<close> of a server closes
  the gap, so the next turn looks at index \<open>i\<close> again.
\<close>

definition remove_at :: "nat \<Rightarrow> 'a list \<Rightarrow> 'a list" where
  "remove_at i xs = take i xs @ drop (i + 1) xs"

partial_function (option) conns_loop ::
  "('w, 'pkt, 'rs) tick_net \<Rightarrow> ('rs, 'rq, 'sc, 'w) env \<Rightarrow> nat \<Rightarrow> nat \<Rightarrow> ('rs, 'w) transport \<Rightarrow>
   (fault + ('rs, 'w) transport) option" where
  "conns_loop N E i n t =
     (if n \<le> i then Some (Inr t)
      else if t_is_server t then
        (if length (t_conns t) \<le> i then Some (Inl OutOfBounds)
         else (case run_conn N E (t_conns t ! i) t of
                 None \<Rightarrow> None
               | Some (Inl e) \<Rightarrow> Some (Inl e)
               | Some (Inr (gone, t1)) \<Rightarrow>
                   if gone
                   then conns_loop N E i (length (t_conns t1) - 1) (t1\<lparr>t_conns := remove_at i (t_conns t1)\<rparr>)
                   else conns_loop N E (i + 1) n t1))
      else
        (case t_client_conn t of
           None \<Rightarrow> conns_loop N E (i + 1) n t
         | Some c \<Rightarrow>
             (case run_conn N E c t of
                None \<Rightarrow> None
              | Some (Inl e) \<Rightarrow> Some (Inl e)
              | Some (Inr (gone, t1)) \<Rightarrow>
                  if gone then Some (Inr (t1\<lparr>t_client_conn := None\<rparr>)) else conns_loop N E (i + 1) n t1)))"

declare conns_loop.simps [code]

section \<open>Path statistics\<close>

text \<open>
  \<^verbatim>\<open>transport_get_path_stats\<close>. The two latencies are the fixed-point values that the sources convert to
  milliseconds.
\<close>

record transport_path_stats =
  ts_sent :: u64
  ts_lost :: u64
  ts_rtt :: u32
  ts_relative_owd :: int
  ts_ewma_latency :: int

definition transport_get_path_stats ::
  "('rs, 'rq, 'sc, 'w) env \<Rightarrow> nat \<Rightarrow> ('rs, 'w) transport \<Rightarrow> fault + transport_path_stats option" where
  "transport_get_path_stats E path_idx t =
     (if t_num_fds t \<le> path_idx then Inr None
      else
        let base = \<lparr>ts_sent = 0, ts_lost = 0, ts_rtt = 0, ts_relative_owd = t_latest_owd_fp t ! path_idx,
                    ts_ewma_latency = ps_l_ewma (t_path_states t ! path_idx)\<rparr>
        in case main_conn t of
             None \<Rightarrow> Inr (Some base)
           | Some c \<Rightarrow> with_conn c t (\<lambda>k.
               case e_get_path_stats E (c_quic k) (find_path_index_by_link E (c_quic k) t path_idx) (t_world t) of
                 None \<Rightarrow> Inr (Some base)
               | Some st \<Rightarrow> Inr (Some (base\<lparr>ts_sent := qp_sent st, ts_lost := qp_lost st, ts_rtt := qp_rtt_smoothed st\<rparr>))))"

section \<open>The tick\<close>

definition transport_tick ::
  "('w, 'pkt, 'rs) tick_net \<Rightarrow> ('rs, 'rq, 'sc, 'w) env \<Rightarrow> ('rs, 'w) transport \<Rightarrow> (fault + ('rs, 'w) transport) option" where
  "transport_tick N E t =
     bindr (Some (flush_if_due E t)) (\<lambda>t1.
     bindr (process_ifmon N t1) (\<lambda>t2.
     bindr (receive_links N E 0 t2) (\<lambda>t3.
     bindr (Some (update_paths N E t3)) (\<lambda>t4.
     conns_loop N E 0 (length (active_conns t4)) t4))))"

section \<open>The tables of a transport\<close>

text \<open>
  The link arrays are well-formed, a server has at most 32 distinct connections, and every pointer of
  the table and the client's pointer is to a live connection. A server has no client connection, and
  a client an empty connection table.
\<close>

definition table_ok :: "('rs, 'w) transport \<Rightarrow> bool" where
  "table_ok t \<longleftrightarrow> links_ok t \<and> finite (dom (t_heap t)) \<and> distinct (t_conns t) \<and> length (t_conns t) \<le> MAX_CONNECTIONS \<and>
     set (t_conns t) \<subseteq> dom (t_heap t) \<and> set_option (t_client_conn t) \<subseteq> dom (t_heap t) \<and>
     (if t_is_server t then t_client_conn t = None else t_conns t = [])"

lemma table_frame_ok: "table_frame t t' \<Longrightarrow> table_ok t \<Longrightarrow> table_ok t'"
  by (simp add: table_frame_def table_ok_def links_ok_def)

text \<open>
  What the application may do to the tables: nothing. Its event handler changes connections and streams,
  but adds or drops no connection or link. A new connection object is at an address not in use.
\<close>

definition fresh_calloc :: "('w, 'pkt, 'rs) tick_net \<Rightarrow> bool" where
  "fresh_calloc N \<longleftrightarrow> (\<forall>t. finite (dom (t_heap t)) \<longrightarrow> t_heap t (k_calloc N t) = None)"

definition tick_laws :: "('w, 'pkt, 'rs) tick_net \<Rightarrow> ('rs, 'rq, 'sc, 'w) env \<Rightarrow> bool" where
  "tick_laws N E \<longleftrightarrow> app_keeps_tables E \<and> fresh_calloc N"

text \<open>
  What a phase before the sending may do: keep the tables well-formed, drop no connection, and append
  connections that were not there before to the connection table.
\<close>

definition grows :: "('rs, 'w) transport \<Rightarrow> ('rs, 'w) transport \<Rightarrow> bool" where
  "grows t t' \<longleftrightarrow> table_ok t' \<and> t_is_server t' = t_is_server t \<and> dom (t_heap t) \<subseteq> dom (t_heap t') \<and>
     (\<exists>new. t_conns t' = t_conns t @ new \<and> set new \<inter> dom (t_heap t) = {})"

lemma grows_frame: "table_ok t \<Longrightarrow> table_frame t t' \<Longrightarrow> grows t t'"
  by (simp add: grows_def table_frame_ok) (simp add: table_frame_def)

lemma grows_refl: "table_ok t \<Longrightarrow> grows t t"
  by (simp add: grows_frame)

lemma grows_ok: "grows t t' \<Longrightarrow> table_ok t'"
  by (simp add: grows_def)

lemma grows_trans: "grows a b \<Longrightarrow> grows b c \<Longrightarrow> grows a c"
proof -
  assume ab: "grows a b" and bc: "grows b c"
  obtain new1 where n1: "t_conns b = t_conns a @ new1" "set new1 \<inter> dom (t_heap a) = {}" using ab by (auto simp: grows_def)
  obtain new2 where n2: "t_conns c = t_conns b @ new2" "set new2 \<inter> dom (t_heap b) = {}" using bc by (auto simp: grows_def)
  have d: "dom (t_heap a) \<subseteq> dom (t_heap b)" using ab by (simp add: grows_def)
  have "t_conns c = t_conns a @ (new1 @ new2)" "set (new1 @ new2) \<inter> dom (t_heap a) = {}"
    using n1 n2 d by (simp, simp add: Int_Un_distrib2, blast)
  with ab bc show "grows a c" unfolding grows_def by (intro conjI) (simp_all, blast+)
qed

text \<open>
  What a phase ends with: a transport that has grown, or the fault of a callback that was given data of the peer, made
  by quicly in a state with well-formed tables.
\<close>

definition peer_fault :: "('w, 'pkt, 'rs) tick_net \<Rightarrow> ('rs, 'rq, 'sc, 'w) env \<Rightarrow> ('rs, 'w) transport \<Rightarrow> fault \<Rightarrow> bool" where
  "peer_fault N E t e \<longleftrightarrow> (\<exists>u q cb w. grows t u \<and> k_callback N q w = (Some cb, t_world u) \<and>
     on_callback E q cb u = Some (Inl e) \<and> ((\<exists>s off src. cb = StreamReceived s off src) \<or> (\<exists>payload. cb = DatagramReceived payload)))"

definition grows_or_fault ::
  "('w, 'pkt, 'rs) tick_net \<Rightarrow> ('rs, 'rq, 'sc, 'w) env \<Rightarrow> ('rs, 'w) transport \<Rightarrow> fault + ('rs, 'w) transport \<Rightarrow> bool" where
  "grows_or_fault N E t r = (case r of Inl e \<Rightarrow> peer_fault N E t e | Inr t' \<Rightarrow> grows t t')"

lemma peer_fault_pre: "grows t u \<Longrightarrow> peer_fault N E u e \<Longrightarrow> peer_fault N E t e"
  unfolding peer_fault_def using grows_trans by blast

lemma grows_or_fault_pre: "grows t u \<Longrightarrow> grows_or_fault N E u r \<Longrightarrow> grows_or_fault N E t r"
  by (auto simp: grows_or_fault_def intro: peer_fault_pre grows_trans split: sum.splits)

lemma grows_or_fault_simps [simp]:
  "grows_or_fault N E t (Inl e) = peer_fault N E t e" "grows_or_fault N E t (Inr t') = grows t t'"
  by (simp_all add: grows_or_fault_def)

section \<open>Receiving keeps the tables\<close>

lemma find_target_live:
  "set cs \<subseteq> dom (t_heap t) \<Longrightarrow> \<exists>target. find_target N loc sa pkt t cs = Inr target \<and> set_option target \<subseteq> set cs"
  by (induction cs) (fastforce simp: dom_def)+

lemma accept_conn_grows:
  assumes "tick_laws N E" "table_ok t" "accept_conn N loc sa pkt t = (target, t')" "t_is_server t"
  shows "grows t t' \<and> set_option target \<subseteq> dom (t_heap t')"
proof (cases "MAX_CONNECTIONS \<le> length (t_conns t)")
  case True
  with assms show ?thesis by (auto simp: accept_conn_def grows_frame)
next
  case False
  obtain r w1 where r: "k_accept N loc sa pkt (t_world t) = (r, w1)" by force
  show ?thesis
  proof (cases r)
    case None
    with False r assms show ?thesis by (auto simp: accept_conn_def grows_frame)
  next
    case (Some q)
    let ?t1 = "t\<lparr>t_world := w1\<rparr>"
    let ?c = "k_calloc N ?t1"
    have "finite (dom (t_heap ?t1))" using assms(2) by (simp add: table_ok_def)
    then have fresh: "t_heap ?t1 ?c = None" using assms(1) unfolding tick_laws_def fresh_calloc_def by blast
    then have new: "?c \<notin> dom (t_heap t)" by (simp add: dom_def)
    have t': "t' = (put_conn ?c (new_conn q) ?t1)\<lparr>t_conns := t_conns t @ [?c], t_world := k_set_data N q ?c w1\<rparr>" "target = Some ?c"
      using False r Some assms(3) by (simp_all add: accept_conn_def Let_def)
    have "table_ok t'"
      using assms(2,4) new False unfolding t' table_ok_def links_ok_def put_conn_def by (auto simp: MAX_CONNECTIONS_def)
    then show ?thesis using new unfolding grows_def t' by (auto simp: put_conn_def)
  qed
qed

lemma packet_target_grows:
  assumes "tick_laws N E" "table_ok t"
  obtains target t' where "packet_target N loc sa pkt t = Inr (target, t')" "grows t t'" "set_option target \<subseteq> dom (t_heap t')"
proof (cases "t_is_server t")
  case True
  have "set (t_conns t) \<subseteq> dom (t_heap t)" using assms(2) by (simp add: table_ok_def)
  from find_target_live [OF this, of N loc sa pkt] obtain target where f: "find_target N loc sa pkt t (t_conns t) = Inr target"
    "set_option target \<subseteq> set (t_conns t)" by blast
  show ?thesis
  proof (cases target)
    case None
    obtain target' t' where a: "accept_conn N loc sa pkt t = (target', t')" by force
    with True f None accept_conn_grows [OF assms a True] show ?thesis by (intro that [of target' t']) (simp_all add: packet_target_def)
  next
    case (Some c)
    with True f \<open>set (t_conns t) \<subseteq> dom (t_heap t)\<close> assms(2) show ?thesis
      by (intro that [of target t]) (auto simp: packet_target_def grows_frame)
  qed
next
  case False
  with assms(2) show ?thesis by (intro that [of "t_client_conn t" t]) (auto simp: packet_target_def grows_frame table_ok_def)
qed

lemma callback_grows:
  assumes laws: "tick_laws N E" and ok: "table_ok t" and cb: "k_callback N q w = (Some cb, w1)"
    and r: "on_callback E q cb (t\<lparr>t_world := w1\<rparr>) = Some r"
  shows "grows_or_fault N E t r"
proof -
  have g: "grows t (t\<lparr>t_world := w1\<rparr>)" using ok by (simp add: grows_frame)
  show ?thesis
  proof (cases r)
    case (Inl e)
    have "(\<exists>s off src. cb = StreamReceived s off src) \<or> (\<exists>payload. cb = DatagramReceived payload)"
      using r Inl by (cases cb) auto
    then have "peer_fault N E t e" unfolding peer_fault_def using g cb r Inl
      by (intro exI [of _ "t\<lparr>t_world := w1\<rparr>"] exI [of _ q] exI [of _ cb] exI [of _ w]) simp
    with Inl show ?thesis by simp
  next
    case (Inr t1)
    have "app_keeps_tables E" using laws by (simp add: tick_laws_def)
    with ct.callback r Inr have "table_frame (t\<lparr>t_world := w1\<rparr>) t1" by blast
    with Inr grows_trans [OF g grows_frame [OF grows_ok [OF g]]] show ?thesis by simp
  qed
qed

lemma run_callbacks_grows:
  fixes N :: "('w, 'pkt, 'rs) tick_net" and E :: "('rs, 'rq, 'sc, 'w) env"
  assumes laws: "tick_laws N E" and run: "run_callbacks N E q t = Some r" and ok: "table_ok t"
  shows "grows_or_fault N E t r"
proof -
  let ?P = "\<lambda>(M :: ('w, 'pkt, 'rs) tick_net) (D :: ('rs, 'rq, 'sc, 'w) env) (q :: qptr) t r.
    M = N \<and> D = E \<longrightarrow> table_ok t \<longrightarrow> grows_or_fault N E t r"
  have "?P N E q t r"
  proof (rule run_callbacks.raw_induct [where P = ?P, OF _ run], intro impI)
    fix rec :: "('w, 'pkt, 'rs) tick_net \<Rightarrow> ('rs, 'rq, 'sc, 'w) env \<Rightarrow> qptr \<Rightarrow> ('rs, 'w) transport \<Rightarrow> (fault + ('rs, 'w) transport) option"
      and M D q t r
    assume ih: "\<And>M D q t r. rec M D q t = Some r \<Longrightarrow> ?P M D q t r"
      and body: "(case k_callback M q (t_world t) of
        (None, w1) \<Rightarrow> Some (Inr (t\<lparr>t_world := w1\<rparr>))
      | (Some cb, w1) \<Rightarrow>
          (case on_callback D q cb (t\<lparr>t_world := w1\<rparr>) of
             None \<Rightarrow> None
           | Some (Inl e) \<Rightarrow> Some (Inl e)
           | Some (Inr t1) \<Rightarrow> rec M D q t1)) = Some r" and MD: "M = N \<and> D = E" and ok: "table_ok t"
    obtain x w1 where x: "k_callback N q (t_world t) = (x, w1)" by force
    show "grows_or_fault N E t r"
    proof (cases x)
      case None
      with body x MD ok show ?thesis by (auto simp: grows_frame)
    next
      case (Some cb)
      then obtain h where h: "on_callback E q cb (t\<lparr>t_world := w1\<rparr>) = Some h" using body x MD by (auto split: option.splits)
      have g: "grows_or_fault N E t h" by (rule callback_grows [OF laws ok _ h]) (use x Some in simp)
      show ?thesis
      proof (cases h)
        case (Inl e)
        with g body x Some h MD show ?thesis by auto
      next
        case (Inr t1)
        then have "rec M D q t1 = Some r" "grows t t1" using g body x Some h MD by auto
        with ih [of M D q t1 r] MD grows_or_fault_pre [of t t1 N E r] grows_ok [of t t1] show ?thesis by blast
      qed
    qed
  qed
  with ok show ?thesis by blast
qed

lemma handle_packet_grows:
  assumes "tick_laws N E" "table_ok t" "handle_packet N E i sa pkt t = Some r"
  shows "grows_or_fault N E t r"
proof -
  obtain target t1 where p: "packet_target N (t_local_addrs t ! i) sa pkt t = Inr (target, t1)" "grows t t1"
    "set_option target \<subseteq> dom (t_heap t1)"
    by (rule packet_target_grows [OF assms(1,2)])
  show ?thesis
  proof (cases target)
    case None
    with p assms(3) show ?thesis by (auto simp: handle_packet_def)
  next
    case (Some c)
    with p(3) obtain k where k: "t_heap t1 c = Some k" by auto
    let ?t2 = "upd_world (k_receive N (c_quic k) (t_local_addrs t1 ! i) sa pkt) t1"
    have run: "run_callbacks N E (c_quic k) ?t2 = Some r" using p Some k assms(3) by (simp add: handle_packet_def)
    have g: "grows t ?t2" by (rule grows_trans [OF p(2) grows_frame [OF grows_ok [OF p(2)]]]) simp
    show ?thesis by (rule grows_or_fault_pre [OF g run_callbacks_grows [OF assms(1) run grows_ok [OF g]]])
  qed
qed

lemma decode_loop_grows:
  fixes N :: "('w, 'pkt, 'rs) tick_net" and E :: "('rs, 'rq, 'sc, 'w) env"
  assumes laws: "tick_laws N E" and run: "decode_loop N E i sa buf off t = Some r" and ok: "table_ok t"
  shows "grows_or_fault N E t r"
proof -
  let ?P = "\<lambda>(M :: ('w, 'pkt, 'rs) tick_net) (D :: ('rs, 'rq, 'sc, 'w) env) (i :: nat) (sa :: sockaddr) (buf :: bytes) (off :: nat) t r.
    M = N \<and> D = E \<longrightarrow> table_ok t \<longrightarrow> grows_or_fault N E t r"
  have "?P N E i sa buf off t r"
  proof (rule decode_loop.raw_induct [where P = ?P, OF _ run], intro impI)
    fix rec :: "('w, 'pkt, 'rs) tick_net \<Rightarrow> ('rs, 'rq, 'sc, 'w) env \<Rightarrow> nat \<Rightarrow> sockaddr \<Rightarrow> bytes \<Rightarrow> nat \<Rightarrow> ('rs, 'w) transport \<Rightarrow>
        (fault + ('rs, 'w) transport) option" and M D i sa buf off t r
    assume ih: "\<And>M D i sa buf off t r. rec M D i sa buf off t = Some r \<Longrightarrow> ?P M D i sa buf off t r"
      and body: "(if off < length buf then
        (case k_decode M buf off (t_world t) of
           None \<Rightarrow> Some (Inr t)
         | Some (pkt, off') \<Rightarrow>
             (case handle_packet M D i sa pkt t of
                None \<Rightarrow> None
              | Some (Inl e) \<Rightarrow> Some (Inl e)
              | Some (Inr t1) \<Rightarrow> rec M D i sa buf off' t1))
      else Some (Inr t)) = Some r" and MD: "M = N \<and> D = E" and ok: "table_ok t"
    show "grows_or_fault N E t r"
    proof (cases "off < length buf \<and> k_decode M buf off (t_world t) \<noteq> None")
      case False
      with body ok show ?thesis by (auto simp: grows_refl split: if_splits option.splits)
    next
      case True
      then obtain pkt off' where d: "k_decode M buf off (t_world t) = Some (pkt, off')" by auto
      then obtain h where h: "handle_packet M D i sa pkt t = Some h" using body True by (auto split: option.splits)
      have g: "grows_or_fault N E t h" using handle_packet_grows [OF laws ok] h MD by blast
      show ?thesis
      proof (cases h)
        case (Inl e)
        with g body True d h show ?thesis by auto
      next
        case (Inr t1)
        then have "rec M D i sa buf off' t1 = Some r" "grows t t1" using g body True d h by auto
        with ih [of M D i sa buf off' t1 r] MD grows_or_fault_pre [of t t1 N E r] grows_ok [of t t1] show ?thesis by blast
      qed
    qed
  qed
  with ok show ?thesis by blast
qed

lemma recv_loop_grows:
  fixes N :: "('w, 'pkt, 'rs) tick_net" and E :: "('rs, 'rq, 'sc, 'w) env"
  assumes laws: "tick_laws N E" and run: "recv_loop N E i t = Some r" and ok: "table_ok t"
  shows "grows_or_fault N E t r"
proof -
  let ?P = "\<lambda>(M :: ('w, 'pkt, 'rs) tick_net) (D :: ('rs, 'rq, 'sc, 'w) env) (i :: nat) t r.
    M = N \<and> D = E \<longrightarrow> table_ok t \<longrightarrow> grows_or_fault N E t r"
  have "?P N E i t r"
  proof (rule recv_loop.raw_induct [where P = ?P, OF _ run], intro impI)
    fix rec :: "('w, 'pkt, 'rs) tick_net \<Rightarrow> ('rs, 'rq, 'sc, 'w) env \<Rightarrow> nat \<Rightarrow> ('rs, 'w) transport \<Rightarrow> (fault + ('rs, 'w) transport) option"
      and M D i t r
    assume ih: "\<And>M D i t r. rec M D i t = Some r \<Longrightarrow> ?P M D i t r"
      and body: "(case k_recvfrom M (t_fds t ! i) (t_world t) of
        (Inl e, w1) \<Rightarrow> if e = EAGAIN then Some (Inr (t\<lparr>t_world := w1\<rparr>)) else rec M D i (t\<lparr>t_world := w1\<rparr>)
      | (Inr (buf, sa), w1) \<Rightarrow>
          (case decode_loop M D i sa buf 0 (t\<lparr>t_world := w1\<rparr>) of
             None \<Rightarrow> None
           | Some (Inl e) \<Rightarrow> Some (Inl e)
           | Some (Inr t1) \<Rightarrow> rec M D i t1)) = Some r" and MD: "M = N \<and> D = E" and ok: "table_ok t"
    obtain x w1 where x: "k_recvfrom M (t_fds t ! i) (t_world t) = (x, w1)" by force
    let ?t = "t\<lparr>t_world := w1\<rparr>"
    have g: "grows t ?t" using ok by (simp add: grows_frame)
    have again: "grows_or_fault N E t r" if "rec M D i u = Some r" "grows t u" for u
      using ih [OF that(1)] MD that(2) grows_or_fault_pre [OF that(2)] grows_ok [OF that(2)] by blast
    show "grows_or_fault N E t r"
    proof (cases x)
      case (Inl e)
      with body x g again show ?thesis by (auto split: if_splits)
    next
      case (Inr p)
      obtain buf sa where p: "p = (buf, sa)" by force
      then obtain h where h: "decode_loop M D i sa buf 0 ?t = Some h" using body x Inr by (auto split: option.splits)
      then have "grows_or_fault N E ?t h" using decode_loop_grows [OF laws _ grows_ok [OF g]] MD by blast
      then have gh: "grows_or_fault N E t h" by (rule grows_or_fault_pre [OF g])
      show ?thesis using body x Inr p h gh again by (cases h) auto
    qed
  qed
  with ok show ?thesis by blast
qed

lemma receive_links_grows:
  fixes N :: "('w, 'pkt, 'rs) tick_net" and E :: "('rs, 'rq, 'sc, 'w) env"
  assumes laws: "tick_laws N E" and run: "receive_links N E i t = Some r" and ok: "table_ok t"
  shows "grows_or_fault N E t r"
proof -
  let ?P = "\<lambda>(M :: ('w, 'pkt, 'rs) tick_net) (D :: ('rs, 'rq, 'sc, 'w) env) (i :: nat) t r.
    M = N \<and> D = E \<longrightarrow> table_ok t \<longrightarrow> grows_or_fault N E t r"
  have "?P N E i t r"
  proof (rule receive_links.raw_induct [where P = ?P, OF _ run], intro impI)
    fix rec :: "('w, 'pkt, 'rs) tick_net \<Rightarrow> ('rs, 'rq, 'sc, 'w) env \<Rightarrow> nat \<Rightarrow> ('rs, 'w) transport \<Rightarrow> (fault + ('rs, 'w) transport) option"
      and M D i t r
    assume ih: "\<And>M D i t r. rec M D i t = Some r \<Longrightarrow> ?P M D i t r"
      and body: "(if i < t_num_fds t then
        (case recv_loop M D i t of
           None \<Rightarrow> None
         | Some (Inl e) \<Rightarrow> Some (Inl e)
         | Some (Inr t1) \<Rightarrow> rec M D (i + 1) t1)
      else Some (Inr t)) = Some r" and MD: "M = N \<and> D = E" and ok: "table_ok t"
    show "grows_or_fault N E t r"
    proof (cases "i < t_num_fds t")
      case False
      with body ok show ?thesis by (auto simp: grows_refl)
    next
      case True
      then obtain h where h: "recv_loop M D i t = Some h" using body by (auto split: option.splits)
      then have g: "grows_or_fault N E t h" using recv_loop_grows [OF laws _ ok] MD by blast
      show ?thesis
      proof (cases h)
        case (Inl e)
        with g body True h show ?thesis by auto
      next
        case (Inr t1)
        then have "rec M D (i + 1) t1 = Some r" "grows t t1" using g body True h by auto
        with ih [of M D "i + 1" t1 r] MD grows_or_fault_pre [of t t1 N E r] grows_ok [of t t1] show ?thesis by blast
      qed
    qed
  qed
  with ok show ?thesis by blast
qed

section \<open>The other phases keep the tables\<close>

lemma update_paths_frame:
  assumes "table_ok t"
  obtains t' where "update_paths N E t = Inr t'" "table_frame t t'"
proof -
  obtain now w where tm: "e_time_ms E (t_world t) = (now, w)" by force
  let ?t2 = "t\<lparr>t_world := w, t_last_pathflow_update := now\<rparr>"
  have f2: "table_frame t ?t2" by (simp add: table_frame_def)
  have fold: "table_frame u (fold (\<lambda>i t. t\<lparr>t_path_states := (t_path_states t)[i := F t i]\<rparr>) is u)" for F "is" and u :: "('a, 'b) transport"
  proof (induction "is" arbitrary: u)
    case (Cons i "is")
    have "table_frame u (u\<lparr>t_path_states := (t_path_states u)[i := F u i]\<rparr>)" by simp
    also note Cons.IH
    finally show ?case by simp
  qed simp
  show ?thesis
  proof (cases "25 \<le> now - t_last_pathflow_update t")
    case False
    with tm show ?thesis by (intro that [of "t\<lparr>t_world := w\<rparr>"]) (simp_all add: update_paths_def)
  next
    case due: True
    show ?thesis
    proof (cases "main_conn ?t2")
      case None
      with due tm f2 show ?thesis by (intro that [of ?t2]) (simp_all add: update_paths_def Let_def)
    next
      case (Some c)
      have "c \<in> dom (t_heap t)"
        using Some assms by (auto simp: main_conn_def table_ok_def split: if_splits list.splits)
      then obtain k where k: "t_heap t c = Some k" by auto
      show ?thesis
        using due tm f2 Some k table_frame_trans [OF f2 fold]
        by (cases "e_get_stats E (c_quic k) w") (auto simp: update_paths_def Let_def intro!: that)
    qed
  qed
qed

lemma open_paths_live:
  "set_option (t_client_conn t) \<subseteq> dom (t_heap t) \<Longrightarrow> \<exists>t'. open_paths N addr t = Inr t'"
  by (auto simp: open_paths_def with_conn_def split: option.splits)

lemma add_link_live:
  assumes "set_option (t_client_conn t) \<subseteq> dom (t_heap t)"
  shows "\<exists>t'. add_link N msg t = Inr t'"
  using assms by (auto simp: add_link_def Let_def split: prod.splits option.splits intro!: open_paths_live)

lemma same_but_links_ok: "same_but_links t t' \<Longrightarrow> links_ok t' \<Longrightarrow> table_ok t \<Longrightarrow> grows t t'"
proof -
  assume s: "same_but_links t t'" and l: "links_ok t'" and ok: "table_ok t"
  have eq: "t_conns t' = t_conns t" "t_heap t' = t_heap t" "t_client_conn t' = t_client_conn t" "t_is_server t' = t_is_server t"
    by (subst s [unfolded same_but_links_def]; simp)+
  with l ok show ?thesis by (simp add: grows_def table_ok_def)
qed

lemma ifmon_step_live:
  assumes "table_ok t"
  shows "\<exists>fl. ifmon_step N t = Inr fl"
proof -
  obtain r w1 where r: "n_read_msg N (t_world t) = (r, w1)" by force
  have "\<exists>t'. add_link N msg (t\<lparr>t_world := w1\<rparr>) = Inr t'" for msg
    by (rule add_link_live) (use assms in \<open>simp add: table_ok_def\<close>)
  then show ?thesis using r by (cases r) (auto simp: ifmon_step_def, metis bindf_simps(2))
qed

lemma ifmon_loop_grows:
  fixes N :: "('w, 'm) net_scheme" and t :: "('rs, 'w) transport"
  shows "ifmon_loop N t = Some r \<Longrightarrow> table_ok t \<Longrightarrow> \<exists>t'. r = Inr t' \<and> grows t t'"
proof -
  let ?P = "\<lambda>(M :: ('w, 'm) net_scheme) (t :: ('rs, 'w) transport) r. table_ok t \<longrightarrow> (\<exists>t'. r = Inr t' \<and> grows t t')"
  have "?P N t r" if run: "ifmon_loop N t = Some r"
  proof (rule ifmon_loop.raw_induct [where P = ?P, OF _ run], rule impI)
    fix rec and M :: "('w, 'm) net_scheme" and t :: "('rs, 'w) transport" and r
    assume ih: "\<And>M t r. rec M t = Some r \<Longrightarrow> ?P M t r"
      and body: "(case ifmon_step M t of Inl e \<Rightarrow> Some (Inl e)
      | Inr fl \<Rightarrow> (case fl of Stop t' \<Rightarrow> Some (Inr t') | More t' \<Rightarrow> rec M t')) = Some r" and ok: "table_ok t"
    obtain fl where fl: "ifmon_step M t = Inr fl" using ifmon_step_live [OF ok] by blast
    have lk: "links_ok t" using ok by (simp add: table_ok_def)
    show "\<exists>t'. r = Inr t' \<and> grows t t'"
    proof (cases fl)
      case (Stop u)
      then have "grows t u" using ifmon_step_keeps [OF lk, of M u] fl same_but_links_ok [OF _ _ ok] by blast
      with Stop fl body show ?thesis by auto
    next
      case (More u)
      then have g: "grows t u" using ifmon_step_keeps [OF lk, of M u] fl same_but_links_ok [OF _ _ ok] by blast
      have "rec M u = Some r" using More fl body by simp
      from ih [OF this] g obtain t' where "r = Inr t'" "grows u t'" by (auto simp: grows_def)
      with g show ?thesis using grows_trans by blast
    qed
  qed
  then show "ifmon_loop N t = Some r \<Longrightarrow> table_ok t \<Longrightarrow> \<exists>t'. r = Inr t' \<and> grows t t'" by blast
qed

lemma process_ifmon_grows: "process_ifmon N t = Some r \<Longrightarrow> table_ok t \<Longrightarrow> \<exists>t'. r = Inr t' \<and> grows t t'"
  by (auto simp: process_ifmon_def grows_frame split: if_splits dest: ifmon_loop_grows)

lemma publish_reliable_conn_table: "table_frame t (publish_reliable_conn E obj c t)"
proof (cases "t_heap t c")
  case None
  then show ?thesis by (simp add: publish_reliable_conn_def)
next
  case (Some k)
  have put: "table_frame t (put_conn c k' (t\<lparr>t_world := w\<rparr>))" for k' w
    using Some by (auto simp: table_frame_def put_conn_def)
  have opened: "table_frame t (upd_world f (on_stream_open E s (put_conn c k' (t\<lparr>t_world := w\<rparr>))))" for f s k' w
    by (rule table_frame_trans [OF table_frame_trans [OF put on_stream_open_table] table_frame_io(2)])
  have str: "table_frame t (snd (track_stream E c k i t))" for i
    using put opened
    by (simp add: track_stream_def Let_def split: prod.splits option.splits)
  have uni: "table_frame t (snd (transport_send_unicast E c data t))" for data
    by (auto simp: transport_send_unicast_def split: option.splits intro: table_frame_trans [OF table_frame_io(2) table_frame_io(2)])
  have two: "table_frame t (upd_world f (upd_world g u))" if "table_frame t u" for f g u
    using table_frame_trans [OF table_frame_trans [OF that table_frame_io(2)] table_frame_io(2)] .
  have res: "table_frame t (case track_stream E c k i t of (None, t1) \<Rightarrow> t1
      | (Some s, t1) \<Rightarrow> upd_world (e_egress_write E s (ob_data obj))
           (upd_world (e_egress_write E s (be_bytes 4 (length (ob_data obj)))) t1))" for i
    using str [of i] two by (cases "track_stream E c k i t") (auto split: option.splits)
  show ?thesis unfolding publish_reliable_conn_def using Some uni res by (simp split: option.splits)
qed

lemma publish_direct_table: "publish_direct E obj t = Inr t' \<Longrightarrow> table_frame t t'"
proof (cases "dp_reliable (get_track_profile (ob_track obj))")
  case True
  have "table_frame t (fold (publish_reliable_conn E obj) cs t)" for cs
    by (induction cs arbitrary: t) (auto intro: table_frame_trans publish_reliable_conn_table)
  moreover assume "publish_direct E obj t = Inr t'"
  ultimately show ?thesis using True by (auto simp: publish_direct_def)
next
  case False
  moreover assume "publish_direct E obj t = Inr t'"
  ultimately have "same_conns t t'" using publish_datagrams_frame by (auto simp: publish_direct_def)
  then show ?thesis by (simp add: same_conns_def table_frame_def)
qed

lemma flush_fec_buffer_table:
  assumes "flush_fec_buffer E t = Inr t'"
  shows "table_frame t t'"
proof (cases "t_fec_buf t = []")
  case False
  then obtain obj u1 where p: "publish_direct E obj (t\<lparr>t_fec_object_id := t_fec_object_id t + 1\<rparr>) = Inr u1"
    and v: "t' = u1\<lparr>t_fec_buf := [], t_fec_first_pkt_time := 0, t_fec_pkt_count := 0\<rparr>"
    using assms by (auto simp: flush_fec_buffer_def Let_def bindf_Inr_iff)
  with publish_direct_table [OF p] show ?thesis by (simp add: table_frame_def)
qed (use assms in \<open>simp add: flush_fec_buffer_def\<close>)

lemma flush_if_due_table: "flush_if_due E t = Inr t' \<Longrightarrow> table_frame t t'"
  using table_frame_trans [OF table_frame_io(1) flush_fec_buffer_table]
  by (auto simp: flush_if_due_def Let_def split: if_splits prod.splits)

section \<open>Running the connections keeps the tables\<close>

text \<open>What running one connection may do: nothing to the tables, or free that connection.\<close>

definition run_frame :: "cptr \<Rightarrow> bool \<Rightarrow> ('rs, 'w) transport \<Rightarrow> ('rs, 'w) transport \<Rightarrow> bool" where
  "run_frame c gone t t' \<longleftrightarrow>
     (if gone then \<exists>t1. table_frame t t1 \<and> t' = t1\<lparr>t_heap := (t_heap t1)(c := None)\<rparr> else table_frame t t')"

lemma run_frame_pre: "table_frame t u \<Longrightarrow> run_frame c gone u t' \<Longrightarrow> run_frame c gone t t'"
  by (cases gone) (simp_all add: run_frame_def, blast intro: table_frame_trans, rule table_frame_trans)

lemma send_dgrams_table: "send_dgrams N dest src dgs t = Some t' \<Longrightarrow> table_frame t t'"
  by (induction dgs arbitrary: t) (auto split: option.splits intro: table_frame_trans [OF table_frame_io(1)])

lemma quic_free_table: "app_keeps_tables E \<Longrightarrow> table_frame t (quic_free N E q t)"
  unfolding quic_free_def using ct.destroy_streams table_frame_trans [OF _ table_frame_io(2)] by blast

lemma free_conn_run:
  assumes "tick_laws N E" "c \<in> dom (t_heap t)"
  obtains t' where "free_conn N E c t = Inr (True, t')" "run_frame c True t t'"
proof -
  let ?t1 = "e_callback E Disconnected c t"
  have app: "app_keeps_tables E" using assms(1) by (simp add: tick_laws_def)
  then have f1: "table_frame t ?t1" by (simp add: app_keeps_tables_def)
  then obtain k where k: "t_heap ?t1 c = Some k" using assms(2) by (auto simp: table_frame_def)
  have "table_frame t (quic_free N E (c_quic k) ?t1)" by (rule table_frame_trans [OF f1 quic_free_table [OF app]])
  with k show ?thesis by (intro that) (auto simp: free_conn_def Let_def run_frame_def)
qed

lemma send_loop_run:
  assumes laws: "tick_laws N E"
  shows "send_loop N E c t = Some r \<Longrightarrow> c \<in> dom (t_heap t) \<Longrightarrow> \<exists>gone t'. r = Inr (gone, t') \<and> run_frame c gone t t'"
proof -
  let ?P = "\<lambda>M D c t r. M = N \<and> D = E \<longrightarrow> c \<in> dom (t_heap t) \<longrightarrow> (\<exists>gone t'. r = Inr (gone, t') \<and> run_frame c gone t t')"
  have "?P N E c t r" if run: "send_loop N E c t = Some r"
  proof (rule send_loop.raw_induct [where P = ?P, OF _ run], intro impI)
    fix rec M D c t r
    assume ih: "\<And>M D c t r. rec M D c t = Some r \<Longrightarrow> ?P M D c t r"
      and body: "(case t_heap t c of
        None \<Rightarrow> Some (Inl NullDeref)
      | Some k \<Rightarrow>
          (let (r, w1) = k_send M (c_quic k) (t_world t);
               t1 = t\<lparr>t_world := w1\<rparr>
           in case r of
                Packets dest src dgs \<Rightarrow>
                  if dgs = [] then Some (Inr (False, t1))
                  else (case send_dgrams M dest src dgs t1 of None \<Rightarrow> None | Some t2 \<Rightarrow> rec M D c t2)
              | FreeConnection \<Rightarrow> Some (free_conn M D c t1)
              | SendError \<Rightarrow> Some (Inr (False, t1)))) = Some r" and MD: "M = N \<and> D = E" and c: "c \<in> dom (t_heap t)"
    obtain k where k: "t_heap t c = Some k" using c by auto
    obtain x w1 where x: "k_send M (c_quic k) (t_world t) = (x, w1)" by force
    let ?t1 = "t\<lparr>t_world := w1\<rparr>"
    have f1: "table_frame t ?t1" by simp
    have stop: "\<exists>gone t'. r = Inr (gone, t') \<and> run_frame c gone t t'" if "r = Inr (False, ?t1)"
      using that f1 by (auto simp: run_frame_def)
    show "\<exists>gone t'. r = Inr (gone, t') \<and> run_frame c gone t t'"
    proof (cases x)
      case (Packets dest src dgs)
      show ?thesis
      proof (cases "dgs = []")
        case True
        with body k x Packets stop show ?thesis by (auto simp: Let_def)
      next
        case False
        then obtain t2 where t2: "send_dgrams M dest src dgs ?t1 = Some t2" "rec M D c t2 = Some r"
          using body k x Packets by (auto simp: Let_def split: option.splits)
        have f2: "table_frame t t2" using table_frame_trans [OF f1 send_dgrams_table [OF t2(1)]] .
        then have "c \<in> dom (t_heap t2)" using c by (simp add: table_frame_def)
        with ih [OF t2(2)] MD run_frame_pre [OF f2] show ?thesis by blast
      qed
    next
      case FreeConnection
      obtain t' where "free_conn N E c ?t1 = Inr (True, t')" "run_frame c True ?t1 t'"
        by (rule free_conn_run [OF laws, of c ?t1]) (use c in simp_all)
      moreover from this body k x FreeConnection MD have "r = Inr (True, t')" by (auto simp: Let_def)
      ultimately show ?thesis using run_frame_pre [OF f1] by blast
    next
      case SendError
      with body k x stop show ?thesis by (auto simp: Let_def)
    qed
  qed
  then show "send_loop N E c t = Some r \<Longrightarrow> c \<in> dom (t_heap t) \<Longrightarrow> \<exists>gone t'. r = Inr (gone, t') \<and> run_frame c gone t t'" by blast
qed

lemma run_conn_run:
  assumes laws: "tick_laws N E" and run: "run_conn N E c t = Some r" and c: "c \<in> dom (t_heap t)"
  shows "\<exists>gone t'. r = Inr (gone, t') \<and> run_frame c gone t t'"
proof -
  obtain k where k: "t_heap t c = Some k" using c by auto
  let ?t1 = "if \<not> c_handshake_complete k \<and> k_is_ready N (c_quic k) (t_world t)
    then e_callback E Connected c (put_conn c (k\<lparr>c_handshake_complete := True\<rparr>) t) else t"
  have "table_frame (put_conn c (k\<lparr>c_handshake_complete := True\<rparr>) t) (e_callback E Connected c (put_conn c (k\<lparr>c_handshake_complete := True\<rparr>) t))"
    using laws by (simp add: tick_laws_def app_keeps_tables_def)
  with table_frame_io(5) [OF k] have f1: "table_frame t ?t1" by (auto intro: table_frame_trans)
  then have "c \<in> dom (t_heap ?t1)" using c by (simp add: table_frame_def)
  moreover have "send_loop N E c ?t1 = Some r" using run k by (simp add: run_conn_def Let_def)
  ultimately obtain gone t' where "r = Inr (gone, t')" "run_frame c gone ?t1 t'"
    using send_loop_run [OF laws, of c ?t1 r] by blast
  then show ?thesis using run_frame_pre [OF f1, of c gone t'] by blast
qed

text \<open>What the loop over the connections may do: drop connections, keeping the order of the others.\<close>

definition shrinks :: "('rs, 'w) transport \<Rightarrow> ('rs, 'w) transport \<Rightarrow> bool" where
  "shrinks t t' \<longleftrightarrow> table_ok t' \<and> t_is_server t' = t_is_server t \<and> subseq (t_conns t') (t_conns t)"

lemma shrinks_frame: "table_ok t \<Longrightarrow> table_frame t t' \<Longrightarrow> shrinks t t'"
  by (simp add: shrinks_def table_frame_ok) (simp add: table_frame_def)

lemma shrinks_trans: "shrinks a b \<Longrightarrow> shrinks b c \<Longrightarrow> shrinks a c"
  by (auto simp: shrinks_def intro: subseq_order.trans)

lemma remove_at_props:
  assumes "distinct xs" "i < length xs"
  shows "distinct (remove_at i xs)" "set (remove_at i xs) \<subseteq> set xs - {xs ! i}" "length (remove_at i xs) = length xs - 1"
    "subseq (remove_at i xs) xs"
proof -
  have xs: "xs = take i xs @ xs ! i # drop (i + 1) xs" using id_take_nth_drop [OF assms(2)] by simp
  have d: "distinct (take i xs @ xs ! i # drop (i + 1) xs)" using assms(1) xs by simp
  then show "distinct (remove_at i xs)" by (simp add: remove_at_def)
  show "set (remove_at i xs) \<subseteq> set xs - {xs ! i}" using d by (auto simp: remove_at_def dest: in_set_takeD in_set_dropD)
  show "length (remove_at i xs) = length xs - 1" using assms(2) by (simp add: remove_at_def)
  have "subseq (take i xs @ drop (i + 1) xs) (take i xs @ xs ! i # drop (i + 1) xs)"
    by (intro list_emb_append_mono) auto
  with xs show "subseq (remove_at i xs) xs" by (simp add: remove_at_def)
qed

lemma server_drop:
  assumes ok: "table_ok t" and i: "i < length (t_conns t)" and run: "run_frame (t_conns t ! i) True t t1"
    and client: "t_client_conn t \<noteq> Some (t_conns t ! i)"
  shows "shrinks t (t1\<lparr>t_conns := remove_at i (t_conns t1)\<rparr>)" "length (t_conns t1) = length (t_conns t)"
proof -
  obtain u where u: "table_frame t u" "t1 = u\<lparr>t_heap := (t_heap u)(t_conns t ! i := None)\<rparr>"
    using run by (auto simp: run_frame_def)
  have d: "distinct (t_conns t)" using ok by (simp add: table_ok_def)
  note r = remove_at_props [OF d i]
  show "length (t_conns t1) = length (t_conns t)" using u by (simp add: table_frame_def)
  have c: "t_conns t1 = t_conns t" "t_client_conn t1 = t_client_conn t" "t_is_server t1 = t_is_server t"
    "dom (t_heap t1) = dom (t_heap t) - {t_conns t ! i}" "links_ok t1"
    using u ok by (auto simp: table_frame_def table_ok_def links_ok_def)
  have "table_ok (t1\<lparr>t_conns := remove_at i (t_conns t1)\<rparr>)"
    using ok c r client unfolding table_ok_def links_ok_def by auto
  with c r(4) show "shrinks t (t1\<lparr>t_conns := remove_at i (t_conns t1)\<rparr>)" by (simp add: shrinks_def)
qed

lemma client_drop:
  assumes ok: "table_ok t" and c: "t_client_conn t = Some c" "\<not> t_is_server t" and run: "run_frame c True t t1"
  shows "shrinks t (t1\<lparr>t_client_conn := None\<rparr>)"
  using assms by (auto simp: run_frame_def table_frame_def table_ok_def links_ok_def shrinks_def)

lemma conns_loop_shrinks:
  assumes laws: "tick_laws N E"
  shows "conns_loop N E i n t = Some r \<Longrightarrow> table_ok t \<Longrightarrow> (t_is_server t \<longrightarrow> n = length (t_conns t)) \<Longrightarrow>
    \<exists>t'. r = Inr t' \<and> shrinks t t'"
proof -
  let ?P = "\<lambda>M D i n t r. M = N \<and> D = E \<longrightarrow> table_ok t \<longrightarrow> (t_is_server t \<longrightarrow> n = length (t_conns t)) \<longrightarrow>
    (\<exists>t'. r = Inr t' \<and> shrinks t t')"
  have "?P N E i n t r" if run: "conns_loop N E i n t = Some r"
  proof (rule conns_loop.raw_induct [where P = ?P, OF _ run], intro impI)
    fix rec M D i n t r
    assume ih: "\<And>M D i n t r. rec M D i n t = Some r \<Longrightarrow> ?P M D i n t r"
      and body: "(if n \<le> i then Some (Inr t)
      else if t_is_server t then
        (if length (t_conns t) \<le> i then Some (Inl OutOfBounds)
         else (case run_conn M D (t_conns t ! i) t of
                 None \<Rightarrow> None
               | Some (Inl e) \<Rightarrow> Some (Inl e)
               | Some (Inr (gone, t1)) \<Rightarrow>
                   if gone
                   then rec M D i (length (t_conns t1) - 1) (t1\<lparr>t_conns := remove_at i (t_conns t1)\<rparr>)
                   else rec M D (i + 1) n t1))
      else
        (case t_client_conn t of
           None \<Rightarrow> rec M D (i + 1) n t
         | Some c \<Rightarrow>
             (case run_conn M D c t of
                None \<Rightarrow> None
              | Some (Inl e) \<Rightarrow> Some (Inl e)
              | Some (Inr (gone, t1)) \<Rightarrow>
                  if gone then Some (Inr (t1\<lparr>t_client_conn := None\<rparr>)) else rec M D (i + 1) n t1))) = Some r"
      and MD: "M = N \<and> D = E" and ok: "table_ok t" and n: "t_is_server t \<longrightarrow> n = length (t_conns t)"
    have again: "\<exists>t'. r = Inr t' \<and> shrinks t t'"
      if "rec M D j m u = Some r" "shrinks t u" "t_is_server u \<longrightarrow> m = length (t_conns u)" for j m u
      using ih [OF that(1)] MD that(2,3) shrinks_trans [OF that(2)] by (auto simp: shrinks_def)
    have runs: "\<exists>gone t1. run_conn M D c t = Some (Inr (gone, t1)) \<and> run_frame c gone t t1"
      if "run_conn M D c t \<noteq> None" "c \<in> dom (t_heap t)" for c
      using that run_conn_run [OF laws, of c t] MD by (auto simp: not_None_eq)
    show "\<exists>t'. r = Inr t' \<and> shrinks t t'"
    proof (cases "n \<le> i")
      case True
      with body ok show ?thesis by (auto simp: shrinks_frame)
    next
      case less: False
      show ?thesis
      proof (cases "t_is_server t")
        case srv: True
        let ?c = "t_conns t ! i"
        have i: "i < length (t_conns t)" using less n srv by simp
        then have "?c \<in> set (t_conns t)" by simp
        then have c: "?c \<in> dom (t_heap t)" "t_client_conn t = None" using ok srv by (auto simp: table_ok_def)
        have "run_conn M D ?c t \<noteq> None" using body less srv i by (auto split: option.splits)
        from runs [OF this c(1)] obtain gone t1 where r1: "run_conn M D ?c t = Some (Inr (gone, t1))" "run_frame ?c gone t t1" by blast
        show ?thesis
        proof (cases gone)
          case True
          let ?u = "t1\<lparr>t_conns := remove_at i (t_conns t1)\<rparr>"
          have sh: "shrinks t ?u" and len: "length (t_conns t1) = length (t_conns t)"
            using server_drop [OF ok i] r1(2) True c(2) by simp_all
          have "rec M D i (length (t_conns t1) - 1) ?u = Some r" using body less srv i r1 True by simp
          moreover have "length (t_conns ?u) = length (t_conns t1) - 1" using i len by (simp add: remove_at_def)
          ultimately show ?thesis using again sh by simp
        next
          case False
          have "rec M D (i + 1) n t1 = Some r" using body less srv i r1 False by simp
          moreover have "table_frame t t1" using r1(2) False by (simp add: run_frame_def)
          ultimately show ?thesis using again [OF _ shrinks_frame [OF ok]] n srv by (simp add: table_frame_def)
        qed
      next
        case cli: False
        show ?thesis
        proof (cases "t_client_conn t")
          case None
          with body less cli again [OF _ shrinks_frame [OF ok table_frame_refl]] show ?thesis by simp
        next
          case (Some c)
          have c: "c \<in> dom (t_heap t)" using ok Some by (auto simp: table_ok_def)
          have "run_conn M D c t \<noteq> None" using body less cli Some by (auto split: option.splits)
          from runs [OF this c] obtain gone t1 where r1: "run_conn M D c t = Some (Inr (gone, t1))" "run_frame c gone t t1" by blast
          show ?thesis
          proof (cases gone)
            case True
            with client_drop [OF ok Some cli] r1 body less cli Some show ?thesis by auto
          next
            case False
            have "rec M D (i + 1) n t1 = Some r" using body less cli Some r1 False by simp
            moreover have "table_frame t t1" using r1(2) False by (simp add: run_frame_def)
            ultimately show ?thesis using again [OF _ shrinks_frame [OF ok]] cli by (simp add: table_frame_def)
          qed
        qed
      qed
    qed
  qed
  then show "conns_loop N E i n t = Some r \<Longrightarrow> table_ok t \<Longrightarrow> (t_is_server t \<longrightarrow> n = length (t_conns t)) \<Longrightarrow>
    \<exists>t'. r = Inr t' \<and> shrinks t t'" by blast
qed

text \<open>
  The connections after a tick: some of those before, in their order, followed by new ones.
\<close>

definition conns_follow :: "cptr list \<Rightarrow> cptr list \<Rightarrow> bool" where
  "conns_follow cs cs' \<longleftrightarrow> (\<exists>kept new. cs' = kept @ new \<and> subseq kept cs \<and> set new \<inter> set cs = {})"

lemma subseq_append_split: "subseq zs (xs @ ys) \<Longrightarrow> \<exists>as bs. zs = as @ bs \<and> subseq as xs \<and> subseq bs ys"
  by (auto simp: subseq_append_iff)

lemma conns_followI:
  assumes "table_ok t" "grows t u" "subseq cs' (t_conns u)"
  shows "conns_follow (t_conns t) cs'"
proof -
  obtain new where new: "t_conns u = t_conns t @ new" "set new \<inter> dom (t_heap t) = {}" using assms(2) by (auto simp: grows_def)
  with assms(3) obtain as bs where s: "cs' = as @ bs" "subseq as (t_conns t)" "subseq bs new" using subseq_append_split by metis
  have "set bs \<subseteq> set new" using s(3) by (auto dest: list_emb_set)
  moreover have "set (t_conns t) \<subseteq> dom (t_heap t)" using assms(1) by (simp add: table_ok_def)
  ultimately have "set bs \<inter> set (t_conns t) = {}" using new(2) by blast
  with s show ?thesis unfolding conns_follow_def by blast
qed

lemma tick_tables:
  assumes "tick_laws N E" and ok: "table_ok t" and tick: "transport_tick N E t = Some r"
  shows "case r of
      Inl e \<Rightarrow> flush_if_due E t = Inl e \<or> peer_fault N E t e
    | Inr t' \<Rightarrow> table_ok t' \<and> t_is_server t' = t_is_server t \<and> conns_follow (t_conns t) (t_conns t')"
proof (cases "flush_if_due E t")
  case (Inl e)
  with tick show ?thesis by (auto simp: transport_tick_def)
next
  case flush: (Inr t1)
  have g1: "grows t t1" using grows_frame [OF ok flush_if_due_table [OF flush]] .
  obtain r2 where r2: "process_ifmon N t1 = Some r2" using flush tick by (cases "process_ifmon N t1") (auto simp: transport_tick_def)
  then obtain t2 where t2: "r2 = Inr t2" "grows t1 t2" using process_ifmon_grows [OF _ grows_ok [OF g1]] by blast
  have g2: "grows t t2" by (rule grows_trans [OF g1 t2(2)])
  obtain r3 where r3: "receive_links N E 0 t2 = Some r3"
    using flush tick r2 t2 by (cases "receive_links N E 0 t2") (auto simp: transport_tick_def)
  have g3: "grows_or_fault N E t r3"
    by (rule grows_or_fault_pre [OF g2 receive_links_grows [OF assms(1) r3 grows_ok [OF g2]]])
  show ?thesis
  proof (cases r3)
    case (Inl e)
    with g3 flush tick r2 t2 r3 show ?thesis by (auto simp: transport_tick_def)
  next
    case (Inr t3)
    with g3 have g: "grows t t3" by simp
    obtain t4 where t4: "update_paths N E t3 = Inr t4" "table_frame t3 t4" by (rule update_paths_frame [OF grows_ok [OF g]])
    have g4: "grows t t4" by (rule grows_trans [OF g grows_frame [OF grows_ok [OF g] t4(2)]])
    have "conns_loop N E 0 (length (active_conns t4)) t4 = Some r"
      using flush tick r2 t2 r3 Inr t4 by (simp add: transport_tick_def)
    from conns_loop_shrinks [OF assms(1) this grows_ok [OF g4]] obtain t' where t': "r = Inr t'" "shrinks t4 t'"
      by (auto simp: active_conns_def)
    with conns_followI [OF ok g4] g4 show ?thesis by (auto simp: shrinks_def grows_def)
  qed
qed

end
