(* ===== verification/Watcher.thy ===== *)
theory Watcher
  imports Ifmon Sockets
begin

text \<open>
  The watcher of \<^verbatim>\<open>ifmon.c\<close> on Linux: its event socket, the thread that waits for events until it
  is told to stop, starting and stopping. The system is the parameter record \<open>watch_os\<close>, which extends the
  netlink operations of a snapshot. The flag \<^verbatim>\<open>running\<close> is shared with the stopping thread, so the
  watcher thread reads it from the world.
\<close>

section \<open>Operations\<close>

text \<open>\<open>wo_poll\<close> reports which of the event socket and the stop pipe is readable.\<close>

record 'w watch_os = "'w netlink" +
  wo_socket :: "'w \<Rightarrow> int option \<times> 'w"
  wo_bind :: "int \<Rightarrow> 'w \<Rightarrow> bool \<times> 'w"
  wo_nonblock :: "int \<Rightarrow> 'w \<Rightarrow> 'w"
  wo_recv :: "int \<Rightarrow> 'w \<Rightarrow> (errno + nat) \<times> 'w"
  wo_poll :: "int \<Rightarrow> int \<Rightarrow> 'w \<Rightarrow> (errno + bool \<times> bool) \<times> 'w"
  wo_pipe :: "'w \<Rightarrow> (int \<times> int) option \<times> 'w"
  wo_set_running :: "bool \<Rightarrow> 'w \<Rightarrow> 'w"
  wo_running :: "'w \<Rightarrow> bool"
  wo_thread :: "'w \<Rightarrow> bool \<times> 'w"
  wo_write :: "int \<Rightarrow> bytes \<Rightarrow> 'w \<Rightarrow> 'w"
  wo_join :: "'w \<Rightarrow> 'w"
  wo_close :: "int \<Rightarrow> 'w \<Rightarrow> 'w"

definition open_event_socket :: "'w watch_os \<Rightarrow> 'w \<Rightarrow> int option \<times> 'w" where
  "open_event_socket K w =
     (case wo_socket K w of
        (None, w1) \<Rightarrow> (None, w1)
      | (Some fd, w1) \<Rightarrow>
          let (ok, w2) = wo_bind K fd w1
          in if \<not> ok then (None, wo_close K fd w2) else (Some fd, wo_nonblock K fd w2))"

partial_function (option) recv_retry :: "'w watch_os \<Rightarrow> int \<Rightarrow> 'w \<Rightarrow> ((errno + nat) \<times> 'w) option" where
  "recv_retry K fd w =
     (let (r, w1) = wo_recv K fd w in if r = Inl EINTR then recv_retry K fd w1 else Some (r, w1))"

text \<open>At most 1000 reads, up to the first that returns no data.\<close>

fun drain_socket :: "'w watch_os \<Rightarrow> int \<Rightarrow> nat \<Rightarrow> 'w \<Rightarrow> 'w option" where
  "drain_socket K fd 0 w = Some w"
| "drain_socket K fd (Suc n) w =
     (case recv_retry K fd w of
        None \<Rightarrow> None
      | Some (Inl e, w1) \<Rightarrow> Some w1
      | Some (Inr k, w1) \<Rightarrow> if k = 0 then Some w1 else drain_socket K fd n w1)"

partial_function (option) poll_retry :: "'w watch_os \<Rightarrow> int \<Rightarrow> int \<Rightarrow> 'w \<Rightarrow> ((errno + bool \<times> bool) \<times> 'w) option" where
  "poll_retry K efd sfd w =
     (let (r, w1) = wo_poll K efd sfd w in if r = Inl EINTR then poll_retry K efd sfd w1 else Some (r, w1))"

definition report :: "(ifmon_update \<Rightarrow> 'w \<Rightarrow> 'w) \<Rightarrow> ifmon_update option \<Rightarrow> 'w \<Rightarrow> 'w" where
  "report cb up w = (case up of None \<Rightarrow> w | Some u \<Rightarrow> cb u w)"

text \<open>The thread: the snapshot it keeps and the world.\<close>

partial_function (option) watcher_thread ::
  "'w watch_os \<Rightarrow> (ifmon_update \<Rightarrow> 'w \<Rightarrow> 'w) \<Rightarrow> int \<Rightarrow> int \<Rightarrow> ifmon_iface list \<Rightarrow> 'w \<Rightarrow> (ifmon_iface list \<times> 'w) option" where
  "watcher_thread K cb efd sfd prev w =
     (if wo_running K w then
        (case poll_retry K efd sfd w of
           None \<Rightarrow> None
         | Some (Inl e, w1) \<Rightarrow> watcher_thread K cb efd sfd prev w1
         | Some (Inr (event, stop), w1) \<Rightarrow>
             if stop then Some (prev, w1)
             else if event then
               (case drain_socket K efd 1000 w1 of
                  None \<Rightarrow> None
                | Some w2 \<Rightarrow>
                    (let (prev1, up, w3) = watcher_event K prev w2
                     in watcher_thread K cb efd sfd prev1 (report cb up w3)))
             else watcher_thread K cb efd sfd prev w1)
      else Some (prev, w))"

declare recv_retry.simps [code]
declare poll_retry.simps [code]
declare watcher_thread.simps [code]

text \<open>\<open>wt_stop_pipe\<close> and \<open>wt_event_fd\<close> are \<open>-1\<close> where the sources have them so.\<close>

record watcher =
  wt_prev :: "ifmon_iface list"
  wt_stop_pipe :: "int \<times> int"
  wt_event_fd :: int

definition ifmon_watch_start ::
  "'w watch_os \<Rightarrow> (ifmon_update \<Rightarrow> 'w \<Rightarrow> 'w) \<Rightarrow> 'w \<Rightarrow> bool \<times> watcher \<times> 'w" where
  "ifmon_watch_start K cb w =
     (let (ok, l, w1) = ifmon_list_get K w;
          w2 = (if ok then cb (generate_update [] l True) w1 else w1);
          wt = \<lparr>wt_prev = l, wt_stop_pipe = (-1, -1), wt_event_fd = -1\<rparr>
      in case wo_pipe K w2 of
           (None, w3) \<Rightarrow> (False, wt, w3)
         | (Some p, w3) \<Rightarrow>
             (case open_event_socket K w3 of
                (None, w4) \<Rightarrow> (False, wt\<lparr>wt_stop_pipe := p\<rparr>, wo_close K (snd p) (wo_close K (fst p) w4))
              | (Some fd, w4) \<Rightarrow>
                  let (started, w5) = wo_thread K (wo_set_running K True w4);
                      wt1 = wt\<lparr>wt_stop_pipe := p, wt_event_fd := fd\<rparr>
                  in if started then (True, wt1, w5)
                     else (False, wt1, wo_close K (snd p) (wo_close K (fst p) (wo_close K fd (wo_set_running K False w5))))))"

definition ifmon_watch_stop :: "'w watch_os \<Rightarrow> watcher \<Rightarrow> 'w \<Rightarrow> 'w" where
  "ifmon_watch_stop K wt w =
     (let p = wt_stop_pipe wt;
          w1 = wo_close K (snd p) (wo_close K (fst p) (wo_join K (wo_write K (snd p) [1] (wo_set_running K False w))))
      in if 0 \<le> wt_event_fd wt then wo_close K (wt_event_fd wt) w1 else w1)"

text \<open>
  A start that fails after it made its stop pipe has closed the pipe's two ends; stopping the watcher, as
  the transport does whatever the start returned, closes the same descriptors again.
\<close>

lemma failed_start_closes_twice:
  assumes log: "\<forall>fd w. closed (wo_close K fd w) = closed w @ [fd]"
    and same: "\<forall>b w. closed (wo_set_running K b w) = closed w" "\<forall>fd bs w. closed (wo_write K fd bs w) = closed w" "\<forall>w. closed (wo_join K w) = closed w"
    and start: "ifmon_watch_start K cb w = (False, wt, w1)" and pipe: "wt_stop_pipe wt \<noteq> (-1, -1)"
  shows "\<exists>before after. closed (ifmon_watch_stop K wt w1) = before @ [fst (wt_stop_pipe wt), snd (wt_stop_pipe wt)] @
    [fst (wt_stop_pipe wt), snd (wt_stop_pipe wt)] @ after"
proof -
  obtain w0 where "w1 = wo_close K (snd (wt_stop_pipe wt)) (wo_close K (fst (wt_stop_pipe wt)) w0)"
    using start pipe by (auto simp: ifmon_watch_start_def Let_def split: prod.splits option.splits if_splits)
  then show ?thesis using log same by (auto simp: ifmon_watch_stop_def Let_def)
qed

section \<open>A client that follows the updates\<close>

definition learn :: "ifmon_update \<Rightarrow> (u32 \<Rightarrow> ifmon_addr set option) \<Rightarrow> u32 \<Rightarrow> ifmon_addr set option" where
  "learn up m = (if up_is_initial up then addrs_at (up_interfaces up) else patch up m)"

text \<open>
  \<open>known w\<close> is what the client knows, which only its callback changes; \<open>left w\<close> bounds the events,
  errors and interruptions before the thread is told to stop. An interface index is used for
  one interface at a time.
\<close>

definition watch_laws ::
  "'w watch_os \<Rightarrow> (ifmon_update \<Rightarrow> 'w \<Rightarrow> 'w) \<Rightarrow> ('w \<Rightarrow> u32 \<Rightarrow> ifmon_addr set option) \<Rightarrow> ('w \<Rightarrow> nat) \<Rightarrow> bool" where
  "watch_laws K cb known left \<longleftrightarrow>
     (\<forall>up w. known (cb up w) = learn up (known w) \<and> left (cb up w) \<le> left w) \<and>
     (\<forall>w. known (snd (nl_open K w)) = known w \<and> left (snd (nl_open K w)) \<le> left w) \<and>
     (\<forall>b w. known (snd (nl_request K b w)) = known w \<and> left (snd (nl_request K b w)) \<le> left w) \<and>
     (\<forall>w. known (snd (nl_recv K w)) = known w \<and> left (snd (nl_recv K w)) \<le> left w) \<and>
     (\<forall>w. known (nl_close K w) = known w \<and> left (nl_close K w) \<le> left w) \<and>
     (\<forall>fd w. known (snd (wo_recv K fd w)) = known w \<and> left (snd (wo_recv K fd w)) \<le> left w) \<and>
     (\<forall>efd sfd w. known (snd (wo_poll K efd sfd w)) = known w) \<and>
     (\<forall>w. known (snd (wo_pipe K w)) = known w) \<and> (\<forall>w. known (snd (wo_socket K w)) = known w) \<and>
     (\<forall>fd w. known (snd (wo_bind K fd w)) = known w) \<and> (\<forall>fd w. known (wo_nonblock K fd w) = known w) \<and>
     (\<forall>b w. known (wo_set_running K b w) = known w) \<and> (\<forall>w. known (snd (wo_thread K w)) = known w) \<and>
     (\<forall>fd w w1. wo_recv K fd w = (Inl EINTR, w1) \<longrightarrow> left w1 < left w) \<and>
     (\<forall>efd sfd w r w1. wo_poll K efd sfd w = (r, w1) \<longrightarrow> (\<nexists>event. r = Inr (event, True)) \<longrightarrow> left w1 < left w) \<and>
     (\<forall>w l w1. ifmon_list_get K w = (True, l, w1) \<longrightarrow> distinct (map if_index l))"

text \<open>
  \<open>kern w\<close> are the kernel's addresses, as far as a snapshot shows them, and \<open>pend w\<close> says that the event socket has
  something to read. The kernel may change its addresses at any moment, but then it queues an event: after a
  snapshot the kernel still has the addresses of the snapshot, or an event is pending; the callback and a poll
  that does not report the event leave the addresses as they are, or an event is pending, and a pending
  event stays. Every snapshot succeeds.
\<close>

definition announces ::
  "'w watch_os \<Rightarrow> (ifmon_update \<Rightarrow> 'w \<Rightarrow> 'w) \<Rightarrow> ('w \<Rightarrow> u32 \<Rightarrow> ifmon_addr set option) \<Rightarrow> ('w \<Rightarrow> bool) \<Rightarrow> bool" where
  "announces K cb kern pend \<longleftrightarrow>
     (\<forall>w. fst (ifmon_list_get K w)) \<and>
     (\<forall>w l w1. ifmon_list_get K w = (True, l, w1) \<longrightarrow> pend w1 \<or> kern w1 = addrs_at l) \<and>
     (\<forall>up w. pend (cb up w) \<or> \<not> pend w \<and> kern (cb up w) = kern w) \<and>
     (\<forall>efd sfd w r w1. wo_poll K efd sfd w = (r, w1) \<longrightarrow> r \<noteq> Inr (True, False) \<longrightarrow> pend w1 \<or> \<not> pend w \<and> kern w1 = kern w)"

text \<open>What the client does not know is announced by a pending event.\<close>

definition current :: "('w \<Rightarrow> u32 \<Rightarrow> ifmon_addr set option) \<Rightarrow> ('w \<Rightarrow> bool) \<Rightarrow> ('w \<Rightarrow> u32 \<Rightarrow> ifmon_addr set option) \<Rightarrow> 'w \<Rightarrow> bool" where
  "current kern pend known w \<longleftrightarrow> pend w \<or> known w = kern w"

definition quiet :: "('w \<Rightarrow> 'k) \<Rightarrow> ('w \<Rightarrow> nat) \<Rightarrow> 'w \<Rightarrow> 'w \<Rightarrow> bool" where
  "quiet known left w w' \<longleftrightarrow> known w' = known w \<and> left w' \<le> left w"

lemma quiet_refl [simp]: "quiet known left w w"
  by (simp add: quiet_def)

lemma quiet_trans [trans]: "quiet known left a b \<Longrightarrow> quiet known left b c \<Longrightarrow> quiet known left a c"
  by (simp add: quiet_def)

lemma scan_dump_quiet:
  assumes "\<And>w. quiet known left w (snd (recv w))"
  shows "quiet known left w (snd (scan_dump recv f n l w))"
proof (induction n arbitrary: l w)
  case (Suc n)
  obtain r w1 where r: "recv w = (r, w1)" by force
  with assms [of w] have q: "quiet known left w w1" by simp
  show ?case
  proof (cases r)
    case (Some ms)
    obtain fin l1 where b: "scan_buffer f ms l = (fin, l1)" by force
    show ?thesis
    proof (cases fin)
      case False
      have "quiet known left w (snd (scan_dump recv f n l1 w1))" by (rule quiet_trans [OF q Suc])
      with r Some b False show ?thesis by simp
    qed (use r Some b q in simp)
  qed (use r q in simp)
qed simp

lemma list_get_quiet:
  assumes "watch_laws K cb known left" "ifmon_list_get K w = (ok, l, w')"
  shows "quiet known left w w'"
proof -
  obtain o0 w1 where o0: "nl_open K w = (o0, w1)" by force
  obtain o1 w2 where o1: "nl_request K True w1 = (o1, w2)" by force
  obtain l1 w3 where s1: "scan_dump (nl_recv K) add_link_msg 1000 [] w2 = (l1, w3)" by force
  obtain o2 w4 where o2: "nl_request K False w3 = (o2, w4)" by force
  obtain l2 w5 where s2: "scan_dump (nl_recv K) add_addr_msg 1000 l1 w4 = (l2, w5)" by force
  have recv: "quiet known left w (snd (nl_recv K w))" for w using assms(1) by (simp add: watch_laws_def quiet_def)
  have cl: "quiet known left w (nl_close K w)" for w using assms(1) by (simp add: watch_laws_def quiet_def)
  have q1: "quiet known left w w1" using assms(1) o0 unfolding watch_laws_def quiet_def by (metis snd_conv)
  also have q2: "quiet known left w1 w2" using assms(1) o1 unfolding watch_laws_def quiet_def by (metis snd_conv)
  finally have w2: "quiet known left w w2" .
  also have "quiet known left w2 w3" using scan_dump_quiet [of known left "nl_recv K", OF recv, of w2 add_link_msg 1000 "[]"] s1 by simp
  also have "quiet known left w3 w4" using assms(1) o2 unfolding watch_laws_def quiet_def by (metis snd_conv)
  finally have w4: "quiet known left w w4" .
  also have "quiet known left w4 w5" using scan_dump_quiet [of known left "nl_recv K", OF recv, of w4 add_addr_msg 1000 l1] s2 by simp
  finally have w5: "quiet known left w w5" .
  have "(ok, l, w') = (if \<not> o0 then (False, [], w1) else if \<not> o1 then (False, [], nl_close K w2)
      else if \<not> o2 then (False, l1, nl_close K w4) else (True, map fill_prefix l2, nl_close K w5))"
    unfolding assms(2) [symmetric] ifmon_list_get_def o0 by (simp add: o1 s1 o2 s2 Let_def)
  then have "w' = w1 \<or> w' = nl_close K w2 \<or> w' = nl_close K w4 \<or> w' = nl_close K w5" by (simp split: if_splits)
  then show ?thesis using q1 quiet_trans [OF w2 cl] quiet_trans [OF w4 cl] quiet_trans [OF w5 cl] by blast
qed

lemma recv_retry_returns:
  assumes laws: "watch_laws K cb known left"
  shows "\<exists>r w'. recv_retry K fd w = Some (r, w') \<and> quiet known left w w'"
proof (induction "left w" arbitrary: w rule: less_induct)
  case less
  obtain r w1 where r: "wo_recv K fd w = (r, w1)" by force
  have q: "quiet known left w w1" using laws r unfolding watch_laws_def quiet_def by (metis snd_conv)
  show ?case
  proof (cases "r = Inl EINTR")
    case True
    then have "left w1 < left w" using laws r unfolding watch_laws_def by metis
    from less [OF this] quiet_trans [OF q] r True show ?thesis by (subst recv_retry.simps) auto
  next
    case False
    with r q show ?thesis by (subst recv_retry.simps) simp
  qed
qed

lemma drain_socket_returns:
  assumes laws: "watch_laws K cb known left"
  shows "\<exists>w'. drain_socket K fd n w = Some w' \<and> quiet known left w w'"
proof (induction n arbitrary: w)
  case (Suc n)
  obtain r w1 where r: "recv_retry K fd w = Some (r, w1)" "quiet known left w w1" using recv_retry_returns [OF laws] by blast
  with Suc [of w1] quiet_trans [OF r(2)] show ?case by (cases r) auto
qed simp

lemma poll_retry_returns:
  assumes laws: "watch_laws K cb known left"
  shows "\<exists>r w'. poll_retry K efd sfd w = Some (r, w') \<and> known w' = known w \<and>
    ((\<nexists>event. r = Inr (event, True)) \<longrightarrow> left w' < left w) \<and>
    (announces K cb kern pend \<longrightarrow> current kern pend known w \<longrightarrow> r \<noteq> Inr (True, False) \<longrightarrow> current kern pend known w')"
proof (induction "left w" arbitrary: w rule: less_induct)
  case less
  obtain r w1 where r: "wo_poll K efd sfd w = (r, w1)" by force
  have k: "known w1 = known w" using laws r unfolding watch_laws_def by (metis snd_conv)
  have lt: "left w1 < left w" if "\<nexists>event. r = Inr (event, True)" using laws r that unfolding watch_laws_def by metis
  have cur: "current kern pend known w1" if "announces K cb kern pend" "current kern pend known w" "r \<noteq> Inr (True, False)"
    using that r k unfolding announces_def current_def by metis
  show ?case
  proof (cases "r = Inl EINTR")
    case True
    then have l1: "left w1 < left w" using lt by blast
    from less [OF this] obtain r' w' where p: "poll_retry K efd sfd w1 = Some (r', w')" "known w' = known w1"
      "(\<nexists>event. r' = Inr (event, True)) \<longrightarrow> left w' < left w1"
      "announces K cb kern pend \<longrightarrow> current kern pend known w1 \<longrightarrow> r' \<noteq> Inr (True, False) \<longrightarrow> current kern pend known w'" by blast
    have "poll_retry K efd sfd w = Some (r', w')" using r True p(1) by (subst poll_retry.simps) simp
    moreover have "announces K cb kern pend \<longrightarrow> current kern pend known w \<longrightarrow> r' \<noteq> Inr (True, False) \<longrightarrow> current kern pend known w'"
      using p(4) cur True by simp
    moreover have "(\<nexists>event. r' = Inr (event, True)) \<longrightarrow> left w' < left w" using p(3) l1 by (auto intro: less_trans)
    ultimately show ?thesis using p(2) k by (intro exI [of _ r'] exI [of _ w'] conjI) simp_all
  next
    case False
    with r k lt cur show ?thesis by (subst poll_retry.simps) auto
  qed
qed

lemma event_step:
  assumes laws: "watch_laws K cb known left" and ok: "snapshot_ok prev" "distinct (map if_index prev)" "known w = addrs_at prev"
    and ev: "watcher_event K prev w = (prev1, up, w1)"
  shows "snapshot_ok prev1 \<and> distinct (map if_index prev1) \<and> known (report cb up w1) = addrs_at prev1 \<and> left (report cb up w1) \<le> left w \<and>
    (announces K cb kern pend \<longrightarrow> current kern pend known (report cb up w1))"
proof -
  obtain good cur w2 where l: "ifmon_list_get K w = (good, cur, w2)" by (cases "ifmon_list_get K w")
  have q: "known w2 = known w" "left w2 \<le> left w" using list_get_quiet [OF laws l] by (simp_all add: quiet_def)
  have sc: "snapshot_ok cur" by (rule list_get_snapshot(1) [OF l])
  have d: "distinct (map if_index cur)" if good using laws l that unfolding watch_laws_def by metis
  let ?up = "generate_update prev cur False"
  have patch: "patch ?up (addrs_at prev) = addrs_at cur" if good by (rule update_patches [OF ok(1) sc ok(2) d [OF that]])
  have fresh: "good \<and> (pend w2 \<or> kern w2 = addrs_at cur)" if an: "announces K cb kern pend"
  proof -
    have "fst (ifmon_list_get K w)" using an unfolding announces_def by blast
    with l have g: good by simp
    have "\<forall>w l w1. ifmon_list_get K w = (True, l, w1) \<longrightarrow> pend w1 \<or> kern w1 = addrs_at l" using an unfolding announces_def by blast
    with l g have "pend w2 \<or> kern w2 = addrs_at cur" by simp
    with g show ?thesis ..
  qed
  show ?thesis
  proof (cases "good \<and> (up_added ?up \<noteq> [] \<or> up_removed ?up \<noteq> [] \<or> up_modified ?up \<noteq> [])")
    case True
    then have e: "prev1 = cur" "up = Some ?up" "w1 = w2" using ev l by (auto simp: watcher_event_def Let_def split: if_splits)
    have ni: "\<not> up_is_initial ?up"
      using generate_update_eq [of prev cur] ok(1) sc by (simp add: snapshot_ok_def)
    have "known (cb ?up w2) = learn ?up (known w2)" "left (cb ?up w2) \<le> left w2" using laws by (simp_all add: watch_laws_def)
    then have k: "known (cb ?up w2) = addrs_at cur" using patch True ni q ok(3) by (simp add: learn_def)
    moreover have "current kern pend known (cb ?up w2)" if an: "announces K cb kern pend"
    proof -
      have "pend (cb ?up w2) \<or> \<not> pend w2 \<and> kern (cb ?up w2) = kern w2" using an by (simp add: announces_def)
      with fresh [OF an] k show ?thesis by (auto simp: current_def)
    qed
    ultimately show ?thesis using True q e sc d \<open>left (cb ?up w2) \<le> left w2\<close> by (simp add: report_def)
  next
    case False
    then have "prev1 = prev" "up = None" "w1 = w2" using ev l by (auto simp: watcher_event_def Let_def split: if_splits)
    moreover have "current kern pend known w2" if an: "announces K cb kern pend"
    proof -
      have "up_added ?up = []" "up_removed ?up = []" "up_modified ?up = []" using False fresh [OF an] by auto
      then have "patch ?up (addrs_at prev) = addrs_at prev" by (auto simp: patch_def)
      with patch fresh [OF an] q ok(3) show ?thesis by (auto simp: current_def)
    qed
    ultimately show ?thesis using q ok by (simp add: report_def)
  qed
qed

lemma thread_follows:
  assumes laws: "watch_laws K cb known left"
  shows "snapshot_ok prev \<Longrightarrow> distinct (map if_index prev) \<Longrightarrow> known w = addrs_at prev \<Longrightarrow>
    \<exists>prev' w'. watcher_thread K cb efd sfd prev w = Some (prev', w') \<and> snapshot_ok prev' \<and> known w' = addrs_at prev' \<and>
      (announces K cb kern pend \<longrightarrow> current kern pend known w \<longrightarrow> current kern pend known w')"
proof (induction "left w" arbitrary: prev w rule: less_induct)
  case less
  obtain r w1 where p: "poll_retry K efd sfd w = Some (r, w1)" "known w1 = known w"
    "(\<nexists>event. r = Inr (event, True)) \<longrightarrow> left w1 < left w"
    "announces K cb kern pend \<longrightarrow> current kern pend known w \<longrightarrow> r \<noteq> Inr (True, False) \<longrightarrow> current kern pend known w1"
    using poll_retry_returns [OF laws, of efd sfd w kern pend] by blast
  show ?case
  proof (cases "wo_running K w \<and> (\<nexists>event. r = Inr (event, True))")
    case False
    with p less.prems show ?thesis by (subst watcher_thread.simps) auto
  next
    case True
    then have lt: "left w1 < left w" using p(3) by blast
    have k1: "known w1 = addrs_at prev" using p(2) less.prems(3) by simp
    show ?thesis
    proof (cases "r = Inr (True, False)")
      case ev: True
      obtain w2 where d: "drain_socket K efd 1000 w1 = Some w2" "quiet known left w1 w2"
        using drain_socket_returns [OF laws] by blast
      obtain prev1 up w3 where e: "watcher_event K prev w2 = (prev1, up, w3)" by (cases "watcher_event K prev w2")
      have k2: "known w2 = addrs_at prev" "left w2 \<le> left w1" using d(2) k1 by (simp_all add: quiet_def)
      note s = event_step [OF laws less.prems(1,2) k2(1) e, of kern pend]
      have "left (report cb up w3) < left w" using s k2(2) lt by linarith
      from less.hyps [OF this, of prev1] s obtain prev' w' where t: "watcher_thread K cb efd sfd prev1 (report cb up w3) = Some (prev', w')"
        "snapshot_ok prev'" "known w' = addrs_at prev'" "announces K cb kern pend \<longrightarrow> current kern pend known w'" by blast
      have "watcher_thread K cb efd sfd prev w = Some (prev', w')"
        using True p(1) ev d(1) e t(1) by (subst watcher_thread.simps) simp
      with t(2-4) show ?thesis by blast
    next
      case nev: False
      have "watcher_thread K cb efd sfd prev w = watcher_thread K cb efd sfd prev w1"
        using True p(1) nev by (subst watcher_thread.simps) (auto split: sum.splits prod.splits)
      with less.hyps [OF lt less.prems(1,2) k1] p(4) nev show ?thesis by auto
    qed
  qed
qed

lemma open_event_socket_known:
  assumes laws: "watch_laws K cb known left" and run: "open_event_socket K w = (Some fd, w')"
  shows "known w' = known w"
proof -
  obtain w1 where s: "wo_socket K w = (Some fd, w1)"
    using run by (cases "wo_socket K w") (auto simp: open_event_socket_def Let_def split: option.splits if_splits prod.splits)
  obtain ok w2 where b: "wo_bind K fd w1 = (ok, w2)" by force
  have "known w1 = known w" "known w2 = known w1" "known (wo_nonblock K fd w2) = known w2"
    using laws s b unfolding watch_laws_def by (metis snd_conv)+
  with run s b show ?thesis by (auto simp: open_event_socket_def split: if_splits)
qed

text \<open>A successful start reports the snapshot it keeps.\<close>

lemma watch_start_known:
  assumes laws: "watch_laws K cb known left" and run: "ifmon_watch_start K cb w = (True, wt, w')" and ok: "fst (ifmon_list_get K w)"
  shows "snapshot_ok (wt_prev wt) \<and> distinct (map if_index (wt_prev wt)) \<and> known w' = addrs_at (wt_prev wt)"
proof -
  obtain l w1 where l: "ifmon_list_get K w = (True, l, w1)" using ok by (metis fst_conv surj_pair)
  let ?w2 = "cb (generate_update [] l True) w1"
  obtain p w3 where p: "wo_pipe K ?w2 = (Some p, w3)"
    using run l by (cases "wo_pipe K ?w2") (auto simp: ifmon_watch_start_def Let_def split: option.splits)
  obtain fd w4 where e: "open_event_socket K w3 = (Some fd, w4)"
    using run l p by (cases "open_event_socket K w3") (auto simp: ifmon_watch_start_def Let_def split: option.splits)
  obtain st w5 where t: "wo_thread K (wo_set_running K True w4) = (st, w5)" by force
  have r: "wt_prev wt = l" "w' = w5" using run l p e t by (auto simp: ifmon_watch_start_def Let_def split: if_splits)
  have "known ?w2 = addrs_at l" using laws by (simp add: watch_laws_def learn_def generate_update_def)
  moreover have "known w3 = known ?w2" using laws p unfolding watch_laws_def by (metis snd_conv)
  moreover have "known w5 = known w4" using laws t unfolding watch_laws_def by (metis snd_conv)
  moreover have "distinct (map if_index l)" using laws l unfolding watch_laws_def by metis
  ultimately show ?thesis using open_event_socket_known [OF laws e] list_get_snapshot(1) [OF l] r by simp
qed

text \<open>
  C37. The watcher's client knows the kernel's addresses. After a start that succeeds and whose first
  snapshot does, the watcher thread returns once it is told to stop, and a client that takes over
  the initial report and applies every later update knows in the end exactly the addresses of the
  snapshot the watcher keeps. If the kernel announces its changes by events and every snapshot succeeds, these are the kernel's
  addresses, or an event that announces the difference is still pending, provided this was so when the thread began (a change
  between the first snapshot and the opening of the event socket is not announced).
\<close>

theorem watcher_client_follows:
  assumes "watch_laws K cb known left" and "ifmon_watch_start K cb w = (True, wt, w1)" and "fst (ifmon_list_get K w)"
  shows "\<exists>prev' w'. watcher_thread K cb (wt_event_fd wt) (fst (wt_stop_pipe wt)) (wt_prev wt) w1 = Some (prev', w') \<and>
    snapshot_ok prev' \<and> known w' = addrs_at prev' \<and>
    (announces K cb kern pend \<and> (pend w1 \<or> known w1 = kern w1) \<longrightarrow> pend w' \<or> known w' = kern w')"
  using thread_follows [OF assms(1), of "wt_prev wt" w1 "wt_event_fd wt" "fst (wt_stop_pipe wt)" kern pend] watch_start_known [OF assms]
  by (auto simp: current_def)

text \<open>
  A kernel with one interface, whose address changes with every event; the client keeps the
  addresses it knows in the world.
\<close>

record watch_world =
  ww_events :: nat
  ww_links :: bool
  ww_running :: bool
  ww_known :: "u32 \<Rightarrow> ifmon_addr set option"

definition demo_watch :: "watch_world watch_os" where
  "demo_watch = \<lparr>nl_open = (\<lambda>w. (True, w)), nl_request = (\<lambda>b w. (True, w\<lparr>ww_links := b\<rparr>)),
     nl_recv = (\<lambda>w. (Some (if ww_links w then [NewLink True 2 [IfName (chars ''eth0'')], NlDone]
       else [NewAddr True False 2 24 [IfaAddress [0, 0, 0, of_nat (ww_events w)]], NlDone]), w)),
     nl_close = (\<lambda>w. w),
     wo_socket = (\<lambda>w. (Some 5, w)), wo_bind = (\<lambda>fd w. (True, w)), wo_nonblock = (\<lambda>fd w. w),
     wo_recv = (\<lambda>fd w. (Inl EAGAIN, w)),
     wo_poll = (\<lambda>efd sfd w. if ww_events w = 0 then (Inr (False, True), w) else (Inr (True, False), w\<lparr>ww_events := ww_events w - 1\<rparr>)),
     wo_pipe = (\<lambda>w. (Some (3, 4), w)), wo_set_running = (\<lambda>b w. w\<lparr>ww_running := b\<rparr>), wo_running = ww_running,
     wo_thread = (\<lambda>w. (True, w)), wo_write = (\<lambda>fd bs w. w), wo_join = (\<lambda>w. w), wo_close = (\<lambda>fd w. w)\<rparr>"

definition demo_learn :: "ifmon_update \<Rightarrow> watch_world \<Rightarrow> watch_world" where
  "demo_learn up w = w\<lparr>ww_known := learn up (ww_known w)\<rparr>"

definition demo_iface :: "nat \<Rightarrow> ifmon_iface" where
  "demo_iface n = \<lparr>if_index = 2, if_name = chars ''eth0'', if_hw_addr = no_mac,
     if_addrs = [\<lparr>ia_ip = IPv4 (of_nat (be_val [0, 0, 0, of_nat n])), ia_prefix_len = 24\<rparr>]\<rparr>"

lemma demo_watch_list: "ifmon_list_get demo_watch w = (True, [demo_iface (ww_events w)], w\<lparr>ww_links := False\<rparr>)"
proof -
  have n: "(1000 :: nat) = Suc 999" by simp
  let ?i = "(demo_iface (ww_events w))\<lparr>if_addrs := []\<rparr>"
  have nm: "take 63 (cstr_of (chars ''eth0'')) = chars ''eth0''" "is_iface_allowed (chars ''eth0'')" by code_simp+
  have "add_link_msg (NewLink True 2 [IfName (chars ''eth0'')]) [] = [?i]"
    using nm by (simp add: add_link_msg_def link_attr_def IFMON_MAX_INTERFACES_def demo_iface_def Let_def)
  moreover have "add_addr_msg (NewAddr True False 2 24 [IfaAddress [0, 0, 0, of_nat (ww_events w)]]) [?i] = [demo_iface (ww_events w)]"
    by (simp add: add_addr_msg_def addr_attr_def IFMON_MAX_IPS_PER_IFACE_def demo_iface_def)
  moreover have "fill_prefix (demo_iface n) = demo_iface n" for n
    by (simp add: fill_prefix_def demo_iface_def Let_def)
  ultimately show ?thesis
    unfolding ifmon_list_get_def n scan_dump.simps by (simp add: demo_watch_def)
qed

lemma demo_watch_laws: "watch_laws demo_watch demo_learn ww_known ww_events"
proof -
  have u: "\<forall>w l w1. ifmon_list_get demo_watch w = (True, l, w1) \<longrightarrow> distinct (map if_index l)"
    by (auto simp: demo_watch_list)
  have poll: "\<forall>efd sfd w r w1. wo_poll demo_watch efd sfd w = (r, w1) \<longrightarrow> (\<nexists>event. r = Inr (event, True)) \<longrightarrow> ww_events w1 < ww_events w"
    by (auto simp: demo_watch_def split: if_splits)
  show ?thesis unfolding watch_laws_def
    by (intro conjI u poll) (simp_all add: demo_learn_def demo_watch_def)
qed

definition demo_watch_world :: watch_world where
  "demo_watch_world = \<lparr>ww_events = 2, ww_links = False, ww_running = False, ww_known = Map.empty\<rparr>"

lemma demo_announces: "announces demo_watch demo_learn (\<lambda>w. addrs_at [demo_iface (ww_events w)]) (\<lambda>w. False)"
  unfolding announces_def
proof (intro conjI)
  show "\<forall>efd sfd w r w1. wo_poll demo_watch efd sfd w = (r, w1) \<longrightarrow> r \<noteq> Inr (True, False) \<longrightarrow>
      False \<or> \<not> False \<and> addrs_at [demo_iface (ww_events w1)] = addrs_at [demo_iface (ww_events w)]"
    by (auto simp: demo_watch_def split: if_splits)
qed (auto simp: demo_watch_list demo_learn_def)

theorem watcher_client_follows_witness:
  "\<exists>wt w1 prev' w'. ifmon_watch_start demo_watch demo_learn demo_watch_world = (True, wt, w1) \<and>
     watcher_thread demo_watch demo_learn 5 3 (wt_prev wt) w1 = Some (prev', w') \<and> ww_known w' = addrs_at [demo_iface (ww_events w')]"
proof -
  obtain wt w1 where s: "ifmon_watch_start demo_watch demo_learn demo_watch_world = (True, wt, w1)"
    "wt_event_fd wt = 5" "wt_stop_pipe wt = (3, 4)" "ww_events w1 = 2" "wt_prev wt = [demo_iface 2]"
  proof -
    have "open_event_socket demo_watch w = (Some 5, w)" for w by (simp add: open_event_socket_def demo_watch_def)
    then show ?thesis
      using that [of "\<lparr>wt_prev = [demo_iface 2], wt_stop_pipe = (3, 4), wt_event_fd = 5\<rparr>"] unfolding ifmon_watch_start_def demo_watch_list
      by (simp add: Let_def) (simp add: demo_watch_def demo_learn_def demo_watch_world_def)
  qed
  have ok: "fst (ifmon_list_get demo_watch demo_watch_world)" by (simp add: demo_watch_list)
  have "ww_known w1 = addrs_at [demo_iface (ww_events w1)]" using watch_start_known [OF demo_watch_laws s(1) ok] s(4,5) by simp
  with watcher_client_follows [OF demo_watch_laws s(1) ok, of "\<lambda>w. addrs_at [demo_iface (ww_events w)]" "\<lambda>w. False"] demo_announces s
  show ?thesis by auto
qed

end
