(* ===== verification/Reassembly.thy ===== *)
theory Reassembly
  imports Assembler
begin

text \<open>
  What the frame assemblers guarantee: the slot invariant and its preservation by every step, memory
  safety for consistent headers, and the end-to-end property of reassembly: from the symbols of an
  encoded object, in any order and with any repetition, the object is delivered once and intact as
  soon as as many distinct symbols arrived as it has data symbols.
\<close>

section \<open>The slot invariant\<close>

definition asm_wf :: "frame_assembler \<Rightarrow> bool" where
  "asm_wf a \<longleftrightarrow>
     (case fa_buffers a of
        None \<Rightarrow> fa_total_symbols a = 0
      | Some bufs \<Rightarrow>
          length bufs = unat (fa_capacity_symbols a) \<and>
          (\<forall>b \<in> set bufs. length b = unat (fa_capacity_symbol_size a)) \<and>
          length (fa_received_mask a) = unat (fa_capacity_symbols a) \<and>
          fa_total_symbols a \<le> fa_capacity_symbols a \<and>
          fa_symbol_size a \<le> fa_capacity_symbol_size a \<and> 256 \<le> fa_capacity_symbols a \<and>
          unat (fa_received_count a) = count_true (fa_received_mask a))"

lemma asm_wfD:
  assumes "asm_wf a" "fa_buffers a = Some bufs"
  shows "length bufs = unat (fa_capacity_symbols a)"
    "\<And>b. b \<in> set bufs \<Longrightarrow> length b = unat (fa_capacity_symbol_size a)"
    "length (fa_received_mask a) = length bufs"
    "unat (fa_total_symbols a) \<le> length bufs"
    "unat (fa_symbol_size a) \<le> unat (fa_capacity_symbol_size a)" "256 \<le> length bufs"
    "unat (fa_received_count a) = count_true (fa_received_mask a)"
  using assms by (auto simp: asm_wf_def word_le_nat_alt)

lemma asm_wf_empty [simp]: "asm_wf empty_assembler"
  by (simp add: asm_wf_def empty_assembler_def)

lemma asm_reset_wf: "asm_wf a \<Longrightarrow> asm_wf (asm_reset h a)"
  by (auto simp: asm_wf_def asm_reset_def Let_def word_le_nat_alt word_less_nat_alt not_less
      split: option.splits if_splits)

lemma asm_reset_fields [simp]:
  "fa_total_symbols (asm_reset h a) = h_total_symbols h"
  "fa_data_symbols (asm_reset h a) = h_data_symbols h"
  "fa_symbol_size (asm_reset h a) = h_symbol_size h"
  "fa_track_id (asm_reset h a) = h_track_id h" "fa_group_id (asm_reset h a) = h_group_id h"
  "fa_object_id (asm_reset h a) = h_object_id h" "fa_priority (asm_reset h a) = h_priority h"
  "fa_decoded (asm_reset h a) = False" "fa_nack_sent (asm_reset h a) = False"
  "fa_received_count (asm_reset h a) = 0"
  "\<exists>bufs. fa_buffers (asm_reset h a) = Some bufs"
  "fa_received_mask (asm_reset h a) = replicate (unat (fa_capacity_symbols (asm_reset h a))) False"
  by (auto simp: asm_reset_def Let_def)

text \<open>A datagram that agrees with a slot: the sizes its header gives are the slot's.\<close>

definition hdr_fits :: "fec_packet_header \<Rightarrow> frame_assembler \<Rightarrow> bool" where
  "hdr_fits h a \<longleftrightarrow>
     h_total_symbols h = fa_total_symbols a \<and> h_data_symbols h = fa_data_symbols a \<and>
     h_symbol_size h = fa_symbol_size a"

lemma asm_store_ok:
  assumes wf: "asm_wf a" and bufs: "fa_buffers a = Some bufs" and fits: "hdr_fits h a"
    and idx: "h_symbol_index h < h_total_symbols h" and body: "unat (h_symbol_size h) \<le> length body"
  obtains a' bufs' where "asm_store h body a = Inr a'" "asm_wf a'" "fa_buffers a' = Some bufs'"
    "fa_received_mask a' = (fa_received_mask a)[unat (h_symbol_index h) := True]"
    "a' = a\<lparr>fa_buffers := Some bufs', fa_received_mask := fa_received_mask a',
            fa_received_count := fa_received_count a'\<rparr>"
    "\<And>j. j < length bufs \<Longrightarrow> take (unat (h_symbol_size h)) (bufs' ! j) =
      (if j = unat (h_symbol_index h) \<and> \<not> fa_received_mask a ! j then take (unat (h_symbol_size h)) body
       else take (unat (h_symbol_size h)) (bufs ! j))"
proof -
  note d = asm_wfD [OF wf bufs]
  let ?i = "unat (h_symbol_index h)" and ?sz = "unat (h_symbol_size h)"
  have i: "?i < length bufs"
    using idx fits d(4) by (simp add: hdr_fits_def word_less_nat_alt)
  show ?thesis
  proof (cases "fa_received_mask a ! ?i")
    case True
    then have "asm_store h body a = Inr a" "(fa_received_mask a)[?i := True] = fa_received_mask a"
      using i d(3) by (auto simp: asm_store_def Let_def list_update_same_conv)
    moreover have "take ?sz (bufs ! j) =
      (if j = ?i \<and> \<not> fa_received_mask a ! j then take ?sz body else take ?sz (bufs ! j))" for j
      using True by auto
    ultimately show ?thesis using wf bufs by (intro that [of a bufs]) simp_all
  next
    case False
    have sz: "?sz \<le> length (bufs ! ?i)"
      using d(2,5) i fits by (simp add: hdr_fits_def)
    define b where "b = take ?sz body @ drop ?sz (bufs ! ?i)"
    have put: "put_bytes 0 (take ?sz body) (bufs ! ?i) = Inr b"
      using sz body by (simp add: put_bytes_def b_def min_def)
    let ?a = "a\<lparr>fa_buffers := Some (bufs[?i := b]), fa_received_mask := (fa_received_mask a)[?i := True],
                fa_received_count := fa_received_count a + 1\<rparr>"
    have st: "asm_store h body a = Inr ?a"
      using i d(3) bufs False put by (simp add: asm_store_def Let_def)
    have lb: "length b = length (bufs ! ?i)" using length_put_bytes [OF put] .
    have cnt: "count_true ((fa_received_mask a)[?i := True]) = Suc (count_true (fa_received_mask a))"
      using i d(3) False by (simp add: count_true_set)
    have "count_true ((fa_received_mask a)[?i := True]) \<le> length (fa_received_mask a)"
      using count_true_le [of "(fa_received_mask a)[?i := True]"] by simp
    moreover have "length (fa_received_mask a) < 65536"
      using d(1,3) unat_bound [of "fa_capacity_symbols a"] by simp
    ultimately have "unat (fa_received_count a + 1) = Suc (unat (fa_received_count a))"
      using d(7) cnt by (simp add: unat_word_ariths)
    then have "asm_wf ?a"
      using wf bufs d(7) cnt lb i set_update_subset_insert [of bufs ?i b] d(2)
      by (auto simp: asm_wf_def)
    moreover have "take ?sz (bufs[?i := b] ! j) =
      (if j = ?i \<and> \<not> fa_received_mask a ! j then take ?sz body else take ?sz (bufs ! j))"
      if "j < length bufs" for j
      using that False i body by (auto simp: nth_list_update b_def)
    ultimately show ?thesis using that [OF st, of "bufs[?i := b]"] by simp
  qed
qed

section \<open>Decoding in place\<close>

lemma length_overlay [simp]: "length (overlay sz out bufs) = length bufs"
  by (simp add: overlay_def)

lemma overlay_block_length:
  assumes "\<forall>b \<in> set bufs. length b = n" "sz \<le> n" "b \<in> set (overlay sz out bufs)"
  shows "length b = n"
  using assms by (auto simp: overlay_def min_def)

lemma take_overlay:
  "i < length bufs \<Longrightarrow> i < length out \<Longrightarrow> length (out ! i) = sz \<Longrightarrow> take sz (overlay sz out bufs ! i) = out ! i"
  by (simp add: overlay_def)

lemma fec_decode_rs_prefix:
  assumes "f_type f = FEC_REED_SOLOMON" "n = f_data_symbols f + f_parity_symbols f"
    "n \<le> length blocks" "n \<le> length missing" "fec_decode L f (take n blocks) (take n missing) = Inr (ok, out)"
  shows "fec_decode L f blocks missing = Inr (ok, out @ drop n blocks)"
proof -
  have eqs: "map ((!) (take n blocks)) [0..<n] = map ((!) blocks) [0..<n]"
    "map (\<lambda>i. if take n missing ! i then 1 else 0 :: u8) [0..<n] = map (\<lambda>i. if missing ! i then 1 else 0) [0..<n]"
    by auto
  show ?thesis
    using assms(1,3-5) unfolding assms(2)
    by (auto simp: eqs [unfolded assms(2)] fec_decode_def rs_decode_blocks_def Let_def split: option.splits prod.splits)
qed

lemma count_true_not: "count_true (map Not xs) = length xs - count_true xs"
proof (induction xs)
  case (Cons x xs)
  then show ?case using count_true_le [of xs] by (simp add: Suc_diff_le)
qed simp

lemma count_true_take: "\<forall>i < length m. n \<le> i \<longrightarrow> \<not> m ! i \<Longrightarrow> count_true (take n m) = count_true m"
proof -
  assume off: "\<forall>i < length m. n \<le> i \<longrightarrow> \<not> m ! i"
  have "\<forall>b \<in> set (drop n m). \<not> b" using off by (auto simp: in_set_conv_nth)
  then have "count_true (drop n m) = 0" by (simp add: count_true_def filter_empty_conv)
  then show ?thesis
    using count_true_append [of "take n m" "drop n m"] by simp
qed

lemma count_true_all: "count_true m = length m \<Longrightarrow> \<forall>b \<in> set m. b"
  using filter_id_conv [of id m] length_filter_less [of _ m id]
  by (metis count_true_def id_apply nat_neq_iff)

text \<open>
  \<open>rs_codeword\<close>: the symbols of an object: the data symbols, followed by the parity symbols that a
  Reed-Solomon context made for these sizes computes from them.
\<close>

definition rs_codeword ::
  "('rs, 'rq, 'sc) fec_lib \<Rightarrow> nat \<Rightarrow> nat \<Rightarrow> nat \<Rightarrow> bytes list \<Rightarrow> bytes list \<Rightarrow> bool" where
  "rs_codeword L k m sz data cw \<longleftrightarrow>
     blocks_of k sz data \<and>
     (if m = 0 then cw = data
      else \<exists>f par par'. fec_made L FEC_REED_SOLOMON k m sz f \<and> blocks_of m sz par \<and>
             fec_encode L f data par = Inr (data, par') \<and> cw = data @ par')"

lemma rs_codeword_data: "rs_codeword L k m sz data cw \<Longrightarrow> i < k \<Longrightarrow> cw ! i = data ! i"
  by (auto simp: rs_codeword_def blocks_of_def nth_append split: if_splits)

lemma rs_codeword_decodes:
  assumes mds: "rs_mds L" and cw: "rs_codeword L k m sz data cw" and m: "0 < m"
  obtains f where "fec_made L FEC_REED_SOLOMON k m sz f"
    "\<And>blocks missing. blocks_of (k + m) sz blocks \<Longrightarrow> length missing = k + m \<Longrightarrow>
       \<forall>i < k + m. \<not> missing ! i \<longrightarrow> blocks ! i = cw ! i \<Longrightarrow> count_true missing \<le> m \<Longrightarrow>
       \<exists>out. fec_decode L f blocks missing = Inr (True, out) \<and> take k out = data"
proof -
  obtain f par par' where f: "fec_made L FEC_REED_SOLOMON k m sz f" and par: "blocks_of m sz par"
    and enc: "fec_encode L f data par = Inr (data, par')" and "cw = data @ par'" and data: "blocks_of k sz data"
    using cw m by (auto simp: rs_codeword_def)
  moreover obtain par'' where par'': "fec_encode L f data par = Inr (data, par'')" and
    dec: "\<forall>blocks missing. blocks_of (k + m) sz blocks \<longrightarrow> length missing = k + m \<longrightarrow>
       (\<forall>i < k + m. \<not> missing ! i \<longrightarrow> blocks ! i = (data @ par'') ! i) \<longrightarrow> count_true missing \<le> m \<longrightarrow>
       (\<exists>out. fec_decode L f blocks missing = Inr (True, out) \<and> take k out = data \<and> length out = k + m)"
    using rs_roundtrip [OF mds f [unfolded fec_made_def] data par] by blast
  moreover have "par'' = par'" using par'' enc by simp
  ultimately show ?thesis using that [OF f] by blast
qed

section \<open>Decoding a slot\<close>

text \<open>The sizes a header announces: \<open>k\<close> data and \<open>m\<close> parity symbols of \<open>sz\<close> bytes.\<close>

definition hdr_sizes :: "fec_packet_header \<Rightarrow> nat \<Rightarrow> nat \<Rightarrow> nat \<Rightarrow> bool" where
  "hdr_sizes h k m sz \<longleftrightarrow>
     unat (h_data_symbols h) = k \<and> unat (h_total_symbols h) = k + m \<and> unat (h_symbol_size h) = sz"

text \<open>A slot that holds received symbols of the code word \<open>cw\<close> and nothing else.\<close>

definition asm_holds :: "fec_packet_header \<Rightarrow> bytes list \<Rightarrow> frame_assembler \<Rightarrow> bool" where
  "asm_holds h cw a \<longleftrightarrow>
     asm_wf a \<and> hdr_fits h a \<and>
     (\<exists>bufs. fa_buffers a = Some bufs \<and>
        (\<forall>i < unat (fa_total_symbols a). fa_received_mask a ! i \<longrightarrow>
           take (unat (fa_symbol_size a)) (bufs ! i) = cw ! i)) \<and>
     (\<forall>i < length (fa_received_mask a). unat (fa_total_symbols a) \<le> i \<longrightarrow> \<not> fa_received_mask a ! i)"

lemma asm_holdsE:
  assumes "asm_holds h cw a" "hdr_sizes h k m sz"
  obtains bufs where "fa_buffers a = Some bufs" "asm_wf a" "hdr_fits h a"
    "\<And>i. i < k + m \<Longrightarrow> fa_received_mask a ! i \<Longrightarrow> take sz (bufs ! i) = cw ! i"
    "k + m \<le> length bufs" "length (fa_received_mask a) = length bufs"
    "\<And>b. b \<in> set bufs \<Longrightarrow> sz \<le> length b"
    "count_true (take (k + m) (fa_received_mask a)) = count_true (fa_received_mask a)"
    "unat (fa_received_count a) = count_true (fa_received_mask a)"
proof -
  have sizes: "unat (fa_total_symbols a) = k + m" "unat (fa_symbol_size a) = sz"
    using assms by (auto simp: asm_holds_def hdr_fits_def hdr_sizes_def)
  obtain bufs where b: "fa_buffers a = Some bufs"
    "\<forall>i < unat (fa_total_symbols a). fa_received_mask a ! i \<longrightarrow>
           take (unat (fa_symbol_size a)) (bufs ! i) = cw ! i"
    and wf: "asm_wf a" "hdr_fits h a"
    using assms(1) by (auto simp: asm_holds_def)
  note d = asm_wfD [OF wf(1) b(1)]
  have "count_true (take (k + m) (fa_received_mask a)) = count_true (fa_received_mask a)"
    using assms(1) sizes by (intro count_true_take) (auto simp: asm_holds_def)
  then show ?thesis
    using that [OF b(1) wf] b(2) sizes d by simp
qed

lemma asm_holds_all_data:
  assumes holds: "asm_holds h cw a" and sz: "hdr_sizes h k 0 sz" and k: "k \<le> count_true (fa_received_mask a)"
  shows "\<forall>b \<in> set (take k (fa_received_mask a)). b"
proof -
  obtain bufs where "fa_buffers a = Some bufs" "k + 0 \<le> length bufs" "length (fa_received_mask a) = length bufs"
    "count_true (take (k + 0) (fa_received_mask a)) = count_true (fa_received_mask a)"
    by (rule asm_holdsE [OF holds sz], rule that)
  then have "count_true (take k (fa_received_mask a)) = length (take k (fa_received_mask a))"
    using k count_true_le [of "take k (fa_received_mask a)"] by simp
  then show ?thesis by (rule count_true_all)
qed

lemma transport_get_fec_made:
  assumes inv: "fec_cache_inv (e_fec E) (t_fec_cache t)" and alloc: "\<forall>n. e_alloc E n"
    and made: "fec_made (e_fec E) ty k m sz f"
  obtains cache where "transport_get_fec E ty k m sz t =
      (Some f, t\<lparr>t_world := snd (e_time_ns E (t_world t)), t_fec_cache := cache\<rparr>)"
    "fec_cache_inv (e_fec E) cache"
proof -
  let ?g = "get_cached_fec (e_fec E) (e_alloc E, fst (e_time_ns E (t_world t))) (t_fec_cache t) ty k m sz"
  have "e_alloc E = (\<lambda>_. True)" using alloc by auto
  then have "fst ?g = Some f"
    using get_cached_fec_returns [OF inv] made by (simp add: fec_made_def)
  then have "transport_get_fec E ty k m sz t =
      (Some f, t\<lparr>t_world := snd (e_time_ns E (t_world t)), t_fec_cache := snd ?g\<rparr>)"
    by (simp add: transport_get_fec_def case_prod_beta Let_def)
  then show ?thesis using that get_cached_fec_inv [OF inv] by blast
qed

lemma decode_buffers_codeword:
  assumes mds: "rs_mds L" and cw: "rs_codeword L k m sz data cw" and m: "0 < m" and km: "k + m \<le> 256"
    and sz: "hdr_sizes h k m sz" and holds: "asm_holds h cw a"
    and k: "k \<le> count_true (fa_received_mask a)" and bufs: "fa_buffers a = Some bufs"
  obtains f missing bufs' where "fec_made L FEC_REED_SOLOMON k m sz f"
    "missing_array (fa_received_mask a) (k + m) = Inr missing"
    "decode_buffers L f bufs missing = Inr (True, bufs')" "asm_wf (a\<lparr>fa_buffers := Some bufs'\<rparr>)"
    "\<And>i. i < k \<Longrightarrow> take sz (bufs' ! i) = data ! i"
proof -
  from asm_holdsE [OF holds sz] bufs
  have wf: "asm_wf a" and got: "\<And>i. i < k + m \<Longrightarrow> fa_received_mask a ! i \<Longrightarrow> take sz (bufs ! i) = cw ! i"
    and len: "k + m \<le> length bufs" "length (fa_received_mask a) = length bufs"
    and wide: "\<And>b. b \<in> set bufs \<Longrightarrow> sz \<le> length b"
    and cnt: "count_true (take (k + m) (fa_received_mask a)) = count_true (fa_received_mask a)"
    by (metis option.inject)+
  note d = asm_wfD [OF wf bufs]
  obtain f where f: "fec_made L FEC_REED_SOLOMON k m sz f"
    and dec: "\<And>blocks missing. blocks_of (k + m) sz blocks \<Longrightarrow> length missing = k + m \<Longrightarrow>
       \<forall>i < k + m. \<not> missing ! i \<longrightarrow> blocks ! i = cw ! i \<Longrightarrow> count_true missing \<le> m \<Longrightarrow>
       \<exists>out. fec_decode L f blocks missing = Inr (True, out) \<and> take k out = data"
    by (rule rs_codeword_decodes [OF mds cw m], rule that)
  note ff = fec_made_fields [OF f]
  let ?missing = "map (\<lambda>i. if i < k + m then \<not> fa_received_mask a ! i else False) [0..<256]"
  have tm: "take (k + m) ?missing = map Not (take (k + m) (fa_received_mask a))"
    using km len by (intro nth_equalityI) auto
  have "count_true (take (k + m) ?missing) \<le> m"
    unfolding tm count_true_not using cnt k len by simp
  moreover have "blocks_of (k + m) sz (take (k + m) (map (take sz) bufs))"
    using len wide by (auto simp: blocks_of_def dest!: in_set_takeD)
  ultimately obtain out where out: "fec_decode L f (take (k + m) (map (take sz) bufs)) (take (k + m) ?missing) = Inr (True, out)"
    "take k out = data"
    using dec [of "take (k + m) (map (take sz) bufs)" "take (k + m) ?missing"] got len km by auto
  have full: "fec_decode L f (map (take sz) bufs) ?missing = Inr (True, out @ drop (k + m) (map (take sz) bufs))"
    by (rule fec_decode_rs_prefix [OF _ _ _ _ out(1)]) (use ff len km in auto)
  let ?bufs' = "overlay sz (out @ drop (k + m) (map (take sz) bufs)) bufs"
  have arr: "missing_array (fa_received_mask a) (k + m) = Inr ?missing"
    using km len by (simp add: missing_array_def)
  have db: "decode_buffers L f bufs ?missing = Inr (True, ?bufs')"
    using full ff wide by (auto simp: decode_buffers_def Let_def not_less dest!: in_set_takeD)
  have ow: "\<forall>b \<in> set ?bufs'. length b = unat (fa_capacity_symbol_size a)"
    using overlay_block_length [of bufs "unat (fa_capacity_symbol_size a)" sz] d(2,5) sz holds
    by (auto simp: asm_holds_def hdr_fits_def hdr_sizes_def)
  have wf': "asm_wf (a\<lparr>fa_buffers := Some ?bufs'\<rparr>)"
    using wf bufs ow by (auto simp: asm_wf_def)
  have data: "blocks_of k sz data" using cw by (simp add: rs_codeword_def)
  then have lk: "k \<le> length out" using out(2) by (auto simp: blocks_of_def)
  have "take sz (?bufs' ! i) = data ! i" if "i < k" for i
  proof -
    have "out ! i = data ! i" using out(2) that by auto
    moreover have "length (data ! i) = sz" using data that by (auto simp: blocks_of_def)
    ultimately show ?thesis
      using that lk len by (subst take_overlay) (auto simp: nth_append)
  qed
  then show ?thesis using that [OF f arr db wf'] by blast
qed

lemma asm_decode_ok:
  assumes mds: "rs_mds (e_fec E)" and cw: "rs_codeword (e_fec E) k m sz data cw" and km: "k + m \<le> 255"
    and alloc: "\<forall>n. e_alloc E n" and inv: "fec_cache_inv (e_fec E) (t_fec_cache t)"
    and sz: "hdr_sizes h k m sz" and holds: "asm_holds h cw a"
    and k: "k \<le> count_true (fa_received_mask a)"
  obtains bufs' w cache where "asm_decode E track h a t =
      Inr (True, a\<lparr>fa_buffers := Some bufs'\<rparr>, t\<lparr>t_world := w, t_fec_cache := cache\<rparr>)"
    "asm_wf (a\<lparr>fa_buffers := Some bufs'\<rparr>)" "\<And>i. i < k \<Longrightarrow> take sz (bufs' ! i) = data ! i"
    "w = t_world t \<or> w = snd (e_time_ns E (t_world t))" "fec_cache_inv (e_fec E) cache"
proof -
  obtain bufs where bufs: "fa_buffers a = Some bufs" and wf: "asm_wf a"
    and got: "\<And>i. i < k + m \<Longrightarrow> fa_received_mask a ! i \<Longrightarrow> take sz (bufs ! i) = cw ! i"
    and len: "k + m \<le> length bufs" "length (fa_received_mask a) = length bufs"
    by (rule asm_holdsE [OF holds sz], rule that)
  have hs: "unat (h_data_symbols h) = k" "unat (h_total_symbols h) = k + m" "unat (h_symbol_size h) = sz"
    using sz by (simp_all add: hdr_sizes_def)
  have all: "got_all_data (fa_received_mask a) k = Inr (\<forall>b \<in> set (take k (fa_received_mask a)). b)"
    using len by (simp add: got_all_data_def)
  show ?thesis
  proof (cases "\<forall>b \<in> set (take k (fa_received_mask a)). b")
    case True
    have "take sz (bufs ! i) = data ! i" if "i < k" for i
    proof -
      have "take k (fa_received_mask a) ! i \<in> set (take k (fa_received_mask a))"
        using that len by (intro nth_mem) simp
      with True have "take k (fa_received_mask a) ! i" by blast
      with that have "fa_received_mask a ! i" by simp
      with got [of i] that rs_codeword_data [OF cw that] show ?thesis by simp
    qed
    moreover have "asm_decode E track h a t = Inr (True, a\<lparr>fa_buffers := Some bufs\<rparr>,
        t\<lparr>t_world := t_world t, t_fec_cache := t_fec_cache t\<rparr>)"
    proof -
      have "got_all_data (fa_received_mask a) k = Inr True"
        unfolding all sum.inject eq_True by (rule True)
      with hs bufs show ?thesis by (simp add: asm_decode_def)
    qed
    moreover have "asm_wf (a\<lparr>fa_buffers := Some bufs\<rparr>)" using wf bufs by (simp add: asm_wf_def)
    ultimately show ?thesis using inv by (intro that [of bufs "t_fec_cache t" "t_world t"]) simp_all
  next
    case False
    have none: "got_all_data (fa_received_mask a) k = Inr False"
      unfolding all sum.inject eq_False by (rule False)
    have m: "0 < m"
    proof (rule ccontr)
      assume "\<not> 0 < m"
      with asm_holds_all_data [OF holds _ k] sz False show False by simp
    qed
    obtain f missing bufs' where f: "fec_made (e_fec E) FEC_REED_SOLOMON k m sz f"
      and dec: "missing_array (fa_received_mask a) (k + m) = Inr missing"
        "decode_buffers (e_fec E) f bufs missing = Inr (True, bufs')"
      and res: "asm_wf (a\<lparr>fa_buffers := Some bufs'\<rparr>)" "\<And>i. i < k \<Longrightarrow> take sz (bufs' ! i) = data ! i"
      by (rule decode_buffers_codeword [OF mds cw m _ sz holds k bufs], use km in simp, rule that)
    obtain cache where g: "transport_get_fec E FEC_REED_SOLOMON k m sz t =
      (Some f, t\<lparr>t_world := snd (e_time_ns E (t_world t)), t_fec_cache := cache\<rparr>)"
      and inv': "fec_cache_inv (e_fec E) cache"
      by (rule transport_get_fec_made [OF inv alloc f], rule that)
    have "unat ((ucast (h_total_symbols h) :: u64) - ucast (h_data_symbols h)) = m"
    proof -
      have "unat (ucast (h_data_symbols h) :: u64) = k" "unat (ucast (h_total_symbols h) :: u64) = k + m"
        using hs unat_bound [of "h_data_symbols h"] unat_bound [of "h_total_symbols h"]
        by (simp_all add: unsigned_ucast_eq take_bit_nat_eq_self)
      then show ?thesis by (subst unat_sub) (simp_all add: word_le_nat_alt)
    qed
    moreover have "recv_fec_type track (k + m) = FEC_REED_SOLOMON"
      using km by (simp add: recv_fec_type_def)
    ultimately have "asm_decode E track h a t = Inr (True, a\<lparr>fa_buffers := Some bufs'\<rparr>,
        t\<lparr>t_world := snd (e_time_ns E (t_world t)), t_fec_cache := cache\<rparr>)"
      using none hs bufs g dec m by (simp add: asm_decode_def Let_def)
    then show ?thesis using that res inv' by blast
  qed
qed

text \<open>The object the symbols of \<open>data\<close> make up.\<close>

definition object_of :: "fec_packet_header \<Rightarrow> moq_track_id \<Rightarrow> bytes list \<Rightarrow> u8 \<Rightarrow> moq_object" where
  "object_of h track data prio =
    \<lparr>ob_track = track\<lparr>tk_flags := (tk_flags track OR MOQ_TRACK_FLAG_FEC_ENABLED)
                                  AND NOT MOQ_TRACK_FLAG_RELIABLE\<rparr>,
     ob_group_id = ucast (h_group_id h), ob_object_id = ucast (h_object_id h),
     ob_data = take (unat (h_original_size h)) (concat data),
     ob_is_keyframe = (h_is_keyframe h \<noteq> 0), ob_priority = prio\<rparr>"

lemma asm_object_ok:
  assumes bufs: "fa_buffers a = Some bufs" and wf: "asm_wf a" and fits: "hdr_fits h a"
    and sz: "hdr_sizes h k m sz"
    and data: "\<And>i. i < k \<Longrightarrow> take sz (bufs ! i) = data ! i" "length data = k"
    and size: "unat (h_original_size h) \<le> k * sz"
  shows "asm_object E track h a = Inr (object_of h track data (fa_priority a))"
proof -
  note d = asm_wfD [OF wf bufs]
  let ?n = "unat (h_original_size h)"
  have "map (\<lambda>j. take sz (bufs ! j)) [0..<k] = data"
    using data by (intro nth_equalityI) auto
  moreover have "k \<le> length bufs" "\<forall>b \<in> set bufs. sz \<le> length b"
    using d sz fits by (auto simp: hdr_sizes_def hdr_fits_def)
  ultimately have "copy_chunks bufs sz 0 k ?n (take ?n (e_uninit E ?n @ replicate ?n 0)) =
      Inr (take ?n (concat data))"
    using copy_chunks_data [of 0 k bufs sz ?n "take ?n (e_uninit E ?n @ replicate ?n 0)"] size by simp
  with bufs sz show ?thesis by (simp add: asm_object_def object_of_def Let_def hdr_sizes_def)
qed

section \<open>One symbol\<close>

text \<open>
  An application that only listens: the callback records the event in the world, and neither the
  clock nor the QUIC library touches the record.
\<close>

definition observed ::
  "('rs, 'rq, 'sc, 'w) env \<Rightarrow> ('w \<Rightarrow> (cptr \<times> transport_event) list) \<Rightarrow> bool" where
  "observed E log \<longleftrightarrow>
     (\<forall>ev c t. \<exists>w. e_callback E ev c t = t\<lparr>t_world := w\<rparr> \<and> log w = log (t_world t) @ [(c, ev)]) \<and>
     (\<forall>w. log (snd (e_time_ns E w)) = log w) \<and>
     (\<forall>s bs w. log (e_egress_write E s bs w) = log w) \<and>
     (\<forall>q p bs w. log (e_send_datagram_path E q p bs w) = log w)"

lemma put_slot_simps [simp]:
  "c_assemblers (put_slot i a k) = (c_assemblers k)[i := a]"
  "c_subscriptions (put_slot i a k) = c_subscriptions k" "c_stream (put_slot i a k) = c_stream k"
  "put_slot i b (put_slot i a k) = put_slot i b k"
  by (simp_all add: put_slot_def)

lemma send_nack_ok:
  assumes "observed E log" "t_heap t c = Some kn"
  obtains w where "send_nack E c alias g ob missing t = Inr (t\<lparr>t_world := w\<rparr>)" "log w = log (t_world t)"
proof (cases "\<exists>s. c_stream kn = Some s \<and> e_sendstate_is_open E s (t_world t) \<and>
    (1024 < 12 + length missing * 2 \<longrightarrow> e_alloc E (12 + length missing * 2))")
  case True
  then obtain s where "send_nack E c alias g ob missing t =
      Inr (t\<lparr>t_world := e_egress_write E s (nack_bytes alias g ob missing) (t_world t)\<rparr>)"
    using assms by (auto simp: send_nack_def upd_world_def)
  with assms show ?thesis using that by (auto simp: observed_def)
next
  case False
  then have "send_nack E c alias g ob missing t = Inr t"
    using assms by (auto simp: send_nack_def split: option.splits)
  then show ?thesis using that [of "t_world t"] by simp
qed

lemma asm_nack_ok:
  assumes obs: "observed E log" and kn: "t_heap t c = Some kn"
    and wf: "asm_wf a" "fa_buffers a = Some bufs"
  obtains b w where "asm_nack E c i track h a t = Inr (a\<lparr>fa_nack_sent := b\<rparr>, t\<lparr>t_world := w\<rparr>)"
    "log w = log (t_world t)"
proof -
  note res = that
  have quiet: ?thesis if "asm_nack E c i track h a t = Inr (a, t)"
    using that res [of "fa_nack_sent a" "t_world t"] by simp
  obtain missing where miss: "asm_missing a = Inr missing"
    using asm_wfD(3,4) [OF wf] by (simp add: asm_missing_def)
  show ?thesis
  proof (cases "asm_wants_nack track a \<and> missing \<noteq> []")
    case True
    obtain w where "send_nack E c (h_track_id h) (h_group_id h) (h_object_id h) missing t =
        Inr (t\<lparr>t_world := w\<rparr>)" "log w = log (t_world t)"
      by (rule send_nack_ok [OF obs kn], rule that)
    with True miss show ?thesis
      by (intro that [of True w]) (simp_all add: asm_nack_def)
  next
    case False
    with miss show ?thesis by (intro quiet) (auto simp: asm_nack_def)
  qed
qed

lemma asm_holds_store:
  assumes holds: "asm_holds h cw a" and sz: "hdr_sizes h k m sz"
    and idx: "h_symbol_index h < h_total_symbols h" and body: "sz \<le> length body"
    and sym: "take sz body = cw ! unat (h_symbol_index h)"
  obtains a' where "asm_store h body a = Inr a'" "asm_holds h cw a'"
    "fa_received_mask a' = (fa_received_mask a)[unat (h_symbol_index h) := True]"
    "fa_decoded a' = fa_decoded a" "fa_priority a' = fa_priority a" "asm_matches h a' = asm_matches h a"
proof -
  obtain bufs where bufs: "fa_buffers a = Some bufs" and wf: "asm_wf a" and fits: "hdr_fits h a"
    and got: "\<And>i. i < k + m \<Longrightarrow> fa_received_mask a ! i \<Longrightarrow> take sz (bufs ! i) = cw ! i"
    and len: "k + m \<le> length bufs" "length (fa_received_mask a) = length bufs"
    by (rule asm_holdsE [OF holds sz], rule that)
  let ?i = "unat (h_symbol_index h)"
  have hs: "unat (h_total_symbols h) = k + m" "unat (h_symbol_size h) = sz"
    using sz by (simp_all add: hdr_sizes_def)
  have i: "?i < k + m" using idx hs by (simp add: word_less_nat_alt)
  obtain a' bufs' where st: "asm_store h body a = Inr a'" and wf': "asm_wf a'"
    and bufs': "fa_buffers a' = Some bufs'" and rm: "fa_received_mask a' = (fa_received_mask a)[?i := True]"
    and a': "a' = a\<lparr>fa_buffers := Some bufs', fa_received_mask := fa_received_mask a',
            fa_received_count := fa_received_count a'\<rparr>"
    and blk: "\<And>j. j < length bufs \<Longrightarrow> take sz (bufs' ! j) =
      (if j = ?i \<and> \<not> fa_received_mask a ! j then take sz body else take sz (bufs ! j))"
    using asm_store_ok [OF wf bufs fits idx, of body] body hs by metis
  have keep: "fa_decoded a' = fa_decoded a" "fa_priority a' = fa_priority a"
    "fa_total_symbols a' = fa_total_symbols a" "fa_symbol_size a' = fa_symbol_size a"
    "fa_data_symbols a' = fa_data_symbols a" "asm_matches h a' = asm_matches h a"
    by (subst a', simp add: asm_matches_def)+
  have ft: "unat (fa_total_symbols a) = k + m" "unat (fa_symbol_size a) = sz"
    using fits hs by (simp_all add: hdr_fits_def)
  have "take sz (bufs' ! j) = cw ! j" if "j < k + m" "fa_received_mask a' ! j" for j
    using that blk [of j] got [of j] sym rm len i by (cases "j = ?i") auto
  moreover have "\<not> fa_received_mask a' ! j" if "j < length (fa_received_mask a')" "k + m \<le> j" for j
    using that rm i holds ft len by (auto simp: asm_holds_def nth_list_update)
  ultimately have "asm_holds h cw a'"
    using wf' fits keep bufs' ft by (auto simp: asm_holds_def hdr_fits_def)
  then show ?thesis using that st rm keep by blast
qed

lemma recv_symbol_known:
  assumes kn: "t_heap t c = Some kn" and i: "find_index (asm_matches h) (c_assemblers kn) = Some i"
  shows "recv_symbol E c track h body t =
    (let a = c_assemblers kn ! i in
     if fa_decoded a then Inr t
     else if h_total_symbols h \<le> h_symbol_index h then Inr t
     else bindf (asm_store h body a) (\<lambda>a1.
            bindf (asm_nack E c i track h a1 t) (\<lambda>(a2, t2). asm_finish E c i track h a2 t2)))"
  using assms by (simp add: recv_symbol_def asm_slot_for_def)

text \<open>
  The effect of one symbol on the slot of its object: either it is still incomplete, or this symbol
  completes it and the object goes to the application.
\<close>

lemma asm_finish_ok:
  assumes obs: "observed E log" and mds: "rs_mds (e_fec E)" and cw: "rs_codeword (e_fec E) k m sz data cw"
    and km: "k + m \<le> 255" and alloc: "\<forall>n. e_alloc E n" and inv: "fec_cache_inv (e_fec E) (t_fec_cache t)"
    and kn: "t_heap t c = Some kn" and il: "i < length (c_assemblers kn)"
    and sz: "hdr_sizes h k m sz" and holds: "asm_holds h cw a" and und: "\<not> fa_decoded a"
    and size: "unat (h_original_size h) \<le> k * sz"
  obtains t' a' where "asm_finish E c i track h a t = Inr t'" "t_is_server t' = t_is_server t"
    "t_heap t' = (t_heap t)(c \<mapsto> put_slot i a' kn)" "fec_cache_inv (e_fec E) (t_fec_cache t')"
    "asm_wf a'" "fa_received_mask a' = fa_received_mask a" "asm_matches h a' = asm_matches h a"
    "fa_priority a' = fa_priority a" "fa_decoded a' \<longleftrightarrow> k \<le> count_true (fa_received_mask a)"
    "fa_decoded a' \<or> asm_holds h cw a'"
    "log (t_world t') = log (t_world t) @
       (if k \<le> count_true (fa_received_mask a)
        then [(c, ObjectReceived (ob_track (object_of h track data (fa_priority a)))
                    (object_of h track data (fa_priority a)))] else [])"
proof (cases "k \<le> count_true (fa_received_mask a)")
  case False
  have "unat (fa_received_count a) = count_true (fa_received_mask a)" "asm_wf a"
    by (rule asm_holdsE [OF holds sz], assumption)+
  with False sz kn have "asm_finish E c i track h a t = Inr (put_conn c (put_slot i a kn) t)"
    by (simp add: asm_finish_def hdr_sizes_def)
  with False holds und inv \<open>asm_wf a\<close> show ?thesis
    by (intro that [of "put_conn c (put_slot i a kn) t" a]) simp_all
next
  case True
  obtain bufs where bufs: "fa_buffers a = Some bufs" and fits: "hdr_fits h a"
    and cnt: "unat (fa_received_count a) = count_true (fa_received_mask a)"
    by (rule asm_holdsE [OF holds sz], rule that)
  obtain bufs' w cache where dec: "asm_decode E track h a t =
      Inr (True, a\<lparr>fa_buffers := Some bufs'\<rparr>, t\<lparr>t_world := w, t_fec_cache := cache\<rparr>)"
    and wf': "asm_wf (a\<lparr>fa_buffers := Some bufs'\<rparr>)"
    and blk: "\<And>i. i < k \<Longrightarrow> take sz (bufs' ! i) = data ! i"
    and w: "w = t_world t \<or> w = snd (e_time_ns E (t_world t))" and inv': "fec_cache_inv (e_fec E) cache"
    by (rule asm_decode_ok [OF mds cw km alloc inv sz holds True], rule that)
  let ?a = "a\<lparr>fa_buffers := Some bufs'\<rparr>"
  let ?ob = "object_of h track data (fa_priority a)"
  let ?t2 = "put_conn c (put_slot i ?a kn) (t\<lparr>t_world := w, t_fec_cache := cache\<rparr>)"
  have "length data = k" using cw by (simp add: rs_codeword_def blocks_of_def)
  then have ob: "asm_object E track h ?a = Inr ?ob"
    using asm_object_ok [OF _ wf' _ sz blk] fits size by (simp add: hdr_fits_def)
  obtain w' where cb: "e_callback E (ObjectReceived (ob_track ?ob) ?ob) c ?t2 = ?t2\<lparr>t_world := w'\<rparr>"
    and lw: "log w' = log (t_world ?t2) @ [(c, ObjectReceived (ob_track ?ob) ?ob)]"
    using obs unfolding observed_def by blast
  have "log w = log (t_world t)" using w obs by (auto simp: observed_def)
  moreover have "asm_finish E c i track h a t =
      Inr (put_conn c (put_slot i (?a\<lparr>fa_decoded := True\<rparr>) kn) (?t2\<lparr>t_world := w'\<rparr>))"
    using True cnt sz kn dec ob cb il by (simp add: asm_finish_def hdr_sizes_def Let_def)
  moreover have "asm_wf (?a\<lparr>fa_decoded := True\<rparr>)" using wf' by (simp add: asm_wf_def)
  ultimately show ?thesis
    using True lw inv'
    by (intro that [of "put_conn c (put_slot i (?a\<lparr>fa_decoded := True\<rparr>) kn) (?t2\<lparr>t_world := w'\<rparr>)"
          "?a\<lparr>fa_decoded := True\<rparr>"]) (simp_all add: asm_matches_def)
qed

lemma recv_symbol_step:
  assumes obs: "observed E log" and mds: "rs_mds (e_fec E)" and cw: "rs_codeword (e_fec E) k m sz data cw"
    and km: "k + m \<le> 255" and alloc: "\<forall>n. e_alloc E n" and inv: "fec_cache_inv (e_fec E) (t_fec_cache t)"
    and kn: "t_heap t c = Some kn" and i: "find_index (asm_matches h) (c_assemblers kn) = Some i"
    and sz: "hdr_sizes h k m sz" and holds: "asm_holds h cw (c_assemblers kn ! i)"
    and und: "\<not> fa_decoded (c_assemblers kn ! i)" and size: "unat (h_original_size h) \<le> k * sz"
    and idx: "h_symbol_index h < h_total_symbols h" and body: "sz \<le> length body"
    and sym: "take sz body = cw ! unat (h_symbol_index h)"
  obtains t' a' where "recv_symbol E c track h body t = Inr t'" "t_is_server t' = t_is_server t"
    "t_heap t' = (t_heap t)(c \<mapsto> put_slot i a' kn)" "fec_cache_inv (e_fec E) (t_fec_cache t')"
    "fa_received_mask a' = (fa_received_mask (c_assemblers kn ! i))[unat (h_symbol_index h) := True]"
    "find_index (asm_matches h) ((c_assemblers kn)[i := a']) = Some i"
    "fa_priority a' = fa_priority (c_assemblers kn ! i)" "fa_decoded a' \<longleftrightarrow> k \<le> count_true (fa_received_mask a')"
    "fa_decoded a' \<or> asm_holds h cw a'"
    "log (t_world t') = log (t_world t) @
       (if k \<le> count_true (fa_received_mask a')
        then [(c, ObjectReceived (ob_track (object_of h track data (fa_priority a'))) (object_of h track data (fa_priority a')))]
        else [])"
proof -
  let ?a = "c_assemblers kn ! i"
  have il: "i < length (c_assemblers kn)" and mi: "asm_matches h ?a" using find_index_SomeD [OF i] by auto
  obtain a1 where st: "asm_store h body ?a = Inr a1" and h1: "asm_holds h cw a1"
    and rm: "fa_received_mask a1 = (fa_received_mask ?a)[unat (h_symbol_index h) := True]"
    and k1: "fa_decoded a1 = fa_decoded ?a" "fa_priority a1 = fa_priority ?a" "asm_matches h a1 = asm_matches h ?a"
    by (rule asm_holds_store [OF holds sz idx body sym], rule that)
  obtain bufs where wf1: "fa_buffers a1 = Some bufs" "asm_wf a1"
    by (rule asm_holdsE [OF h1 sz], rule that)
  obtain b w where nk: "asm_nack E c i track h a1 t = Inr (a1\<lparr>fa_nack_sent := b\<rparr>, t\<lparr>t_world := w\<rparr>)"
    and lw: "log w = log (t_world t)"
    by (rule asm_nack_ok [OF obs kn wf1(2,1)], rule that)
  let ?a2 = "a1\<lparr>fa_nack_sent := b\<rparr>" and ?t2 = "t\<lparr>t_world := w\<rparr>"
  have h2: "asm_holds h cw ?a2" using h1 by (auto simp: asm_holds_def asm_wf_def hdr_fits_def)
  have u2: "\<not> fa_decoded ?a2" using und k1 by simp
  obtain t' a' where fin: "asm_finish E c i track h ?a2 ?t2 = Inr t'"
    and srv: "t_is_server t' = t_is_server ?t2"
    and fin2: "t_heap t' = (t_heap ?t2)(c \<mapsto> put_slot i a' kn)" "fec_cache_inv (e_fec E) (t_fec_cache t')"
    "asm_wf a'" "fa_received_mask a' = fa_received_mask ?a2" "asm_matches h a' = asm_matches h ?a2"
    "fa_priority a' = fa_priority ?a2" "fa_decoded a' \<longleftrightarrow> k \<le> count_true (fa_received_mask ?a2)"
    "fa_decoded a' \<or> asm_holds h cw a'"
    "log (t_world t') = log (t_world ?t2) @
       (if k \<le> count_true (fa_received_mask ?a2)
        then [(c, ObjectReceived (ob_track (object_of h track data (fa_priority ?a2)))
                    (object_of h track data (fa_priority ?a2)))] else [])"
    by (rule asm_finish_ok [OF obs mds cw km alloc _ _ il sz h2 u2 size, of ?t2 c], use inv kn in simp_all)
  have "asm_matches h a' = asm_matches h ?a" using fin2(5) k1(3) by (simp add: asm_matches_def)
  then have fi: "find_index (asm_matches h) ((c_assemblers kn)[i := a']) = Some i"
    using i by (subst find_index_update) auto
  have run: "recv_symbol E c track h body t = Inr t'"
    using recv_symbol_known [OF kn i, of E track body] und idx st nk fin by (simp add: Let_def not_le)
  have pr: "fa_priority a' = fa_priority ?a" using fin2(6) k1(2) by simp
  show ?thesis
    using fin2 srv rm lw pr by (intro that [OF run _ _ _ _ fi]) simp_all
qed

section \<open>A sequence of datagrams\<close>

text \<open>
  The headers of the symbols of one object differ in the symbol index, the path and the send time.
\<close>

definition same_object :: "fec_packet_header \<Rightarrow> fec_packet_header \<Rightarrow> bool" where
  "same_object h0 h \<longleftrightarrow>
     h = h0\<lparr>h_symbol_index := h_symbol_index h, h_path_id := h_path_id h, h_send_time_ns := h_send_time_ns h\<rparr>"

lemma same_objectE:
  assumes "same_object h0 h"
  obtains i p s where "h = h0\<lparr>h_symbol_index := i, h_path_id := p, h_send_time_ns := s\<rparr>"
  using assms by (auto simp: same_object_def)

lemma same_object_view:
  assumes "same_object h0 h"
  shows "asm_matches h = asm_matches h0" "asm_holds h = asm_holds h0" "hdr_sizes h = hdr_sizes h0"
    "object_of h = object_of h0" "h_original_size h = h_original_size h0"
    "h_total_symbols h = h_total_symbols h0" "h_track_id h = h_track_id h0"
    "h_symbol_size h = h_symbol_size h0" "h_data_symbols h = h_data_symbols h0"
  using assms
  by (auto elim!: same_objectE intro!: ext
      simp: asm_matches_def asm_holds_def hdr_fits_def hdr_sizes_def object_of_def)

text \<open>The datagrams that carry symbols of the code word \<open>cw\<close> under the header \<open>h0\<close>.\<close>

definition symbol_dgram :: "fec_packet_header \<Rightarrow> nat \<Rightarrow> bytes list \<Rightarrow> fec_packet_header \<times> bytes \<Rightarrow> bool" where
  "symbol_dgram h0 sz cw p \<longleftrightarrow>
     same_object h0 (fst p) \<and> h_symbol_index (fst p) < h_total_symbols h0 \<and>
     sz \<le> length (snd p) \<and> take sz (snd p) = cw ! unat (h_symbol_index (fst p))"

fun recv_datagrams ::
  "('rs, 'rq, 'sc, 'w) env \<Rightarrow> qptr \<Rightarrow> bytes list \<Rightarrow> ('rs, 'w) transport \<Rightarrow> fault + ('rs, 'w) transport" where
  "recv_datagrams E q [] t = Inr t"
| "recv_datagrams E q (p # ps) t = bindf (on_receive_datagram_frame E q p t) (recv_datagrams E q ps)"

definition dgram_bytes :: "fec_packet_header \<times> bytes \<Rightarrow> bytes" where
  "dgram_bytes p = fec_header_bytes (fst p) @ snd p"

text \<open>The connection is ready to take data: bound to its QUIC connection, and authenticated on a server.\<close>

definition conn_ready ::
  "('rs, 'rq, 'sc, 'w) env \<Rightarrow> qptr \<Rightarrow> cptr \<Rightarrow> conn \<Rightarrow> ('rs, 'w) transport \<Rightarrow> bool" where
  "conn_ready E q c kn t \<longleftrightarrow>
     (\<forall>w. e_conn_data E q w = Some c) \<and> t_heap t c = Some kn \<and> (t_is_server t \<longrightarrow> c_authenticated kn)"

lemma telemetry_reply_world:
  assumes "observed E log"
  obtains w where "telemetry_reply E q h t = t\<lparr>t_world := w\<rparr>" "log w = log (t_world t)"
proof -
  let ?w = "e_send_datagram_path E q (unat (h_path_id h))
    (telemetry_bytes \<lparr>td_track_id = 6, td_path_id = h_path_id h, td_send_time_ns = h_send_time_ns h,
       td_recv_time_ns = fst (e_time_ns E (t_world t))\<rparr>) (snd (e_time_ns E (t_world t)))"
  have "telemetry_reply E q h t = t\<lparr>t_world := ?w\<rparr>"
    by (simp add: telemetry_reply_def case_prod_beta Let_def)
  moreover have "log ?w = log (t_world t)" using assms by (simp add: observed_def)
  ultimately show ?thesis by (rule that)
qed

lemma datagram_is_symbol:
  assumes ready: "conn_ready E q c kn t" and dg: "symbol_dgram h0 sz cw p"
    and sz: "hdr_sizes h0 k m sz" "k + m \<le> 255" "sz \<le> 4096" and nt: "h_track_id h0 \<noteq> 6"
    and track: "find_subscription_by_alias (c_subscriptions kn) (h_track_id h0) (e_uninit_track E) = Some track"
  shows "on_receive_datagram_frame E q (dgram_bytes p) t =
    recv_symbol E c track (fst p) (snd p) (telemetry_reply E q (fst p) t)"
proof -
  obtain h body where p: "p = (h, body)" by (cases p)
  have so: "same_object h0 h" using dg p by (simp add: symbol_dgram_def)
  note v = same_object_view [OF so]
  have rd: "fec_header_read (fec_header_bytes h @ body) = Some h" by (rule fec_header_read_bytes)
  have first: "(fec_header_bytes h @ body) ! 0 = h_track_id h" and ne: "fec_header_bytes h @ body \<noteq> []"
    by (simp_all add: fec_header_bytes_def)
  have len: "length (fec_header_bytes h) = FEC_HEADER_SIZE" by (rule fec_hdr.enc_length)
  have "\<not> 16384 < h_total_symbols h" "\<not> 4096 < h_symbol_size h"
    using sz v by (auto simp: hdr_sizes_def word_less_nat_alt)
  moreover have "\<not> length (fec_header_bytes h @ body) < FEC_HEADER_SIZE + unat (h_symbol_size h)"
    using dg p sz v len by (auto simp: symbol_dgram_def hdr_sizes_def)
  ultimately show ?thesis
    using ready nt track v first ne rd len p
    by (auto simp: on_receive_datagram_frame_def conn_ready_def dgram_bytes_def track_consts Let_def
        simp del: append_is_Nil_conv)
qed

text \<open>The standing conditions of a transfer, and the state of a connection in the middle of it.\<close>

definition transfer ::
  "('rs, 'rq, 'sc, 'w) env \<Rightarrow> ('w \<Rightarrow> (cptr \<times> transport_event) list) \<Rightarrow> nat \<Rightarrow> nat \<Rightarrow> nat \<Rightarrow>
   bytes list \<Rightarrow> bytes list \<Rightarrow> fec_packet_header \<Rightarrow> bool" where
  "transfer E log k m sz data cw h0 \<longleftrightarrow>
     observed E log \<and> rs_mds (e_fec E) \<and> rs_codeword (e_fec E) k m sz data cw \<and>
     (\<forall>n. e_alloc E n) \<and> hdr_sizes h0 k m sz \<and> k + m \<le> 255 \<and> sz \<le> 4096 \<and>
     unat (h_original_size h0) \<le> k * sz \<and> h_track_id h0 \<noteq> 6"

definition mid_transfer ::
  "('rs, 'rq, 'sc, 'w) env \<Rightarrow> qptr \<Rightarrow> cptr \<Rightarrow> moq_track_id \<Rightarrow> fec_packet_header \<Rightarrow> nat \<Rightarrow> conn \<Rightarrow>
   ('rs, 'w) transport \<Rightarrow> bool" where
  "mid_transfer E q c track h0 i kn t \<longleftrightarrow>
     conn_ready E q c kn t \<and>
     find_subscription_by_alias (c_subscriptions kn) (h_track_id h0) (e_uninit_track E) = Some track \<and>
     find_index (asm_matches h0) (c_assemblers kn) = Some i \<and>
     fec_cache_inv (e_fec E) (t_fec_cache t)"

abbreviation dgram_indices :: "(fec_packet_header \<times> bytes) list \<Rightarrow> nat set" where
  "dgram_indices ps \<equiv> (\<lambda>p. unat (h_symbol_index (fst p))) ` set ps"

lemma mid_transfer_world [simp]:
  "mid_transfer E q c track h0 i kn (t\<lparr>t_world := w\<rparr>) = mid_transfer E q c track h0 i kn t"
  by (simp add: mid_transfer_def conn_ready_def)

lemma datagram_mid_transfer:
  assumes tr: "transfer E log k m sz data cw h0" and mid: "mid_transfer E q c track h0 i kn t"
    and dg: "symbol_dgram h0 sz cw p"
  obtains w where "on_receive_datagram_frame E q (dgram_bytes p) t =
      recv_symbol E c track (fst p) (snd p) (t\<lparr>t_world := w\<rparr>)" "log w = log (t_world t)"
proof -
  obtain w where w: "telemetry_reply E q (fst p) t = t\<lparr>t_world := w\<rparr>" "log w = log (t_world t)"
    using telemetry_reply_world [of E log] tr unfolding transfer_def by metis
  moreover have "on_receive_datagram_frame E q (dgram_bytes p) t =
      recv_symbol E c track (fst p) (snd p) (telemetry_reply E q (fst p) t)"
    using tr mid unfolding transfer_def mid_transfer_def by (intro datagram_is_symbol [OF _ dg]) auto
  ultimately show ?thesis using that by simp
qed

lemma recv_datagrams_decoded:
  assumes tr: "transfer E log k m sz data cw h0"
  shows "mid_transfer E q c track h0 i kn t \<Longrightarrow> fa_decoded (c_assemblers kn ! i) \<Longrightarrow>
    \<forall>p \<in> set ps. symbol_dgram h0 sz cw p \<Longrightarrow>
    \<exists>t'. recv_datagrams E q (map dgram_bytes ps) t = Inr t' \<and> log (t_world t') = log (t_world t)"
proof (induction ps arbitrary: t)
  case (Cons p ps)
  have dg: "symbol_dgram h0 sz cw p" using Cons.prems by simp
  obtain w where w: "on_receive_datagram_frame E q (dgram_bytes p) t =
      recv_symbol E c track (fst p) (snd p) (t\<lparr>t_world := w\<rparr>)" "log w = log (t_world t)"
    by (rule datagram_mid_transfer [OF tr Cons.prems(1) dg], rule that)
  have "asm_matches (fst p) = asm_matches h0"
    using same_object_view [of h0 "fst p"] dg by (simp add: symbol_dgram_def)
  then have "recv_symbol E c track (fst p) (snd p) (t\<lparr>t_world := w\<rparr>) = Inr (t\<lparr>t_world := w\<rparr>)"
    using Cons.prems recv_symbol_known [of "t\<lparr>t_world := w\<rparr>" c kn "fst p" i E track "snd p"]
    by (simp add: mid_transfer_def conn_ready_def)
  with w Cons.IH [of "t\<lparr>t_world := w\<rparr>"] Cons.prems show ?case by simp
qed simp

lemma count_true_card: "count_true xs = card {i. i < length xs \<and> xs ! i}"
  by (simp add: count_true_def length_filter_conv_card)

lemma count_true_update:
  "i < length xs \<Longrightarrow> {j. j < length xs \<and> xs[i := True] ! j} = insert i {j. j < length xs \<and> xs ! j}"
  by (auto simp: nth_list_update)

definition got_indices :: "frame_assembler \<Rightarrow> nat set" where
  "got_indices a = {j. j < length (fa_received_mask a) \<and> fa_received_mask a ! j}"

lemma got_indices_finite [simp]: "finite (got_indices a)"
  by (simp add: got_indices_def)

text \<open>What the application gets once the symbols with the indices \<open>G\<close> are there.\<close>

definition deliveries :: "nat \<Rightarrow> cptr \<Rightarrow> moq_object \<Rightarrow> nat set \<Rightarrow> (cptr \<times> transport_event) list" where
  "deliveries k c ob G = (if k \<le> card G then [(c, ObjectReceived (ob_track ob) ob)] else [])"

definition slot_open :: "fec_packet_header \<Rightarrow> nat \<Rightarrow> bytes list \<Rightarrow> u8 \<Rightarrow> frame_assembler \<Rightarrow> bool" where
  "slot_open h0 k cw prio a \<longleftrightarrow>
     asm_holds h0 cw a \<and> \<not> fa_decoded a \<and> card (got_indices a) < k \<and> fa_priority a = prio"

lemma recv_symbol_slot:
  assumes tr: "transfer E log k m sz data cw h0" and mid: "mid_transfer E q c track h0 i kn t"
    and op0: "slot_open h0 k cw prio (c_assemblers kn ! i)" and dg: "symbol_dgram h0 sz cw p"
  obtains t' a' where "recv_symbol E c track (fst p) (snd p) t = Inr t'"
    "mid_transfer E q c track h0 i (put_slot i a' kn) t'" "c_assemblers (put_slot i a' kn) ! i = a'"
    "got_indices a' = insert (unat (h_symbol_index (fst p))) (got_indices (c_assemblers kn ! i))"
    "if k \<le> card (got_indices a') then fa_decoded a' else slot_open h0 k cw prio a'"
    "log (t_world t') = log (t_world t) @ deliveries k c (object_of h0 track data prio) (got_indices a')"
proof -
  let ?a = "c_assemblers kn ! i" and ?j = "unat (h_symbol_index (fst p))"
  have so: "same_object h0 (fst p)" using dg by (simp add: symbol_dgram_def)
  note v = same_object_view [OF so]
  have T: "observed E log" "rs_mds (e_fec E)" "rs_codeword (e_fec E) k m sz data cw" "k + m \<le> 255"
    "\<forall>n. e_alloc E n" "hdr_sizes h0 k m sz" "unat (h_original_size h0) \<le> k * sz"
    using tr by (simp_all add: transfer_def)
  have M: "fec_cache_inv (e_fec E) (t_fec_cache t)" "t_heap t c = Some kn"
    "find_index (asm_matches h0) (c_assemblers kn) = Some i"
    using mid by (simp_all add: mid_transfer_def conn_ready_def)
  have op: "asm_holds h0 cw ?a" "\<not> fa_decoded ?a" "fa_priority ?a = prio"
    using op0 by (simp_all add: slot_open_def)
  obtain t' a' where run: "recv_symbol E c track (fst p) (snd p) t = Inr t'"
    and srv: "t_is_server t' = t_is_server t"
    and step: "t_heap t' = (t_heap t)(c \<mapsto> put_slot i a' kn)" "fec_cache_inv (e_fec E) (t_fec_cache t')"
    "fa_received_mask a' = (fa_received_mask ?a)[?j := True]"
    "find_index (asm_matches (fst p)) ((c_assemblers kn)[i := a']) = Some i"
    "fa_priority a' = fa_priority ?a" "fa_decoded a' \<longleftrightarrow> k \<le> count_true (fa_received_mask a')"
    "fa_decoded a' \<or> asm_holds (fst p) cw a'"
    "log (t_world t') = log (t_world t) @
       (if k \<le> count_true (fa_received_mask a')
        then [(c, ObjectReceived (ob_track (object_of (fst p) track data (fa_priority a')))
                (object_of (fst p) track data (fa_priority a')))] else [])"
    by (rule recv_symbol_step [OF T(1-5) M(1,2), of "fst p" i "snd p"])
      (use v M(3) T(6,7) op dg in \<open>auto simp: symbol_dgram_def\<close>)
  obtain bufs where "fa_buffers ?a = Some bufs" "k + m \<le> length bufs"
    "length (fa_received_mask ?a) = length bufs"
    by (rule asm_holdsE [OF op(1) T(6)], rule that)
  then have "?j < length (fa_received_mask ?a)"
    using dg T(6) by (auto simp: symbol_dgram_def hdr_sizes_def word_less_nat_alt)
  then have got: "got_indices a' = insert ?j (got_indices ?a)"
    using step(3) count_true_update [of ?j "fa_received_mask ?a"] by (simp add: got_indices_def)
  have cnt: "count_true (fa_received_mask a') = card (got_indices a')"
    by (simp add: count_true_card got_indices_def)
  have slot: "c_assemblers (put_slot i a' kn) ! i = a'" using find_index_SomeD [OF M(3)] by simp
  have mid': "mid_transfer E q c track h0 i (put_slot i a' kn) t'"
    using mid step(1,2,4) v srv by (simp add: mid_transfer_def conn_ready_def put_slot_def)
  have st: "if k \<le> card (got_indices a') then fa_decoded a' else slot_open h0 k cw prio a'"
    using step(5-7) cnt v op by (auto simp: slot_open_def)
  show ?thesis
    using step(5,8) cnt v op by (intro that [OF run mid' slot got st]) (simp add: deliveries_def)
qed

lemma recv_symbol_then:
  assumes tr: "transfer E log k m sz data cw h0" and mid: "mid_transfer E q c track h0 i kn t"
    and op0: "slot_open h0 k cw prio (c_assemblers kn ! i)" and dg: "symbol_dgram h0 sz cw p"
    and rest: "\<forall>p \<in> set ps. symbol_dgram h0 sz cw p"
    and run: "\<And>t kn. mid_transfer E q c track h0 i kn t \<Longrightarrow> slot_open h0 k cw prio (c_assemblers kn ! i) \<Longrightarrow>
      \<exists>t'. recv_datagrams E q (map dgram_bytes ps) t = Inr t' \<and>
        log (t_world t') = log (t_world t) @ deliveries k c (object_of h0 track data prio)
          (got_indices (c_assemblers kn ! i) \<union> dgram_indices ps)"
  shows "\<exists>t'. bindf (recv_symbol E c track (fst p) (snd p) t) (recv_datagrams E q (map dgram_bytes ps)) = Inr t' \<and>
      log (t_world t') = log (t_world t) @ deliveries k c (object_of h0 track data prio)
        (got_indices (c_assemblers kn ! i) \<union> dgram_indices (p # ps))"
proof -
  obtain t' a' where st: "recv_symbol E c track (fst p) (snd p) t = Inr t'"
    and mid': "mid_transfer E q c track h0 i (put_slot i a' kn) t'"
    and slot: "c_assemblers (put_slot i a' kn) ! i = a'"
    and got: "got_indices a' = insert (unat (h_symbol_index (fst p))) (got_indices (c_assemblers kn ! i))"
    and nxt: "if k \<le> card (got_indices a') then fa_decoded a' else slot_open h0 k cw prio a'"
    and lg: "log (t_world t') = log (t_world t) @ deliveries k c (object_of h0 track data prio) (got_indices a')"
    by (rule recv_symbol_slot [OF tr mid op0 dg], rule that)
  have all: "got_indices (c_assemblers kn ! i) \<union> dgram_indices (p # ps) = got_indices a' \<union> dgram_indices ps"
    using got by auto
  show ?thesis
  proof (cases "k \<le> card (got_indices a')")
    case True
    moreover have "k \<le> card (got_indices a' \<union> dgram_indices ps)"
      using True card_mono [of "got_indices a' \<union> dgram_indices ps" "got_indices a'"] by simp
    moreover obtain t'' where "recv_datagrams E q (map dgram_bytes ps) t' = Inr t''"
      "log (t_world t'') = log (t_world t')"
      using recv_datagrams_decoded [OF tr mid' _ rest] slot nxt True by auto
    ultimately show ?thesis unfolding all using st lg by (simp add: deliveries_def)
  next
    case False
    with run [OF mid'] slot nxt obtain t'' where "recv_datagrams E q (map dgram_bytes ps) t' = Inr t''"
      "log (t_world t'') = log (t_world t') @ deliveries k c (object_of h0 track data prio)
          (got_indices a' \<union> dgram_indices ps)" by auto
    then show ?thesis unfolding all using st lg False by (simp add: deliveries_def)
  qed
qed

lemma recv_datagrams_run:
  assumes tr: "transfer E log k m sz data cw h0"
  shows "mid_transfer E q c track h0 i kn t \<Longrightarrow> slot_open h0 k cw prio (c_assemblers kn ! i) \<Longrightarrow>
    \<forall>p \<in> set ps. symbol_dgram h0 sz cw p \<Longrightarrow>
    \<exists>t'. recv_datagrams E q (map dgram_bytes ps) t = Inr t' \<and>
      log (t_world t') = log (t_world t) @ deliveries k c (object_of h0 track data prio)
        (got_indices (c_assemblers kn ! i) \<union> dgram_indices ps)"
proof (induction ps arbitrary: t kn)
  case Nil
  then show ?case by (simp add: slot_open_def deliveries_def)
next
  case (Cons p ps)
  have dg: "symbol_dgram h0 sz cw p" "\<forall>p \<in> set ps. symbol_dgram h0 sz cw p" using Cons.prems by auto
  obtain w where w: "on_receive_datagram_frame E q (dgram_bytes p) t =
      recv_symbol E c track (fst p) (snd p) (t\<lparr>t_world := w\<rparr>)" "log w = log (t_world t)"
    by (rule datagram_mid_transfer [OF tr Cons.prems(1) dg(1)], rule that)
  have "mid_transfer E q c track h0 i kn (t\<lparr>t_world := w\<rparr>)" using Cons.prems(1) by simp
  from recv_symbol_then [OF tr this Cons.prems(2) dg Cons.IH [OF _ _ dg(2)]] w
  show ?case by simp
qed

section \<open>A new object\<close>

definition conn_asm_inv :: "conn \<Rightarrow> bool" where
  "conn_asm_inv kn \<longleftrightarrow>
     length (c_assemblers kn) = ASSEMBLER_CACHE_SIZE \<and> c_assembler_index kn < ASSEMBLER_CACHE_SIZE \<and>
     (\<forall>a \<in> set (c_assemblers kn). asm_wf a)"

text \<open>The loss the application is told of when the ring reuses the slot of an incomplete object.\<close>

definition evicted :: "('rs, 'rq, 'sc, 'w) env \<Rightarrow> cptr \<Rightarrow> conn \<Rightarrow> (cptr \<times> transport_event) list" where
  "evicted E c kn =
     (case evict_event E kn (c_assemblers kn ! c_assembler_index kn) of Some ev \<Rightarrow> [(c, ev)] | None \<Rightarrow> [])"

lemma asm_reset_holds:
  assumes "asm_wf a" shows "asm_holds h cw (asm_reset h a)" "got_indices (asm_reset h a) = {}"
proof -
  obtain bufs where b: "fa_buffers (asm_reset h a) = Some bufs" using asm_reset_fields(11) by blast
  note d = asm_wfD [OF asm_reset_wf [OF assms] b]
  have off: "\<not> fa_received_mask (asm_reset h a) ! i" if "i < length (fa_received_mask (asm_reset h a))" for i
    using that by (subst asm_reset_fields(12)) (simp add: asm_reset_def Let_def)
  then show "got_indices (asm_reset h a) = {}" by (auto simp: got_indices_def)
  show "asm_holds h cw (asm_reset h a)"
    using off b d(3,4) asm_reset_wf [OF assms] by (auto simp: asm_holds_def hdr_fits_def)
qed

lemma recv_symbol_fresh:
  assumes obs: "observed E log" and kn: "t_heap t c = Some kn" and inv: "conn_asm_inv kn"
    and new: "find_index (asm_matches h) (c_assemblers kn) = None" and pos: "0 < h_total_symbols h"
  obtains kn' w i where "recv_symbol E c track h body t =
      recv_symbol E c track h body (put_conn c kn' (t\<lparr>t_world := w\<rparr>))"
    "kn' = kn\<lparr>c_assemblers := c_assemblers kn', c_assembler_index := c_assembler_index kn'\<rparr>"
    "find_index (asm_matches h) (c_assemblers kn') = Some i"
    "\<exists>a. asm_wf a \<and> c_assemblers kn' ! i = asm_reset h a"
    "log w = log (t_world t) @ evicted E c kn"
proof -
  let ?i = "c_assembler_index kn"
  let ?k1 = "kn\<lparr>c_assembler_index := (?i + 1) mod ASSEMBLER_CACHE_SIZE\<rparr>"
  let ?t1 = "put_conn c ?k1 t"
  have i: "?i < length (c_assemblers kn)" using inv by (simp add: conn_asm_inv_def)
  obtain w where t2: "(case evict_event E kn (c_assemblers kn ! ?i) of
       Some ev \<Rightarrow> e_callback E ev c ?t1 | None \<Rightarrow> ?t1) = ?t1\<lparr>t_world := w\<rparr>"
    and lw: "log w = log (t_world t) @ evicted E c kn"
  proof (cases "evict_event E kn (c_assemblers kn ! ?i)")
    case None
    then show ?thesis using that [of "t_world t"] by (simp add: evicted_def put_conn_def)
  next
    case (Some ev)
    obtain w where "e_callback E ev c ?t1 = ?t1\<lparr>t_world := w\<rparr>" "log w = log (t_world ?t1) @ [(c, ev)]"
      using obs unfolding observed_def by blast
    with Some show ?thesis using that [of w] by (simp add: evicted_def)
  qed
  let ?a = "asm_reset h (c_assemblers kn ! ?i)"
  let ?kn' = "put_slot ?i ?a ?k1"
  let ?t' = "put_conn c ?kn' (t\<lparr>t_world := w\<rparr>)"
  have t': "put_conn c ?kn' (?t1\<lparr>t_world := w\<rparr>) = ?t'" by (simp add: put_conn_def)
  have slot: "asm_slot_for E c h t = Inr (?i, ?t')"
    using kn new i t2 t' by (simp add: asm_slot_for_def Let_def del: One_nat_def)
  have m: "asm_matches h ?a" using pos by (simp add: asm_matches_def)
  have none: "\<not> asm_matches h (c_assemblers kn ! j)" if "j < length (c_assemblers kn)" for j
    using new that by (simp add: scan_simps)
  have fi: "find_index (asm_matches h) (c_assemblers ?kn') = Some ?i"
    using i m none by (intro find_index_unique) (auto simp: nth_list_update split: if_splits)
  have "asm_slot_for E c h ?t' = Inr (?i, ?t')"
    using fi by (simp add: asm_slot_for_def)
  with slot have "recv_symbol E c track h body t = recv_symbol E c track h body ?t'"
    by (simp only: recv_symbol_def)
  moreover have "asm_wf (c_assemblers kn ! ?i)" using inv i by (simp add: conn_asm_inv_def)
  ultimately show ?thesis
    using i lw by (intro that [OF _ _ fi]) (auto simp: put_slot_def)
qed

lemma new_object_run:
  assumes tr: "transfer E log k m sz data cw h0" and k: "0 < k"
    and ready: "conn_ready E q c kn t" and inv: "conn_asm_inv kn"
    and cinv: "fec_cache_inv (e_fec E) (t_fec_cache t)"
    and track: "find_subscription_by_alias (c_subscriptions kn) (h_track_id h0) (e_uninit_track E) = Some track"
    and new: "\<forall>a \<in> set (c_assemblers kn). \<not> asm_matches h0 a"
    and dg: "symbol_dgram h0 sz cw p" and rest: "\<forall>p \<in> set ps. symbol_dgram h0 sz cw p"
  shows "\<exists>t'. recv_datagrams E q (map dgram_bytes (p # ps)) t = Inr t' \<and>
      log (t_world t') = log (t_world t) @ evicted E c kn @
        deliveries k c (object_of h0 track data (h_priority h0)) (dgram_indices (p # ps))"
proof -
  have T: "observed E log" "hdr_sizes h0 k m sz" "k + m \<le> 255" "sz \<le> 4096" "h_track_id h0 \<noteq> 6"
    using tr by (simp_all add: transfer_def)
  have so: "same_object h0 (fst p)" using dg by (simp add: symbol_dgram_def)
  note v = same_object_view [OF so]
  obtain w where w: "telemetry_reply E q (fst p) t = t\<lparr>t_world := w\<rparr>" "log w = log (t_world t)"
    by (rule telemetry_reply_world [OF T(1)], rule that)
  have on: "on_receive_datagram_frame E q (dgram_bytes p) t =
      recv_symbol E c track (fst p) (snd p) (t\<lparr>t_world := w\<rparr>)"
    using datagram_is_symbol [OF ready dg T(2-5) track] w(1) by simp
  have kn: "t_heap (t\<lparr>t_world := w\<rparr>) c = Some kn" using ready by (simp add: conn_ready_def)
  have none: "find_index (asm_matches (fst p)) (c_assemblers kn) = None"
    using new v by (simp add: scan_simps)
  have pos: "0 < h_total_symbols (fst p)" using k T(2) v by (auto simp: hdr_sizes_def word_less_nat_alt)
  obtain kn' w' i where fresh: "recv_symbol E c track (fst p) (snd p) (t\<lparr>t_world := w\<rparr>) =
      recv_symbol E c track (fst p) (snd p) (put_conn c kn' ((t\<lparr>t_world := w\<rparr>)\<lparr>t_world := w'\<rparr>))"
    and kn': "kn' = kn\<lparr>c_assemblers := c_assemblers kn', c_assembler_index := c_assembler_index kn'\<rparr>"
    and fi: "find_index (asm_matches (fst p)) (c_assemblers kn') = Some i"
    and slot: "\<exists>a. asm_wf a \<and> c_assemblers kn' ! i = asm_reset (fst p) a"
    and lw: "log w' = log (t_world (t\<lparr>t_world := w\<rparr>)) @ evicted E c kn"
    by (rule recv_symbol_fresh [OF T(1) kn inv none pos], rule that)
  let ?t = "put_conn c kn' (t\<lparr>t_world := w'\<rparr>)"
  have keep: "c_subscriptions kn' = c_subscriptions kn" "c_authenticated kn' = c_authenticated kn"
    by (subst kn', simp)+
  have mid: "mid_transfer E q c track h0 i kn' ?t"
    using ready cinv track fi v keep by (simp add: mid_transfer_def conn_ready_def)
  have pr: "h_priority (fst p) = h_priority h0" using so by (auto elim!: same_objectE)
  have op: "slot_open h0 k cw (h_priority h0) (c_assemblers kn' ! i)"
    and none': "got_indices (c_assemblers kn' ! i) = {}"
  proof -
    obtain a where a: "asm_wf a" "c_assemblers kn' ! i = asm_reset (fst p) a" using slot by blast
    then show "slot_open h0 k cw (h_priority h0) (c_assemblers kn' ! i)"
      and "got_indices (c_assemblers kn' ! i) = {}"
      using k pr asm_reset_holds(1) [OF a(1), of "fst p" cw] asm_reset_holds(2) [OF a(1), of "fst p"]
      by (simp_all add: slot_open_def v(2))
  qed
  from recv_symbol_then [OF tr mid op dg rest recv_datagrams_run [OF tr _ _ rest]] none'
  obtain t' where "bindf (recv_symbol E c track (fst p) (snd p) ?t) (recv_datagrams E q (map dgram_bytes ps)) = Inr t'"
    "log (t_world t') = log w' @ deliveries k c (object_of h0 track data (h_priority h0)) (dgram_indices (p # ps))"
    by auto
  with on fresh lw w show ?thesis by simp
qed

section \<open>Safety\<close>

text \<open>The callback leaves the connection and the FEC cache alone.\<close>

definition callback_keeps :: "('rs, 'rq, 'sc, 'w) env \<Rightarrow> cptr \<Rightarrow> bool" where
  "callback_keeps E c \<longleftrightarrow>
     (\<forall>ev t. t_heap (e_callback E ev c t) c = t_heap t c \<and>
             t_fec_cache (e_callback E ev c t) = t_fec_cache t)"

definition asm_state :: "('rs, 'rq, 'sc, 'w) env \<Rightarrow> cptr \<Rightarrow> ('rs, 'w) transport \<Rightarrow> bool" where
  "asm_state E c t \<longleftrightarrow>
     (\<exists>kn. t_heap t c = Some kn \<and> conn_asm_inv kn) \<and> fec_cache_inv (e_fec E) (t_fec_cache t)"

lemma conn_asm_inv_put_slot: "conn_asm_inv kn \<Longrightarrow> asm_wf a \<Longrightarrow> conn_asm_inv (put_slot i a kn)"
  using set_update_subset_insert [of "c_assemblers kn" i a] by (auto simp: conn_asm_inv_def put_slot_def)

lemma transport_get_fec_state:
  assumes inv: "fec_cache_inv (e_fec E) (t_fec_cache t)"
  obtains fo w cache where "transport_get_fec E ty k m sz t = (fo, t\<lparr>t_world := w, t_fec_cache := cache\<rparr>)"
    "fec_cache_inv (e_fec E) cache" "\<And>f. fo = Some f \<Longrightarrow> fec_made (e_fec E) ty k m sz f"
proof -
  let ?g = "get_cached_fec (e_fec E) (e_alloc E, fst (e_time_ns E (t_world t))) (t_fec_cache t) ty k m sz"
  have "transport_get_fec E ty k m sz t =
      (fst ?g, t\<lparr>t_world := snd (e_time_ns E (t_world t)), t_fec_cache := snd ?g\<rparr>)"
    by (simp add: transport_get_fec_def case_prod_beta Let_def)
  then show ?thesis
    using that get_cached_fec_inv [OF inv] cached_fec.get_made [OF inv] by blast
qed

lemma decode_buffers_total:
  assumes f: "fec_made L FEC_REED_SOLOMON k m sz f" and len: "k + m \<le> length bufs" "k + m \<le> length missing"
    and wide: "\<And>b. b \<in> set bufs \<Longrightarrow> sz \<le> length b"
  obtains ok out where "decode_buffers L f bufs missing = Inr (ok, overlay sz out bufs)"
proof -
  note ff = fec_made_fields [OF f]
  obtain rs where "f_rs f = Some rs"
    using fec_create_ex_fields [OF f [unfolded fec_made_def]] by auto
  then have "\<exists>r. fec_decode L f (map (take sz) bufs) missing = Inr r"
    using ff len by (auto simp: fec_decode_def rs_decode_blocks_def Let_def case_prod_beta)
  then obtain ok out where "fec_decode L f (map (take sz) bufs) missing = Inr (ok, out)" by auto
  moreover have "\<not> (\<exists>b \<in> set (take (k + m) bufs). length b < sz)"
    using wide by (auto simp: not_less dest!: in_set_takeD)
  ultimately have "decode_buffers L f bufs missing = Inr (ok, overlay sz out bufs)"
    using ff by (auto simp: decode_buffers_def Let_def)
  then show ?thesis by (rule that)
qed

lemma asm_wf_overlay:
  assumes "asm_wf a" "fa_buffers a = Some bufs" "sz \<le> unat (fa_capacity_symbol_size a)"
  shows "asm_wf (a\<lparr>fa_buffers := Some (overlay sz out bufs)\<rparr>)"
  using assms overlay_block_length [of bufs "unat (fa_capacity_symbol_size a)" sz]
  by (auto simp: asm_wf_def)

lemma asm_decode_safe:
  assumes inv: "fec_cache_inv (e_fec E) (t_fec_cache t)" and wf: "asm_wf a" and bufs: "fa_buffers a = Some bufs"
    and fits: "hdr_fits h a" and small: "h_total_symbols h \<le> 255" "h_data_symbols h \<le> h_total_symbols h"
  obtains ok bufs' w cache where "asm_decode E track h a t =
      Inr (ok, a\<lparr>fa_buffers := Some bufs'\<rparr>, t\<lparr>t_world := w, t_fec_cache := cache\<rparr>)"
    "asm_wf (a\<lparr>fa_buffers := Some bufs'\<rparr>)" "fec_cache_inv (e_fec E) cache"
proof -
  note d = asm_wfD [OF wf bufs]
  let ?k = "unat (h_data_symbols h)" and ?n = "unat (h_total_symbols h)" and ?sz = "unat (h_symbol_size h)"
  have n: "?n \<le> 255" "?k \<le> ?n" "?n \<le> length bufs"
    using small d(4) fits by (auto simp: word_le_nat_alt hdr_fits_def)
  define m where "m = unat ((ucast (h_total_symbols h) :: u64) - ucast (h_data_symbols h))"
  have m: "?k + m = ?n"
  proof -
    have "unat (ucast (h_data_symbols h) :: u64) = ?k" "unat (ucast (h_total_symbols h) :: u64) = ?n"
      using unat_bound [of "h_data_symbols h"] unat_bound [of "h_total_symbols h"]
      by (simp_all add: unsigned_ucast_eq take_bit_nat_eq_self)
    then show ?thesis unfolding m_def using n(2) by (subst unat_sub) (simp_all add: word_le_nat_alt)
  qed
  note res = that
  have quiet: ?thesis if "asm_decode E track h a t = Inr (ok, a, t)" for ok
  proof (rule res)
    show "asm_decode E track h a t =
        Inr (ok, a\<lparr>fa_buffers := Some bufs\<rparr>, t\<lparr>t_world := t_world t, t_fec_cache := t_fec_cache t\<rparr>)"
      using that bufs by simp
    show "asm_wf (a\<lparr>fa_buffers := Some bufs\<rparr>)" using wf bufs by (simp add: asm_wf_def)
  qed (rule inv)
  obtain all where all: "got_all_data (fa_received_mask a) ?k = Inr all"
    using n d(3) by (auto simp: got_all_data_def)
  show ?thesis
  proof (cases "all \<or> m = 0")
    case True
    then show ?thesis
      using all by (cases all) (auto intro!: quiet simp: asm_decode_def Let_def m_def)
  next
    case False
    obtain fo w cache where g: "transport_get_fec E FEC_REED_SOLOMON ?k m ?sz t =
        (fo, t\<lparr>t_world := w, t_fec_cache := cache\<rparr>)" and cinv: "fec_cache_inv (e_fec E) cache"
      and made: "\<And>f. fo = Some f \<Longrightarrow> fec_made (e_fec E) FEC_REED_SOLOMON ?k m ?sz f"
      by (rule transport_get_fec_state [OF inv], rule that)
    have ty: "recv_fec_type track ?n = FEC_REED_SOLOMON" using n by (simp add: recv_fec_type_def)
    show ?thesis
    proof (cases fo)
      case None
      with all False g ty have "asm_decode E track h a t =
          Inr (False, a\<lparr>fa_buffers := Some bufs\<rparr>, t\<lparr>t_world := w, t_fec_cache := cache\<rparr>)"
        using bufs by (simp add: asm_decode_def Let_def m_def)
      moreover have "asm_wf (a\<lparr>fa_buffers := Some bufs\<rparr>)" using wf bufs by (simp add: asm_wf_def)
      ultimately show ?thesis using that cinv by blast
    next
      case (Some f)
      have arr: "missing_array (fa_received_mask a) ?n =
          Inr (map (\<lambda>i. if i < ?n then \<not> fa_received_mask a ! i else False) [0..<256])" (is "_ = Inr ?missing")
        using n d(3) by (simp add: missing_array_def)
      have szc: "?sz \<le> unat (fa_capacity_symbol_size a)" using d(5) fits by (simp add: hdr_fits_def)
      obtain ok out where dec: "decode_buffers (e_fec E) f bufs ?missing = Inr (ok, overlay ?sz out bufs)"
        by (rule decode_buffers_total [OF made [OF Some], of bufs ?missing])
          (use n m d(2) szc in auto)
      with all False g ty arr Some bufs have "asm_decode E track h a t =
          Inr (ok, a\<lparr>fa_buffers := Some (overlay ?sz out bufs)\<rparr>, t\<lparr>t_world := w, t_fec_cache := cache\<rparr>)"
        by (simp add: asm_decode_def Let_def m_def)
      then show ?thesis using that asm_wf_overlay [OF wf bufs szc] cinv by blast
    qed
  qed
qed

lemma asm_object_safe:
  assumes wf: "asm_wf a" and bufs: "fa_buffers a = Some bufs" and fits: "hdr_fits h a"
    and small: "h_data_symbols h \<le> h_total_symbols h"
  obtains ob where "asm_object E track h a = Inr ob"
proof -
  note d = asm_wfD [OF wf bufs]
  have "\<exists>full. copy_chunks bufs (unat (h_symbol_size h)) 0 (unat (h_data_symbols h)) (unat (h_original_size h))
      (take (unat (h_original_size h)) (e_uninit E (unat (h_original_size h)) @ replicate (unat (h_original_size h)) 0)) =
      Inr full \<and> length full = length (take (unat (h_original_size h)) (e_uninit E (unat (h_original_size h)) @
        replicate (unat (h_original_size h)) 0))"
    using d(2,4,5) fits small by (intro copy_chunks_total) (auto simp: hdr_fits_def word_le_nat_alt)
  then show ?thesis using bufs that by (auto simp: asm_object_def Let_def)
qed

lemma asm_nack_safe:
  assumes kn: "t_heap t c = Some kn" and wf: "asm_wf a" "fa_buffers a = Some bufs"
  obtains b w where "asm_nack E c i track h a t = Inr (a\<lparr>fa_nack_sent := b\<rparr>, t\<lparr>t_world := w\<rparr>)"
proof -
  have sent: "\<exists>w. send_nack E c al g ob missing t = Inr (t\<lparr>t_world := w\<rparr>)" for al g ob missing
  proof -
    have "\<exists>w. t = t\<lparr>t_world := w\<rparr>" by (rule exI [of _ "t_world t"]) simp
    then show ?thesis using kn by (auto simp: send_nack_def upd_world_def Let_def split: option.splits)
  qed
  obtain missing where miss: "asm_missing a = Inr missing"
    using asm_wfD(3,4) [OF wf] by (simp add: asm_missing_def)
  show ?thesis
  proof (cases "asm_wants_nack track a \<and> missing \<noteq> []")
    case True
    obtain w where "send_nack E c (h_track_id h) (h_group_id h) (h_object_id h) missing t = Inr (t\<lparr>t_world := w\<rparr>)"
      using sent by blast
    with True miss show ?thesis by (intro that [of True w]) (simp add: asm_nack_def)
  next
    case False
    with miss show ?thesis
      by (intro that [of "fa_nack_sent a" "t_world t"]) (auto simp: asm_nack_def)
  qed
qed

lemma asm_finish_safe:
  assumes keeps: "callback_keeps E c" and kn: "t_heap t c = Some kn" and inv: "conn_asm_inv kn"
    and cinv: "fec_cache_inv (e_fec E) (t_fec_cache t)" and wf: "asm_wf a" and bufs: "fa_buffers a = Some bufs"
    and fits: "hdr_fits h a" and small: "h_total_symbols h \<le> 255" "h_data_symbols h \<le> h_total_symbols h"
    and i: "i < length (c_assemblers kn)"
  shows "\<exists>t'. asm_finish E c i track h a t = Inr t' \<and> asm_state E c t'"
proof (cases "unat (h_data_symbols h) \<le> unat (fa_received_count a)")
  case False
  then show ?thesis
    using kn cinv conn_asm_inv_put_slot [OF inv wf] by (simp add: asm_finish_def asm_state_def)
next
  case True
  obtain ok bufs' w cache where dec: "asm_decode E track h a t =
      Inr (ok, a\<lparr>fa_buffers := Some bufs'\<rparr>, t\<lparr>t_world := w, t_fec_cache := cache\<rparr>)"
    and wf': "asm_wf (a\<lparr>fa_buffers := Some bufs'\<rparr>)" and cinv': "fec_cache_inv (e_fec E) cache"
    by (rule asm_decode_safe [OF cinv wf bufs fits small], rule that)
  let ?a = "a\<lparr>fa_buffers := Some bufs'\<rparr>"
  let ?t2 = "put_conn c (put_slot i ?a kn) (t\<lparr>t_world := w, t_fec_cache := cache\<rparr>)"
  have inv2: "conn_asm_inv (put_slot i b kn)" if "asm_wf b" for b
    by (rule conn_asm_inv_put_slot [OF inv that])
  obtain ob where ob: "asm_object E track h ?a = Inr ob"
    by (rule asm_object_safe [OF wf', of bufs' h], use fits small in \<open>simp_all add: hdr_fits_def\<close>)
  let ?t3 = "e_callback E (ObjectReceived (ob_track ob) ob) c ?t2"
  have t3: "t_heap ?t3 c = Some (put_slot i ?a kn)" "t_fec_cache ?t3 = cache"
    using keeps by (simp_all add: callback_keeps_def)
  have "asm_wf (?a\<lparr>fa_decoded := True\<rparr>)" using wf' by (simp add: asm_wf_def)
  then show ?thesis
    using True kn dec ob t3 inv2 wf' cinv' i by (cases ok) (simp_all add: asm_finish_def asm_state_def Let_def)
qed

text \<open>A header that agrees with the slot of its object, if there is one.\<close>

definition hdr_consistent :: "fec_packet_header \<Rightarrow> conn \<Rightarrow> bool" where
  "hdr_consistent h kn \<longleftrightarrow>
     h_total_symbols h \<le> 255 \<and> h_data_symbols h \<le> h_total_symbols h \<and>
     (\<forall>a \<in> set (c_assemblers kn). asm_matches h a \<longrightarrow> hdr_fits h a)"

lemma asm_slot_safe:
  assumes keeps: "callback_keeps E c" and kn: "t_heap t c = Some kn" and inv: "conn_asm_inv kn"
    and con: "hdr_consistent h kn"
  obtains i t1 k1 where "asm_slot_for E c h t = Inr (i, t1)" "t_heap t1 c = Some k1" "conn_asm_inv k1"
    "t_fec_cache t1 = t_fec_cache t" "i < length (c_assemblers k1)" "hdr_fits h (c_assemblers k1 ! i)"
    "\<exists>bufs. fa_buffers (c_assemblers k1 ! i) = Some bufs"
proof (cases "find_index (asm_matches h) (c_assemblers kn)")
  case (Some i)
  note m = find_index_SomeD [OF Some]
  have wf: "asm_wf (c_assemblers kn ! i)" using m inv by (simp add: conn_asm_inv_def)
  have "\<exists>bufs. fa_buffers (c_assemblers kn ! i) = Some bufs"
    using m wf by (auto simp: asm_wf_def asm_matches_def split: option.splits)
  moreover have "hdr_fits h (c_assemblers kn ! i)" using con m by (simp add: hdr_consistent_def)
  ultimately show ?thesis
    using Some kn inv m by (intro that [of i t kn]) (simp_all add: asm_slot_for_def)
next
  case None
  let ?i = "c_assembler_index kn"
  let ?k1 = "kn\<lparr>c_assembler_index := (?i + 1) mod ASSEMBLER_CACHE_SIZE\<rparr>"
  define t2 where "t2 = (case evict_event E kn (c_assemblers kn ! ?i) of
       Some ev \<Rightarrow> e_callback E ev c (put_conn c ?k1 t) | None \<Rightarrow> put_conn c ?k1 t)"
  have t2: "t_heap t2 c = Some ?k1" "t_fec_cache t2 = t_fec_cache t"
    using keeps by (simp_all add: t2_def callback_keeps_def split: option.splits)
  have i: "?i < length (c_assemblers kn)" using inv by (simp add: conn_asm_inv_def)
  let ?k2 = "put_slot ?i (asm_reset h (c_assemblers ?k1 ! ?i)) ?k1"
  have "conn_asm_inv ?k1" using inv by (simp add: conn_asm_inv_def ASSEMBLER_CACHE_SIZE_def)
  moreover have "asm_wf (c_assemblers kn ! ?i)" using inv i by (simp add: conn_asm_inv_def)
  ultimately have inv2: "conn_asm_inv ?k2" by (intro conn_asm_inv_put_slot) (simp_all add: asm_reset_wf)
  have slot: "asm_slot_for E c h t = Inr (?i, put_conn c ?k2 t2)"
    using kn None t2(1) by (simp add: asm_slot_for_def Let_def t2_def [symmetric] del: One_nat_def)
  show ?thesis
    by (rule that [OF slot _ inv2]) (use i t2 in \<open>simp_all add: hdr_fits_def\<close>)
qed

lemma recv_symbol_safe:
  assumes keeps: "callback_keeps E c" and kn: "t_heap t c = Some kn" and inv: "conn_asm_inv kn"
    and cinv: "fec_cache_inv (e_fec E) (t_fec_cache t)" and con: "hdr_consistent h kn"
    and body: "unat (h_symbol_size h) \<le> length body"
  shows "\<exists>t'. recv_symbol E c track h body t = Inr t' \<and> asm_state E c t'"
proof -
  obtain i t1 k1 bufs where slot: "asm_slot_for E c h t = Inr (i, t1)" and k1: "t_heap t1 c = Some k1"
    and inv1: "conn_asm_inv k1" and fc: "t_fec_cache t1 = t_fec_cache t"
    and i: "i < length (c_assemblers k1)" and fits: "hdr_fits h (c_assemblers k1 ! i)"
    and bufs: "fa_buffers (c_assemblers k1 ! i) = Some bufs"
    by (rule asm_slot_safe [OF keeps kn inv con]) (blast intro: that)
  have wf: "asm_wf (c_assemblers k1 ! i)" using inv1 i by (simp add: conn_asm_inv_def)
  have small: "h_total_symbols h \<le> 255" "h_data_symbols h \<le> h_total_symbols h"
    using con by (simp_all add: hdr_consistent_def)
  show ?thesis
  proof (cases "fa_decoded (c_assemblers k1 ! i) \<or> h_total_symbols h \<le> h_symbol_index h")
    case True
    then have "recv_symbol E c track h body t = Inr t1"
      using slot k1 by (auto simp: recv_symbol_def Let_def)
    then show ?thesis using k1 inv1 cinv fc by (auto simp: asm_state_def)
  next
    case False
    obtain a1 bufs1 where st: "asm_store h body (c_assemblers k1 ! i) = Inr a1" and wf1: "asm_wf a1"
      and bufs1: "fa_buffers a1 = Some bufs1" and a1: "a1 = (c_assemblers k1 ! i)\<lparr>fa_buffers := Some bufs1,
        fa_received_mask := fa_received_mask a1, fa_received_count := fa_received_count a1\<rparr>"
      using asm_store_ok [OF wf bufs fits _ body] False by (metis not_le)
    have fits1: "hdr_fits h (a1\<lparr>fa_nack_sent := b\<rparr>)" for b
      by (subst a1) (use fits in \<open>simp add: hdr_fits_def\<close>)
    obtain b w where nk: "asm_nack E c i track h a1 t1 = Inr (a1\<lparr>fa_nack_sent := b\<rparr>, t1\<lparr>t_world := w\<rparr>)"
      by (rule asm_nack_safe [OF k1 wf1 bufs1], rule that)
    have wf2: "asm_wf (a1\<lparr>fa_nack_sent := b\<rparr>)" using wf1 bufs1 by (simp add: asm_wf_def)
    have "\<exists>t'. asm_finish E c i track h (a1\<lparr>fa_nack_sent := b\<rparr>) (t1\<lparr>t_world := w\<rparr>) = Inr t' \<and> asm_state E c t'"
      by (rule asm_finish_safe [OF keeps _ inv1 _ wf2 _ fits1 small i]) (use k1 cinv fc bufs1 in simp_all)
    with slot k1 False st nk show ?thesis by (simp add: recv_symbol_def Let_def)
  qed
qed

section \<open>Properties\<close>

text \<open>
  C15. Datagrams with consistent headers are handled without a memory fault. Whatever the bytes of a
  datagram, if its header (when it has one) announces at most 255 symbols, no more data symbols than
  symbols, and the sizes of the slot of its object when there is one, then
  \<^verbatim>\<open>on_receive_datagram_frame\<close> stays inside its arrays, and the invariant of the sixteen slots
  (buffers and masks of the announced capacity, the symbol counter equal to the number of symbols
  held) and of the FEC cache holds again afterwards.
\<close>

theorem on_receive_datagram_safe:
  assumes "callback_keeps E c" and "e_conn_data E q (t_world t) = Some c"
    and "t_heap t c = Some kn" and "conn_asm_inv kn" and "fec_cache_inv (e_fec E) (t_fec_cache t)"
    and "\<forall>h. fec_header_read payload = Some h \<longrightarrow> hdr_consistent h kn"
  shows "\<exists>t'. on_receive_datagram_frame E q payload t = Inr t' \<and> asm_state E c t'"
proof -
  have keep: ?thesis if "on_receive_datagram_frame E q payload t = Inr t'" "t_heap t' = t_heap t"
    "t_fec_cache t' = t_fec_cache t" for t'
    using that assms(3-5) by (simp add: asm_state_def)
  have tel: "t_heap (recv_telemetry E payload t) = t_heap t" "t_fec_cache (recv_telemetry E payload t) = t_fec_cache t"
    by (auto simp: recv_telemetry_def Let_def split: option.splits)
  have rep: "t_heap (telemetry_reply E q h t) = t_heap t" "t_fec_cache (telemetry_reply E q h t) = t_fec_cache t" for h
    by (simp_all add: telemetry_reply_def case_prod_beta Let_def)
  show ?thesis
  proof (cases "\<exists>h track. \<not> (t_is_server t \<and> \<not> c_authenticated kn) \<and> payload \<noteq> [] \<and>
      payload ! 0 \<noteq> ucast MOQ_TRACK_TELEMETRY \<and> fec_header_read payload = Some h \<and>
      find_subscription_by_alias (c_subscriptions kn) (h_track_id h) (e_uninit_track E) = Some track \<and>
      \<not> (16384 < h_total_symbols h \<or> 4096 < h_symbol_size h) \<and>
      \<not> length payload < FEC_HEADER_SIZE + unat (h_symbol_size h)")
    case True
    then obtain h track where h: "fec_header_read payload = Some h"
      and len: "\<not> length payload < FEC_HEADER_SIZE + unat (h_symbol_size h)"
      and on: "on_receive_datagram_frame E q payload t =
        recv_symbol E c track h (drop FEC_HEADER_SIZE payload) (telemetry_reply E q h t)"
      using assms(2,3) by (auto simp: on_receive_datagram_frame_def Let_def)
    show ?thesis
      unfolding on
      by (rule recv_symbol_safe [OF assms(1) _ assms(4)]) (use rep assms(3,5,6) h len in simp_all)
  next
    case False
    then show ?thesis
      using assms(2,3) tel rep
      by (intro keep [of "if \<not> (t_is_server t \<and> \<not> c_authenticated kn) \<and> payload \<noteq> [] then
          if payload ! 0 = ucast MOQ_TRACK_TELEMETRY then recv_telemetry E payload t
          else case fec_header_read payload of None \<Rightarrow> t | Some h \<Rightarrow>
            case find_subscription_by_alias (c_subscriptions kn) (h_track_id h) (e_uninit_track E) of
              None \<Rightarrow> t | Some track \<Rightarrow> telemetry_reply E q h t else t"])
        (auto simp: on_receive_datagram_frame_def Let_def split: option.splits)
  qed
qed

text \<open>
  C2. Reassembly delivers an object once and intact. Take any object of at most 255 Reed-Solomon
  symbols whose header names a track of the connection, and any non-empty sequence of datagrams that
  carry symbols of it, in any order, with any losses and repetitions, received by
  \<^verbatim>\<open>on_receive_datagram_frame\<close> on a ready connection that has no slot for the object yet. No
  memory fault occurs, and the events the application sees are: the loss of the object whose slot is
  reused, if that was incomplete, and then, exactly when as many distinct symbols as data symbols
  arrived, one object event whose payload is the encoded data cut to the original size.
\<close>

theorem reassembly_delivers_once:
  assumes "observed E log" and "rs_mds (e_fec E)" and "rs_codeword (e_fec E) k m sz data cw"
    and "\<forall>n. e_alloc E n" and "0 < k" and "k + m \<le> 255" and "sz \<le> 4096"
    and "hdr_sizes h0 k m sz" and "h_track_id h0 \<noteq> 6" and "unat (h_original_size h0) \<le> k * sz"
    and "conn_ready E q c kn t" and "conn_asm_inv kn" and "fec_cache_inv (e_fec E) (t_fec_cache t)"
    and "find_subscription_by_alias (c_subscriptions kn) (h_track_id h0) (e_uninit_track E) = Some track"
    and "\<forall>a \<in> set (c_assemblers kn). \<not> asm_matches h0 a"
    and "ps \<noteq> []" and "\<forall>p \<in> set ps. symbol_dgram h0 sz cw p"
    and "ob = object_of h0 track data (h_priority h0)"
  shows "\<exists>t'. recv_datagrams E q (map dgram_bytes ps) t = Inr t' \<and>
    log (t_world t') = log (t_world t) @ evicted E c kn @
      (if k \<le> card (dgram_indices ps) then [(c, ObjectReceived (ob_track ob) ob)] else [])"
proof -
  have tr: "transfer E log k m sz data cw h0" using assms(1-4,6-10) by (simp add: transfer_def)
  obtain p ps' where ps: "ps = p # ps'" using assms(16) by (cases ps) auto
  then have "symbol_dgram h0 sz cw p" "\<forall>p \<in> set ps'. symbol_dgram h0 sz cw p" using assms(17) by auto
  from new_object_run [OF tr assms(5,11-15) this] show ?thesis
    unfolding ps assms(18) deliveries_def .
qed

definition demo_header :: fec_packet_header where
  "demo_header = \<lparr>h_track_id = 4, h_is_keyframe = 0, h_priority = 2, h_group_id = 0, h_object_id = 5,
     h_symbol_index = 0, h_total_symbols = 3, h_data_symbols = 1, h_symbol_size = 3,
     h_original_size = 2, h_path_id = 1, h_send_time_ns = 77\<rparr>"

definition demo_transport :: "(nat, trace_world) transport" where
  "demo_transport = (blank_transport empty_trace)\<lparr>t_client_conn := Some 0, t_heap := [0 \<mapsto> new_conn 7]\<rparr>"

lemma demo_codeword:
  "rs_codeword repetition_lib 1 2 3 [[7, 8, 9]] [[7, 8, 9], [7, 8, 9], [7, 8, 9]]"
proof -
  let ?f = "the (fec_create_ex repetition_lib (\<lambda>_. True) FEC_REED_SOLOMON 1 2 3)"
  have "fec_made repetition_lib FEC_REED_SOLOMON 1 2 3 ?f"
    by (simp add: fec_made_def fec_create_ex_def repetition_lib_def)
  moreover have "fec_encode repetition_lib ?f [[7, 8, 9]] [[0, 0, 0], [0, 0, 0]] =
      Inr ([[7, 8, 9]], [[7, 8, 9], [7, 8, 9]])"
    by code_simp
  moreover have "blocks_of 2 3 [[0, 0, 0], [0, 0, 0]]" "blocks_of 1 3 [[7, 8, 9]]"
    by (simp_all add: blocks_of_def)
  ultimately show ?thesis by (auto simp: rs_codeword_def)
qed

theorem reassembly_delivers_once_witness:
  "\<exists>t'. recv_datagrams trace_env 7
      (map dgram_bytes [(demo_header\<lparr>h_symbol_index := 2\<rparr>, [7, 8, 9]), (demo_header, [7, 8, 9])]) demo_transport = Inr t' \<and>
    map (\<lambda>e. case snd e of ObjectReceived tr ob \<Rightarrow> ob_data ob | _ \<Rightarrow> []) (tw_events (t_world t')) = [[7, 8]]"
proof -
  let ?ps = "[(demo_header\<lparr>h_symbol_index := 2\<rparr>, [7, 8, 9 :: u8]), (demo_header, [7, 8, 9])]"
  let ?track = "zero_track\<lparr>tk_type := 4, tk_name := []\<rparr>"
  let ?ob = "object_of demo_header ?track [[7, 8, 9]] (h_priority demo_header)"
  have obs: "observed trace_env tw_events"
    by (auto simp: observed_def trace_env_def)
  have ready: "conn_ready trace_env 7 0 (new_conn 7) demo_transport"
    by (simp add: conn_ready_def trace_env_def demo_transport_def blank_transport_def)
  have cinv: "fec_cache_inv (e_fec trace_env) (t_fec_cache demo_transport)"
    using empty_fec_cache_inv by (simp add: demo_transport_def blank_transport_def)
  have sub: "find_subscription_by_alias (c_subscriptions (new_conn 7)) (h_track_id demo_header) (e_uninit_track trace_env) = Some ?track"
    by (simp add: find_subscription_by_alias_def demo_header_def trace_env_def)
  have dg: "\<forall>p \<in> set ?ps. symbol_dgram demo_header 3 [[7, 8, 9], [7, 8, 9], [7, 8, 9]] p"
    by (simp add: symbol_dgram_def same_object_def demo_header_def)
  have card: "1 \<le> card (dgram_indices ?ps)" by (simp add: demo_header_def)
  have ev: "evicted trace_env 0 (new_conn 7) = []"
    by (simp add: evicted_def evict_event_def new_conn_def empty_assembler_def ASSEMBLER_CACHE_SIZE_def)
  have "\<exists>t'. recv_datagrams trace_env 7 (map dgram_bytes ?ps) demo_transport = Inr t' \<and>
    tw_events (t_world t') = tw_events (t_world demo_transport) @ evicted trace_env 0 (new_conn 7) @
      (if 1 \<le> card (dgram_indices ?ps) then [(0, ObjectReceived (ob_track ?ob) ?ob)] else [])"
    by (rule reassembly_delivers_once [OF obs _ _ _ _ _ _ _ _ _ ready _ cinv sub _ _ dg, where m = 2])
      (simp_all add: trace_env_def repetition_rs_mds demo_codeword [unfolded One_nat_def] hdr_sizes_def demo_header_def
        conn_asm_inv_def new_conn_def asm_matches_def empty_assembler_def ASSEMBLER_CACHE_SIZE_def asm_wf_def)
  with card ev show ?thesis
    by (auto simp: object_of_def demo_header_def demo_transport_def blank_transport_def empty_trace_def)
qed

theorem on_receive_datagram_safe_witness:
  "\<exists>t'. on_receive_datagram_frame trace_env 7 (dgram_bytes (demo_header, [7, 8, 9])) demo_transport = Inr t' \<and>
     asm_state trace_env 0 t'"
proof (rule on_receive_datagram_safe)
  show "callback_keeps trace_env 0" by (simp add: callback_keeps_def trace_env_def)
  show "e_conn_data trace_env 7 (t_world demo_transport) = Some 0" by (simp add: trace_env_def)
  show "t_heap demo_transport 0 = Some (new_conn 7)" by (simp add: demo_transport_def)
  show "conn_asm_inv (new_conn 7)"
    by (simp add: conn_asm_inv_def new_conn_def ASSEMBLER_CACHE_SIZE_def)
  show "fec_cache_inv (e_fec trace_env) (t_fec_cache demo_transport)"
    using empty_fec_cache_inv by (simp add: demo_transport_def blank_transport_def)
  show "\<forall>h. fec_header_read (dgram_bytes (demo_header, [7, 8, 9])) = Some h \<longrightarrow> hdr_consistent h (new_conn 7)"
    by (simp add: dgram_bytes_def fec_header_read_bytes hdr_consistent_def demo_header_def new_conn_def
        asm_matches_def empty_assembler_def)
qed

text \<open>
  C26. The bound on the symbol index is taken from the datagram, not from the slot: a datagram for an
  object in progress whose header announces more symbols than the slot has room for, and an index
  beyond that room, makes \<^verbatim>\<open>on_receive_datagram_frame\<close> access the slot's arrays out of bounds.
\<close>

theorem datagram_index_overflow:
  assumes "conn_ready E q c kn t" and "find_index (asm_matches h) (c_assemblers kn) = Some i"
    and "\<not> fa_decoded (c_assemblers kn ! i)" and "h_track_id h \<noteq> 6"
    and "find_subscription_by_alias (c_subscriptions kn) (h_track_id h) (e_uninit_track E) \<noteq> None"
    and "h_total_symbols h \<le> 16384" and "h_symbol_size h \<le> 4096" and "unat (h_symbol_size h) \<le> length body"
    and "h_symbol_index h < h_total_symbols h"
    and "length (fa_received_mask (c_assemblers kn ! i)) \<le> unat (h_symbol_index h)"
  shows "on_receive_datagram_frame E q (fec_header_bytes h @ body) t = Inl OutOfBounds"
proof -
  obtain track where track: "find_subscription_by_alias (c_subscriptions kn) (h_track_id h) (e_uninit_track E) = Some track"
    using assms(5) by auto
  have len: "length (fec_header_bytes h) = FEC_HEADER_SIZE" by (rule fec_hdr.enc_length)
  have first: "(fec_header_bytes h @ body) ! 0 = h_track_id h" "fec_header_bytes h @ body \<noteq> []"
    by (simp_all add: fec_header_bytes_def)
  have "t_heap (telemetry_reply E q h t) c = Some kn"
    using assms(1) by (simp add: conn_ready_def telemetry_reply_def case_prod_beta Let_def)
  from recv_symbol_known [OF this assms(2), of E track body] assms(3,9,10)
  have "recv_symbol E c track h body (telemetry_reply E q h t) = Inl OutOfBounds"
    by (simp add: asm_store_def Let_def not_le)
  with assms(1,4,6-8) track len first show ?thesis
    by (auto simp: on_receive_datagram_frame_def conn_ready_def fec_header_read_bytes track_consts Let_def
        not_less simp del: append_is_Nil_conv)
qed

definition demo_conn_busy :: conn where
  "demo_conn_busy = (new_conn 7)\<lparr>c_assemblers := (c_assemblers (new_conn 7))[0 := asm_reset demo_header empty_assembler]\<rparr>"

theorem datagram_index_overflow_witness:
  "on_receive_datagram_frame trace_env 7
     (fec_header_bytes (demo_header\<lparr>h_total_symbols := 1000, h_symbol_index := 500\<rparr>) @ [7, 8, 9])
     (demo_transport\<lparr>t_heap := [0 \<mapsto> demo_conn_busy]\<rparr>) = Inl OutOfBounds"
proof (rule datagram_index_overflow)
  let ?h = "demo_header\<lparr>h_total_symbols := 1000, h_symbol_index := 500\<rparr>"
  show "conn_ready trace_env 7 0 demo_conn_busy (demo_transport\<lparr>t_heap := [0 \<mapsto> demo_conn_busy]\<rparr>)"
    by (simp add: conn_ready_def trace_env_def demo_transport_def blank_transport_def)
  have slots: "c_assemblers demo_conn_busy = asm_reset demo_header empty_assembler # replicate 15 empty_assembler"
    by (simp add: demo_conn_busy_def new_conn_def ASSEMBLER_CACHE_SIZE_def numeral_eq_Suc)
  show "find_index (asm_matches ?h) (c_assemblers demo_conn_busy) = Some 0"
    unfolding slots by (simp add: asm_matches_def demo_header_def)
  show "\<not> fa_decoded (c_assemblers demo_conn_busy ! 0)" unfolding slots by simp
  show "length (fa_received_mask (c_assemblers demo_conn_busy ! 0)) \<le> unat (h_symbol_index ?h)"
    unfolding slots by (simp add: asm_reset_def empty_assembler_def demo_header_def Let_def)
qed (simp_all add: demo_header_def find_subscription_by_alias_def)

end
