(* ===== verification/Sending.thy ===== *)
theory Sending
  imports Publish Reassembly
begin

text \<open>
  What publishing an object as datagrams sends: the data symbols are the object cut into symbols, the
  parity symbols complete them to a Reed-Solomon code word, and every eligible connection is sent
  every symbol of that code word once, in order, under a header that describes it. The sent-object
  ring then answers retransmission requests with symbols of the same code word.
\<close>

section \<open>Memory\<close>

text \<open>The arena has \<open>n\<close> bytes left.\<close>

definition arena_room :: "nat \<Rightarrow> ('rs, 'w) transport \<Rightarrow> bool" where
  "arena_room n t \<longleftrightarrow>
     arena_inv (t_arena t) \<and> unat (ar_offset (t_arena t)) + n \<le> unat (ar_capacity (t_arena t))"

lemma arena_get_room:
  assumes room: "arena_room (n + 7 + r) t" and n: "n \<le> 2 ^ 62"
  obtains a where "arena_get E n t = (Some (replicate n 0), t\<lparr>t_arena := a\<rparr>)"
    "arena_room r (t\<lparr>t_arena := a\<rparr>)"
proof -
  let ?a = "t_arena t" and ?req = "of_nat n :: u64"
  let ?al = "arena_alloc (e_malloc E) ?a ?req"
  have inv: "arena_inv ?a" using room by (simp add: arena_room_def)
  have un: "unat ?req = n" using n by (simp add: unat_of_nat)
  have req: "unat ?req \<le> 2 ^ 62" using n un by simp
  have sum: "unat (ar_offset ?a + arena_round ?req) = unat (ar_offset ?a) + unat (arena_round ?req)"
    by (rule unat_offset_sum [OF inv req])
  have le: "unat (arena_round ?req) \<le> n + 7" using unat_arena_round_bounds(2) [OF req] un by simp
  have "\<not> ar_capacity ?a < ar_offset ?a + arena_round ?req"
    using room le unfolding arena_room_def word_less_nat_alt sum by simp
  then have al: "fst ?al = ArenaBlock (ar_offset ?a)" "ar_offset (snd ?al) = ar_offset ?a + arena_round ?req"
    "ar_capacity (snd ?al) = ar_capacity ?a"
    by (simp_all add: arena_alloc_def Let_def)
  then have "arena_get E n t = (Some (replicate n 0), t\<lparr>t_arena := snd ?al\<rparr>)"
    by (simp add: arena_get_def case_prod_beta)
  moreover have "arena_room r (t\<lparr>t_arena := snd ?al\<rparr>)"
    using room al(2,3) sum le arena_alloc_inv [OF inv req] by (simp add: arena_room_def)
  ultimately show ?thesis using that by blast
qed

lemma arena_get_malloc:
  assumes "\<forall>n. e_malloc E n \<noteq> None"
  obtains mem a where "arena_get E n t = (Some mem, t\<lparr>t_arena := a\<rparr>)"
proof -
  let ?al = "arena_alloc (e_malloc E) (t_arena t) (of_nat n)"
  have "fst ?al \<noteq> NullBlock"
    using assms [THEN spec, of "arena_round (of_nat n)"]
    by (auto simp: arena_alloc_def Let_def split: option.splits)
  then obtain mem where "arena_get E n t = (Some mem, t\<lparr>t_arena := snd ?al\<rparr>)"
    by (cases "fst ?al") (simp_all add: arena_get_def case_prod_beta)
  then show ?thesis by (rule that)
qed

lemma arena_room_mono: "arena_room n t \<Longrightarrow> r \<le> n \<Longrightarrow> arena_room r t"
  by (simp add: arena_room_def)

section \<open>Symbols\<close>

lemma length_data_block [simp]: "length (data_block data (length data) sz i) = sz"
  by (simp add: data_block_def Let_def)

lemma data_blocks_of: "blocks_of k sz (map (data_block data (length data) sz) [0..<k])"
  by (simp add: blocks_of_def)

lemma data_block_take: "take (length data - i * sz) (data_block data (length data) sz i) = bslice (i * sz) sz data"
  by (auto simp: data_block_def Let_def bslice_def min_def)

lemma data_block_shift:
  "sz \<le> length data \<Longrightarrow> data_block data (length data) sz (Suc i) = data_block (drop sz data) (length (drop sz data)) sz i"
  by (auto simp: data_block_def Let_def bslice_def add.commute)

text \<open>The symbols hold the object.\<close>

lemma concat_data_blocks:
  "length data \<le> k * sz \<Longrightarrow> take (length data) (concat (map (data_block data (length data) sz) [0..<k])) = data"
proof (induction k arbitrary: data)
  case (Suc k)
  let ?b = "data_block data (length data) sz"
  have split: "map ?b [0..<Suc k] = ?b 0 # map (\<lambda>i. ?b (Suc i)) [0..<k]"
    by (simp add: upt_conv_Cons map_Suc_upt [symmetric] del: upt_Suc)
  have b0: "take (length data) (?b 0) = take sz data"
    using data_block_take [of data 0 sz] by (simp add: slice_0)
  show ?case
  proof (cases "sz \<le> length data")
    case True
    have "take (length data - sz) (concat (map (\<lambda>i. ?b (Suc i)) [0..<k])) = drop sz data"
      using Suc.IH [of "drop sz data"] Suc.prems by (simp add: data_block_shift [OF True] cong: map_cong)
    with b0 True show ?thesis unfolding split by simp
  next
    case False
    with b0 show ?thesis unfolding split by simp
  qed
qed simp

lemma publish_data_symbols_enough: "0 < sz \<Longrightarrow> n \<le> publish_data_symbols sz n * sz"
proof -
  assume sz: "0 < sz"
  let ?d = "(n + sz - 1) div sz"
  have "(n + sz - 1) mod sz < sz" "?d * sz + (n + sz - 1) mod sz = n + sz - 1" using sz by simp_all
  then have "n \<le> ?d * sz" by linarith
  then show ?thesis by (auto simp: publish_data_symbols_def Let_def)
qed

lemma publish_blocks_room:
  assumes "arena_room (length is * (sz + 7) + r) t" "sz \<le> 2 ^ 62"
  shows "\<exists>a. publish_blocks E data sz is t =
      Inr (map (data_block data (length data) sz) is, t\<lparr>t_arena := a\<rparr>) \<and> arena_room r (t\<lparr>t_arena := a\<rparr>)"
  using assms(1)
proof (induction "is" arbitrary: t)
  case Nil
  then show ?case by (auto intro!: exI [of _ "t_arena t"])
next
  case (Cons i "is")
  let ?off = "i * sz"
  let ?chunk = "if ?off < length data then length data - ?off else 0"
  show ?case
  proof (cases "sz \<le> ?chunk")
    case True
    have "arena_room (length is * (sz + 7) + r) t" using Cons.prems by (simp add: arena_room_def)
    with Cons.IH obtain a where a: "publish_blocks E data sz is t =
        Inr (map (data_block data (length data) sz) is, t\<lparr>t_arena := a\<rparr>)" "arena_room r (t\<lparr>t_arena := a\<rparr>)"
      by blast
    have "bslice ?off sz data = data_block data (length data) sz i"
      using True by (auto simp: data_block_def Let_def split: if_splits)
    with a True show ?thesis by (auto simp: Let_def)
  next
    case False
    have "arena_room (sz + 7 + (length is * (sz + 7) + r)) t" using Cons.prems by (simp add: algebra_simps)
    then obtain a1 where a1: "arena_get E sz t = (Some (replicate sz 0), t\<lparr>t_arena := a1\<rparr>)"
      "arena_room (length is * (sz + 7) + r) (t\<lparr>t_arena := a1\<rparr>)"
      using arena_get_room assms(2) by metis
    from Cons.IH [OF a1(2)] obtain a where a: "publish_blocks E data sz is (t\<lparr>t_arena := a1\<rparr>) =
        Inr (map (data_block data (length data) sz) is, t\<lparr>t_arena := a\<rparr>)" "arena_room r (t\<lparr>t_arena := a\<rparr>)"
      by auto
    have "put_bytes 0 (bslice ?off ?chunk data) (replicate sz 0) = Inr (data_block data (length data) sz i)"
      using False by (auto simp: put_bytes_def data_block_def Let_def)
    with a a1 False show ?thesis by (auto simp: Let_def)
  qed
qed

lemma publish_parity_room:
  assumes "arena_room (n * (sz + 7) + r) t" "sz \<le> 2 ^ 62"
  shows "\<exists>a. publish_parity E sz n t = Inr (replicate n (replicate sz 0), t\<lparr>t_arena := a\<rparr>)"
  using assms(1)
proof (induction n arbitrary: t)
  case 0
  then show ?case by (auto intro!: exI [of _ "t_arena t"])
next
  case (Suc n)
  have "arena_room (sz + 7 + (n * (sz + 7) + r)) t" using Suc.prems by (simp add: algebra_simps)
  then obtain a1 where a1: "arena_get E sz t = (Some (replicate sz 0), t\<lparr>t_arena := a1\<rparr>)"
    "arena_room (n * (sz + 7) + r) (t\<lparr>t_arena := a1\<rparr>)"
    using arena_get_room assms(2) by metis
  from Suc.IH [OF a1(2)] show ?case by (auto simp: a1)
qed

section \<open>The code word of an object\<close>

text \<open>The data symbols of an object and the parity symbols a Reed-Solomon context computes for them.\<close>

definition object_symbols :: "('rs, 'rq, 'sc) fec_lib \<Rightarrow> nat \<Rightarrow> nat \<Rightarrow> nat \<Rightarrow> bytes \<Rightarrow> bytes list" where
  "object_symbols L k m sz data =
     (let bl = map (data_block data (length data) sz) [0..<k] in
      bl @ (if m = 0 then []
            else case fec_create_ex L (\<lambda>_. True) FEC_REED_SOLOMON k m sz of
                   None \<Rightarrow> replicate m (replicate sz 0)
                 | Some f \<Rightarrow>
                     (case fec_encode L f bl (replicate m (replicate sz 0)) of
                        Inl _ \<Rightarrow> replicate m (replicate sz 0)
                      | Inr (d, p) \<Rightarrow> p)))"

lemma object_symbols_encode:
  assumes mds: "rs_mds L" and new: "rs_new L k m \<noteq> None" and m: "0 < m"
  obtains f p where "fec_made L FEC_REED_SOLOMON k m sz f"
    "fec_encode L f (map (data_block data (length data) sz) [0..<k]) (replicate m (replicate sz 0)) =
       Inr (map (data_block data (length data) sz) [0..<k], p)"
    "object_symbols L k m sz data = map (data_block data (length data) sz) [0..<k] @ p" "blocks_of m sz p"
proof -
  obtain f where f: "fec_create_ex L (\<lambda>_. True) FEC_REED_SOLOMON k m sz = Some f"
    using new by (auto simp: fec_create_ex_def Let_def)
  have z: "blocks_of m sz (replicate m (replicate sz 0))" by (simp add: blocks_of_def)
  obtain p where p: "fec_encode L f (map (data_block data (length data) sz) [0..<k]) (replicate m (replicate sz 0)) =
       Inr (map (data_block data (length data) sz) [0..<k], p)" "blocks_of m sz p"
    using rs_roundtrip [OF mds f data_blocks_of z] by blast
  show ?thesis
  proof (rule that [of f p])
    show "fec_made L FEC_REED_SOLOMON k m sz f" using f by (simp add: fec_made_def)
    show "object_symbols L k m sz data = map (data_block data (length data) sz) [0..<k] @ p"
      using m f p(1) by (simp add: object_symbols_def Let_def)
  qed (fact p)+
qed

lemma object_symbols_codeword:
  assumes mds: "rs_mds L" and new: "0 < m \<Longrightarrow> rs_new L k m \<noteq> None"
  shows "rs_codeword L k m sz (map (data_block data (length data) sz) [0..<k]) (object_symbols L k m sz data)"
    and "blocks_of (k + m) sz (object_symbols L k m sz data)"
proof -
  let ?bl = "map (data_block data (length data) sz) [0..<k]"
  have "rs_codeword L k m sz ?bl (object_symbols L k m sz data) \<and> blocks_of (k + m) sz (object_symbols L k m sz data)"
  proof (cases "m = 0")
    case True
    then show ?thesis using data_blocks_of by (simp add: rs_codeword_def object_symbols_def Let_def)
  next
    case False
    then obtain f p where e: "fec_made L FEC_REED_SOLOMON k m sz f"
        "fec_encode L f ?bl (replicate m (replicate sz 0)) = Inr (?bl, p)"
        "object_symbols L k m sz data = ?bl @ p" "blocks_of m sz p"
      using object_symbols_encode [OF mds new] by (metis neq0_conv)
    have z: "blocks_of m sz (replicate m (replicate sz 0))" by (simp add: blocks_of_def)
    have "rs_codeword L k m sz ?bl (?bl @ p)"
      using False e(1,2) z data_blocks_of unfolding rs_codeword_def by auto
    moreover have "blocks_of (k + m) sz (?bl @ p)" using e(4) by (auto simp: blocks_of_def)
    ultimately show ?thesis unfolding e(3) ..
  qed
  then show "rs_codeword L k m sz ?bl (object_symbols L k m sz data)"
    "blocks_of (k + m) sz (object_symbols L k m sz data)" by simp_all
qed

text \<open>Encoding, at publication and at retransmission alike, yields that code word.\<close>

lemma publish_encode_ok:
  assumes mds: "rs_mds (e_fec E)" and new: "0 < m \<Longrightarrow> rs_new (e_fec E) k m \<noteq> None" and alloc: "\<forall>n. e_alloc E n"
    and inv: "fec_cache_inv (e_fec E) (t_fec_cache t)" and km: "k + m \<le> 255"
  obtains d p w cache where
    "publish_encode E ty k m sz (map (data_block data (length data) sz) [0..<k]) (replicate m (replicate sz 0)) t =
       Inr (d, p, t\<lparr>t_world := w, t_fec_cache := cache\<rparr>)"
    "d @ p = object_symbols (e_fec E) k m sz data" "length d = k"
    "w \<in> {t_world t, snd (e_time_ns E (t_world t))}" "fec_cache_inv (e_fec E) cache"
proof (cases "m = 0")
  case True
  show ?thesis
    by (rule that [where d = "map (data_block data (length data) sz) [0..<k]" and p = "[]" and w = "t_world t" and cache = "t_fec_cache t"])
      (use True inv in \<open>simp_all add: publish_encode_def object_symbols_def Let_def\<close>)
next
  case False
  let ?bl = "map (data_block data (length data) sz) [0..<k]"
  obtain f p where e: "fec_made (e_fec E) FEC_REED_SOLOMON k m sz f"
      "fec_encode (e_fec E) f ?bl (replicate m (replicate sz 0)) = Inr (?bl, p)"
      "object_symbols (e_fec E) k m sz data = ?bl @ p"
    using object_symbols_encode [OF mds new] False by (metis neq0_conv)
  obtain cache where c: "transport_get_fec E FEC_REED_SOLOMON k m sz t =
      (Some f, t\<lparr>t_world := snd (e_time_ns E (t_world t)), t_fec_cache := cache\<rparr>)"
    "fec_cache_inv (e_fec E) cache"
    by (rule transport_get_fec_made [OF inv alloc e(1)], rule that)
  have "(if ty = FEC_RAPTORQ \<and> k + m \<le> 255 then FEC_REED_SOLOMON else ty) = FEC_REED_SOLOMON"
    using km by (cases ty) simp_all
  then have "publish_encode E ty k m sz ?bl (replicate m (replicate sz 0)) t =
      Inr (?bl, p, t\<lparr>t_world := snd (e_time_ns E (t_world t)), t_fec_cache := cache\<rparr>)"
    using False c(1) e(2) by (simp add: publish_encode_def Let_def)
  from that [OF this] e(3) c(2) show ?thesis by simp
qed

section \<open>Sending\<close>

text \<open>
  The datagrams \<open>(connection, path, header, body)\<close> leave one after the other; the clock is read into
  the header before each. \<open>tx\<close> is the QUIC call that takes them, on a given path or on any.
\<close>

inductive sends :: "('w \<Rightarrow> u64 \<times> 'w) \<Rightarrow> (qptr \<Rightarrow> nat \<Rightarrow> bytes \<Rightarrow> 'w \<Rightarrow> 'w) \<Rightarrow>
    (qptr \<times> nat \<times> fec_packet_header \<times> bytes) list \<Rightarrow> 'w \<Rightarrow> 'w \<Rightarrow> bool"
  for clock tx where
  sends_none: "sends clock tx [] w w"
| sends_one: "clock w = (h_send_time_ns h, w1) \<Longrightarrow>
    sends clock tx ds (tx q pid (dgram_bytes (h, body)) w1) w' \<Longrightarrow>
    sends clock tx ((q, pid, h, body) # ds) w w'"

lemma sends_append: "sends clock tx ds w w1 \<Longrightarrow> sends clock tx ds' w1 w' \<Longrightarrow> sends clock tx (ds @ ds') w w'"
  by (induction rule: sends.induct) (auto intro: sends.intros)

text \<open>The symbol datagrams of an object for one connection.\<close>

definition symbols_for ::
  "moq_object \<Rightarrow> nat \<Rightarrow> nat \<Rightarrow> nat \<Rightarrow> bytes list \<Rightarrow> nat list \<Rightarrow> qptr \<times> u8 \<Rightarrow>
   (qptr \<times> nat \<times> fec_packet_header \<times> bytes) list \<Rightarrow> bool" where
  "symbols_for obj n k sz cw ss tgt ds \<longleftrightarrow>
     list_all2 (\<lambda>s (q, pid, h, body). q = fst tgt \<and> body = cw ! s \<and>
        h = publish_header obj (snd tgt) s n k sz pid (h_send_time_ns h)) ss ds"

lemma publish_symbols_ok:
  assumes mal: "\<forall>n. e_malloc E n \<noteq> None" and len: "\<And>s. s \<in> set ss \<Longrightarrow> length (blocks ! s) = sz"
  shows "\<exists>ds a w. publish_symbols E q obj al n k sz xs blocks ss t = Inr (t\<lparr>t_arena := a, t_world := w\<rparr>) \<and>
     sends (e_time_ns E) (e_send_datagram_path E) ds (t_world t) w \<and> symbols_for obj n k sz blocks ss (q, al) ds"
  using len
proof (induction ss arbitrary: t)
  case Nil
  show ?case
    by (intro exI [of _ "[]"] exI [of _ "t_arena t"] exI [of _ "t_world t"])
      (simp add: symbols_for_def sends_none)
next
  case (Cons s ss)
  obtain mem a1 where a1: "arena_get E (FEC_HEADER_SIZE + sz) t = (Some mem, t\<lparr>t_arena := a1\<rparr>)"
    by (rule arena_get_malloc [OF mal], rule that)
  let ?t1 = "t\<lparr>t_arena := a1\<rparr>"
  let ?pid = "find_path_index_by_link E q ?t1 (link_of_symbol (take (t_num_fds ?t1) xs) 0 0 s)"
  obtain now w1 where clk: "e_time_ns E (t_world t) = (now, w1)" by force
  let ?h = "publish_header obj al s n k sz ?pid now"
  let ?w2 = "e_send_datagram_path E q ?pid (dgram_bytes (?h, blocks ! s)) w1"
  have body: "take sz (blocks ! s) = blocks ! s" using Cons.prems by simp
  have now: "h_send_time_ns ?h = now" by (simp add: publish_header_def)
  obtain ds a w where IH: "publish_symbols E q obj al n k sz xs blocks ss (?t1\<lparr>t_world := ?w2\<rparr>) =
      Inr (?t1\<lparr>t_world := ?w2, t_arena := a, t_world := w\<rparr>)"
    "sends (e_time_ns E) (e_send_datagram_path E) ds ?w2 w" "symbols_for obj n k sz blocks ss (q, al) ds"
    using Cons.IH [of "?t1\<lparr>t_world := ?w2\<rparr>"] Cons.prems by auto
  have "publish_symbols E q obj al n k sz xs blocks (s # ss) t = Inr (t\<lparr>t_arena := a, t_world := w\<rparr>)"
    using IH(1) clk a1 body by (simp add: Let_def dgram_bytes_def)
  moreover have "sends (e_time_ns E) (e_send_datagram_path E) ((q, ?pid, ?h, blocks ! s) # ds) (t_world t) w"
    using clk now IH(2) by (intro sends_one) simp_all
  moreover have "symbols_for obj n k sz blocks (s # ss) (q, al) ((q, ?pid, ?h, blocks ! s) # ds)"
    using IH(3) now by (simp add: symbols_for_def)
  ultimately show ?case by blast
qed

text \<open>
  The connections an object goes to, with the alias its track has there: open, subscribed (on a
  server), with the track in their table.
\<close>

definition target_of :: "(qptr \<Rightarrow> bool) \<Rightarrow> moq_object \<Rightarrow> ('rs, 'w) transport \<Rightarrow> cptr \<Rightarrow> (qptr \<times> u8) option" where
  "target_of closing obj t c =
     (case t_heap t c of
        None \<Rightarrow> None
      | Some kn \<Rightarrow>
          if closing (c_quic kn) \<or> t_is_server t \<and> \<not> is_subscribed (c_subscriptions kn) (ob_track obj) then None
          else map_option (Pair (c_quic kn)) (find_alias_by_track (c_subscriptions kn) (ob_track obj)))"

definition targets :: "(qptr \<Rightarrow> bool) \<Rightarrow> moq_object \<Rightarrow> ('rs, 'w) transport \<Rightarrow> (qptr \<times> u8) list" where
  "targets closing obj t = List.map_filter (target_of closing obj t) (active_conns t)"

lemma target_of_same_conns: "same_conns t t' \<Longrightarrow> target_of closing obj t' = target_of closing obj t"
  by (auto simp: fun_eq_iff target_of_def same_conns_def split: option.splits)

lemma active_conns_same_conns: "same_conns t t' \<Longrightarrow> active_conns t' = active_conns t"
  by (simp add: active_conns_def same_conns_def)

lemma publish_datagram_conn_ok:
  assumes mal: "\<forall>n. e_malloc E n \<noteq> None" and cl: "\<forall>q w. e_is_closing E q w = closing q"
    and bl: "blocks_of n sz blocks"
  obtains ds a w where "publish_datagram_conn E obj n k sz xs blocks c t = Inr (t\<lparr>t_arena := a, t_world := w\<rparr>)"
    "sends (e_time_ns E) (e_send_datagram_path E) ds (t_world t) w"
    "case target_of closing obj t c of None \<Rightarrow> ds = [] | Some tgt \<Rightarrow> symbols_for obj n k sz blocks [0..<n] tgt ds"
proof (cases "target_of closing obj t c")
  case None
  have "publish_datagram_conn E obj n k sz xs blocks c t = Inr (t\<lparr>t_arena := t_arena t, t_world := t_world t\<rparr>)"
    using None cl by (auto simp: publish_datagram_conn_def target_of_def split: option.splits if_splits)
  from that [OF this, of "[]"] None show ?thesis by (simp add: sends_none)
next
  case (Some tgt)
  then obtain kn al where kn: "t_heap t c = Some kn" "tgt = (c_quic kn, al)" "\<not> closing (c_quic kn)"
    "t_is_server t \<longrightarrow> is_subscribed (c_subscriptions kn) (ob_track obj)"
    "find_alias_by_track (c_subscriptions kn) (ob_track obj) = Some al"
    by (auto simp: target_of_def split: option.splits if_splits)
  have len: "s \<in> set [0..<n] \<Longrightarrow> length (blocks ! s) = sz" for s
    using bl by (simp add: blocks_of_def)
  obtain ds a w where "publish_symbols E (c_quic kn) obj al n k sz xs blocks [0..<n] t = Inr (t\<lparr>t_arena := a, t_world := w\<rparr>)"
    "sends (e_time_ns E) (e_send_datagram_path E) ds (t_world t) w" "symbols_for obj n k sz blocks [0..<n] (c_quic kn, al) ds"
    using publish_symbols_ok [OF mal len, of "[0..<n]"] by blast
  with kn cl Some show ?thesis by (intro that [where a = a and w = w and ds = ds]) (auto simp: publish_datagram_conn_def)
qed

lemma map_filter_Cons: "List.map_filter f (x # xs) = (case f x of None \<Rightarrow> List.map_filter f xs | Some y \<Rightarrow> y # List.map_filter f xs)"
  by (simp add: List.map_filter_def split: option.splits)

lemma publish_datagram_conns_ok:
  assumes mal: "\<forall>n. e_malloc E n \<noteq> None" and cl: "\<forall>q w. e_is_closing E q w = closing q"
    and bl: "blocks_of n sz blocks"
  shows "\<exists>dss a w. publish_datagram_conns E obj n k sz xs blocks cs t = Inr (t\<lparr>t_arena := a, t_world := w\<rparr>) \<and>
    sends (e_time_ns E) (e_send_datagram_path E) (concat dss) (t_world t) w \<and>
    list_all2 (symbols_for obj n k sz blocks [0..<n]) (List.map_filter (target_of closing obj t) cs) dss"
proof (induction cs arbitrary: t)
  case Nil
  show ?case
    by (intro exI [of _ "[]"] exI [of _ "t_arena t"] exI [of _ "t_world t"])
      (simp add: sends_none List.map_filter_def)
next
  case (Cons c cs)
  obtain ds a w where c: "publish_datagram_conn E obj n k sz xs blocks c t = Inr (t\<lparr>t_arena := a, t_world := w\<rparr>)"
    "sends (e_time_ns E) (e_send_datagram_path E) ds (t_world t) w"
    "case target_of closing obj t c of None \<Rightarrow> ds = [] | Some tgt \<Rightarrow> symbols_for obj n k sz blocks [0..<n] tgt ds"
    by (rule publish_datagram_conn_ok [OF mal cl bl], rule that)
  let ?t1 = "t\<lparr>t_arena := a, t_world := w\<rparr>"
  have "same_conns t ?t1" by (simp add: same_conns_def same_group_def)
  note tgt = target_of_same_conns [OF this, of closing obj]
  obtain dss a' w' where IH: "publish_datagram_conns E obj n k sz xs blocks cs ?t1 = Inr (t\<lparr>t_arena := a', t_world := w'\<rparr>)"
    "sends (e_time_ns E) (e_send_datagram_path E) (concat dss) w w'"
    "list_all2 (symbols_for obj n k sz blocks [0..<n]) (List.map_filter (target_of closing obj t) cs) dss"
    using Cons.IH [of ?t1] unfolding tgt by auto
  let ?dss = "if target_of closing obj t c = None then dss else ds # dss"
  have "publish_datagram_conns E obj n k sz xs blocks (c # cs) t = Inr (t\<lparr>t_arena := a', t_world := w'\<rparr>)"
    using c(1) IH(1) by simp
  moreover have "sends (e_time_ns E) (e_send_datagram_path E) (concat ?dss) (t_world t) w'"
    using sends_append [OF c(2) IH(2)] c(3) by (cases "target_of closing obj t c") auto
  moreover have "list_all2 (symbols_for obj n k sz blocks [0..<n]) (List.map_filter (target_of closing obj t) (c # cs)) ?dss"
    using c(3) IH(3) by (auto simp: map_filter_Cons split: option.splits)
  ultimately show ?case by blast
qed

section \<open>Publishing an object as datagrams\<close>

text \<open>
  Enough memory: the arena has room for the symbols of one object (its 16 MiB hold them a dozen times
  over), the heap serves the packet buffers when the arena is full, and the codec's tables can be made.
\<close>

definition send_ready :: "('rs, 'rq, 'sc, 'w) env \<Rightarrow> nat \<Rightarrow> nat \<Rightarrow> nat \<Rightarrow> ('rs, 'w) transport \<Rightarrow> bool" where
  "send_ready E k m sz t \<longleftrightarrow>
     arena_room ((k + m) * (sz + 22) + 14) t \<and> sz \<le> 65535 \<and> k + m \<le> 255 \<and>
     (\<forall>n. e_malloc E n \<noteq> None) \<and> (\<forall>n. e_alloc E n) \<and>
     rs_mds (e_fec E) \<and> (0 < m \<longrightarrow> rs_new (e_fec E) k m \<noteq> None) \<and> fec_cache_inv (e_fec E) (t_fec_cache t)"

lemma publish_arrays_room:
  assumes room: "arena_room (k * 8 + 7 + (m * 8 + 7 + r)) t" and km: "k + m \<le> 255"
  obtains a where "publish_arrays E k m t = Inr (t\<lparr>t_arena := a\<rparr>)" "arena_room r (t\<lparr>t_arena := a\<rparr>)"
proof -
  have big: "k * 8 \<le> 2 ^ 62" "m * 8 \<le> 2 ^ 62" using km by simp_all
  obtain a1 where a1: "arena_get E (k * 8) t = (Some (replicate (k * 8) 0), t\<lparr>t_arena := a1\<rparr>)"
    "arena_room (m * 8 + 7 + r) (t\<lparr>t_arena := a1\<rparr>)"
    by (rule arena_get_room [OF room big(1)], rule that)
  obtain a2 where a2: "arena_get E (m * 8) (t\<lparr>t_arena := a1\<rparr>) = (Some (replicate (m * 8) 0), t\<lparr>t_arena := a1, t_arena := a2\<rparr>)"
    "arena_room r (t\<lparr>t_arena := a1, t_arena := a2\<rparr>)"
    by (rule arena_get_room [OF a1(2) big(2)], rule that)
  show ?thesis by (rule that [of a2]) (use a1 a2 in \<open>simp_all add: publish_arrays_def\<close>)
qed

lemma publish_plan_state:
  assumes "publish_plan E obj sz k t = (ty, m, xs, t1)"
  obtains r where "t1 = t\<lparr>t_rr_path := r\<rparr>"
proof -
  have "t1 = t \<or> t1 = t\<lparr>t_rr_path := t_rr_path t + 1\<rparr>"
    using assms by (auto simp: publish_plan_def Let_def split: if_splits)
  moreover have "t = t\<lparr>t_rr_path := t_rr_path t\<rparr>" by simp
  ultimately show ?thesis using that by metis
qed

lemma publish_datagrams_run:
  assumes sz: "sz = publish_symbol_size E" and k: "k = publish_data_symbols sz (length (ob_data obj))"
    and plan: "publish_plan E obj sz k t = (ty, m, xs, t1)" and ready: "send_ready E k m sz t"
    and cl: "\<forall>q w. e_is_closing E q w = closing q"
  obtains t5 dss a w where
    "publish_datagrams E obj t = Inr (let t7 = remember_sent E obj (k + m) k sz (t5\<lparr>t_arena := a, t_world := w\<rparr>)
       in t7\<lparr>t_arena := snd (arena_reset (t_arena t7))\<rparr>)"
    "sends (e_time_ns E) (e_send_datagram_path E) (concat dss) (t_world t5) w" "t_world t5 \<in> {t_world t, snd (e_time_ns E (t_world t))}"
    "list_all2 (symbols_for obj (k + m) k sz (object_symbols (e_fec E) k m sz (ob_data obj)) [0..<k + m])
       (targets closing obj t) dss"
    "same_conns t t5" "t_sent_cache t5 = t_sent_cache t" "t_sent_cache_index t5 = t_sent_cache_index t"
    "fec_cache_inv (e_fec E) (t_fec_cache t5)"
proof -
  note R = ready [unfolded send_ready_def]
  let ?cw = "object_symbols (e_fec E) k m sz (ob_data obj)"
  obtain r where t1: "t1 = t\<lparr>t_rr_path := r\<rparr>" by (rule publish_plan_state [OF plan], rule that)
  have "arena_room (k * 8 + 7 + (m * 8 + 7 + (k * (sz + 7) + (m * (sz + 7) + 0)))) t1"
    using R by (auto simp: t1 arena_room_def algebra_simps)
  then obtain a1 where a1: "publish_arrays E k m t1 = Inr (t1\<lparr>t_arena := a1\<rparr>)"
    "arena_room (k * (sz + 7) + (m * (sz + 7) + 0)) (t1\<lparr>t_arena := a1\<rparr>)"
    using publish_arrays_room R by blast
  have big: "sz \<le> 2 ^ 62" using R by simp
  obtain a2 where a2: "publish_blocks E (ob_data obj) sz [0..<k] (t1\<lparr>t_arena := a1\<rparr>) =
      Inr (map (data_block (ob_data obj) (length (ob_data obj)) sz) [0..<k], t1\<lparr>t_arena := a2\<rparr>)"
    "arena_room (m * (sz + 7) + 0) (t1\<lparr>t_arena := a2\<rparr>)"
    using publish_blocks_room [of "[0..<k]" sz "m * (sz + 7) + 0" "t1\<lparr>t_arena := a1\<rparr>" E "ob_data obj"] a1(2) big by auto
  obtain a3 where a3: "publish_parity E sz m (t1\<lparr>t_arena := a2\<rparr>) = Inr (replicate m (replicate sz 0), t1\<lparr>t_arena := a3\<rparr>)"
    using publish_parity_room [OF a2(2) big, of E] by auto
  let ?t4 = "t1\<lparr>t_arena := a3\<rparr>"
  have inv: "fec_cache_inv (e_fec E) (t_fec_cache ?t4)" using R by (simp add: t1)
  obtain d p w5 c5 where e: "publish_encode E ty k m sz (map (data_block (ob_data obj) (length (ob_data obj)) sz) [0..<k])
      (replicate m (replicate sz 0)) ?t4 = Inr (d, p, ?t4\<lparr>t_world := w5, t_fec_cache := c5\<rparr>)" "d @ p = ?cw"
    "w5 \<in> {t_world ?t4, snd (e_time_ns E (t_world ?t4))}" "fec_cache_inv (e_fec E) c5"
    by (rule publish_encode_ok [of E m k, OF _ _ _ inv]) (use R in auto)
  let ?t5 = "?t4\<lparr>t_world := w5, t_fec_cache := c5\<rparr>"
  have same: "same_conns t ?t5" by (simp add: t1 same_conns_def same_group_def)
  have bl: "blocks_of (k + m) sz ?cw" using object_symbols_codeword(2) R by blast
  obtain dss a w where s: "publish_datagram_conns E obj (k + m) k sz xs ?cw (active_conns ?t5) ?t5 =
      Inr (?t5\<lparr>t_arena := a, t_world := w\<rparr>)" "sends (e_time_ns E) (e_send_datagram_path E) (concat dss) (t_world ?t5) w"
    "list_all2 (symbols_for obj (k + m) k sz ?cw [0..<k + m]) (List.map_filter (target_of closing obj ?t5) (active_conns ?t5)) dss"
    using publish_datagram_conns_ok [OF _ cl bl] R by blast
  show ?thesis
  proof (rule that [where ?t5.0 = ?t5 and dss = dss and a = a and w = w])
    show "publish_datagrams E obj t = Inr (let t7 = remember_sent E obj (k + m) k sz (?t5\<lparr>t_arena := a, t_world := w\<rparr>)
       in t7\<lparr>t_arena := snd (arena_reset (t_arena t7))\<rparr>)"
      using a1(1) a2(1) a3 e(1,2) s(1) plan by (simp add: publish_datagrams_def Let_def sz [symmetric] k [symmetric])
    show "list_all2 (symbols_for obj (k + m) k sz ?cw [0..<k + m]) (targets closing obj t) dss"
      using s(3) by (simp only: targets_def target_of_same_conns [OF same] active_conns_same_conns [OF same])
  qed (use s e same in \<open>simp_all add: t1\<close>)
qed

text \<open>
  C6. Publishing sends the code word. An object published as datagrams with at most 255 symbols is
  cut into data symbols that hold it, completed to a Reed-Solomon code word, and every open connection
  whose table has the track (and, on a server, that subscribed) is sent each symbol exactly once, in
  order, behind a header that numbers the symbol and describes the object; nothing else is sent.
\<close>

theorem publish_sends_code_word:
  assumes "sz = publish_symbol_size E" and "k = publish_data_symbols sz (length (ob_data obj))"
    and "publish_plan E obj sz k t = (ty, m, xs, t1)" and "send_ready E k m sz t"
    and "\<forall>q w. e_is_closing E q w = closing q"
  shows "\<exists>t' w dss data cw. publish_datagrams E obj t = Inr t' \<and>
    rs_codeword (e_fec E) k m sz data cw \<and> take (length (ob_data obj)) (concat data) = ob_data obj \<and>
    w \<in> {t_world t, snd (e_time_ns E (t_world t))} \<and>
    sends (e_time_ns E) (e_send_datagram_path E) (concat dss) w (t_world t') \<and>
    list_all2 (symbols_for obj (k + m) k sz cw [0..<k + m]) (targets closing obj t) dss"
proof -
  obtain t5 dss a w where run: "publish_datagrams E obj t =
       Inr (let t7 = remember_sent E obj (k + m) k sz (t5\<lparr>t_arena := a, t_world := w\<rparr>)
       in t7\<lparr>t_arena := snd (arena_reset (t_arena t7))\<rparr>)"
    and s: "sends (e_time_ns E) (e_send_datagram_path E) (concat dss) (t_world t5) w"
    "t_world t5 \<in> {t_world t, snd (e_time_ns E (t_world t))}"
    "list_all2 (symbols_for obj (k + m) k sz (object_symbols (e_fec E) k m sz (ob_data obj)) [0..<k + m])
       (targets closing obj t) dss"
    by (rule publish_datagrams_run [OF assms], rule that)
  have "1000 \<le> sz" using assms(1) by (simp add: publish_symbol_size_def Let_def)
  then have "length (ob_data obj) \<le> k * sz" using assms(2) publish_data_symbols_enough [of sz] by simp
  note data = concat_data_blocks [OF this]
  have "rs_codeword (e_fec E) k m sz (map (data_block (ob_data obj) (length (ob_data obj)) sz) [0..<k])
      (object_symbols (e_fec E) k m sz (ob_data obj))"
    using assms(4) unfolding send_ready_def by (intro object_symbols_codeword(1)) simp_all
  moreover have "t_world (remember_sent E obj (k + m) k sz t) = t_world t" for t by (simp add: remember_sent_def)
  ultimately show ?thesis using run s data by (auto simp: Let_def)
qed

text \<open>A client with one connection, subscribed to the track of a one-symbol object.\<close>

definition sender_env :: "(nat, nat, unit, trace_world) env" where
  "sender_env = trace_env\<lparr>e_malloc := (\<lambda>_. Some 0), e_is_closing := (\<lambda>_ _. False)\<rparr>"

definition demo_sender :: "(nat, trace_world) transport" where
  "demo_sender = (blank_transport empty_trace)\<lparr>t_client_conn := Some 0,
     t_heap := [0 \<mapsto> (new_conn 7)\<lparr>c_subscriptions := snd (subscribe_alias empty_subs demo_data_track)\<rparr>],
     t_arena := \<lparr>ar_buffer = (\<lambda>_. 0), ar_capacity = 16777216, ar_offset = 0, ar_fallbacks = []\<rparr>\<rparr>"

definition demo_object :: moq_object where
  "demo_object = \<lparr>ob_track = demo_data_track, ob_group_id = 0, ob_object_id = 9, ob_data = [44, 45],
     ob_is_keyframe = False, ob_priority = 1\<rparr>"

lemma demo_plan:
  "publish_symbol_size sender_env = 1200" "publish_data_symbols 1200 (length (ob_data demo_object)) = 1"
  "\<exists>xs t1. publish_plan sender_env demo_object 1200 1 demo_sender = (FEC_REED_SOLOMON, 0, xs, t1)"
  by (simp_all add: publish_symbol_size_def sender_env_def trace_env_def publish_data_symbols_def
      demo_object_def publish_plan_def Let_def)

lemma demo_send_ready: "send_ready sender_env 1 0 1200 demo_sender"
  using repetition_rs_mds empty_fec_cache_inv [of repetition_lib]
  by (simp add: send_ready_def sender_env_def trace_env_def demo_sender_def blank_transport_def
      arena_room_def arena_inv_def)

lemma demo_targets: "targets (\<lambda>_. False) demo_object demo_sender = [(7, 8)]"
  by code_simp

theorem publish_sends_code_word_witness:
  "\<exists>t' w ds cw. publish_datagrams sender_env demo_object demo_sender = Inr t' \<and>
     take 2 (cw ! 0) = [44, 45] \<and> sends (e_time_ns sender_env) (e_send_datagram_path sender_env) ds w (t_world t') \<and>
     symbols_for demo_object 1 1 1200 cw [0] (7, 8) ds"
proof -
  obtain xs t1 where plan: "publish_plan sender_env demo_object 1200 1 demo_sender = (FEC_REED_SOLOMON, 0, xs, t1)"
    using demo_plan(3) by blast
  have "\<forall>q w. e_is_closing sender_env q w = False" by (simp add: sender_env_def)
  from publish_sends_code_word [OF demo_plan(1) [symmetric] demo_plan(2) [symmetric] plan demo_send_ready this]
  obtain t' w dss data cw where r: "publish_datagrams sender_env demo_object demo_sender = Inr t'"
    "rs_codeword (e_fec sender_env) 1 0 1200 data cw" "take (length (ob_data demo_object)) (concat data) = ob_data demo_object"
    "sends (e_time_ns sender_env) (e_send_datagram_path sender_env) (concat dss) w (t_world t')"
    "list_all2 (symbols_for demo_object (1 + 0) 1 1200 cw [0..<1 + 0]) (targets (\<lambda>_. False) demo_object demo_sender) dss"
    by blast
  from r(2) obtain b where "data = [b]" "cw = [b]" "length b = 1200"
    by (auto simp: rs_codeword_def blocks_of_def length_Suc_conv)
  moreover from r(5) obtain ds where "dss = [ds]" "symbols_for demo_object 1 1 1200 cw [0] (7, 8) ds"
    unfolding demo_targets by (auto simp: list_all2_Cons1)
  moreover from calculation r(3) have "take 2 (cw ! 0) = [44, 45]"
    by (simp add: demo_object_def numeral_2_eq_2)
  moreover from calculation r(4) have "sends (e_time_ns sender_env) (e_send_datagram_path sender_env) ds w (t_world t')"
    by simp
  ultimately show ?thesis using r(1) by blast
qed

end
