(* ===== verification/Retransmit.thy ===== *)
theory Retransmit
  imports Sending
begin

text \<open>
  Retransmission. The ring of sent data objects keeps the last 32 of them, and a request for missing
  symbols of one of them is answered with exactly the requested symbols of the code word that was sent
  in the first place, under headers of the same object.
\<close>

section \<open>The ring\<close>

text \<open>The entry an object leaves in the ring.\<close>

definition sent_of :: "moq_object \<Rightarrow> nat \<Rightarrow> nat \<Rightarrow> nat \<Rightarrow> sent_object" where
  "sent_of obj n k sz = \<lparr>se_track = ob_track obj, se_group_id = ucast (ob_group_id obj),
     se_object_id = ucast (ob_object_id obj), se_data = Some (ob_data obj), se_size = length (ob_data obj),
     se_priority = ob_priority obj, se_is_keyframe = ob_is_keyframe obj, se_total_symbols = of_nat n,
     se_data_symbols = of_nat k, se_symbol_size = of_nat sz\<rparr>"

definition ring_inv :: "('rs, 'w) transport \<Rightarrow> bool" where
  "ring_inv t \<longleftrightarrow> length (t_sent_cache t) = SENT_CACHE_SIZE \<and> t_sent_cache_index t < SENT_CACHE_SIZE"

text \<open>The objects in the ring, the oldest first.\<close>

definition ring_view :: "('rs, 'w) transport \<Rightarrow> sent_object list" where
  "ring_view t = drop (t_sent_cache_index t) (t_sent_cache t) @ take (t_sent_cache_index t) (t_sent_cache t)"

lemma remember_sent_data:
  assumes "tk_type (ob_track obj) = MOQ_TRACK_DATA" and "\<forall>n. e_alloc E n"
  shows "remember_sent E obj n k sz t = t\<lparr>t_sent_cache := (t_sent_cache t)[t_sent_cache_index t := sent_of obj n k sz],
     t_sent_cache_index := (t_sent_cache_index t + 1) mod SENT_CACHE_SIZE\<rparr>"
  using assms by (simp add: remember_sent_def sent_of_def)

lemma ring_rotate: "i < length xs \<Longrightarrow> drop (Suc i) xs @ take (Suc i) (xs[i := x]) = tl (drop i xs @ take i xs) @ [x]"
  by (simp add: take_Suc_conv_app_nth drop_Suc tl_drop)

text \<open>Remembering an object drops the oldest entry and appends the new one.\<close>

lemma remember_sent_ring:
  assumes "ring_inv t" "tk_type (ob_track obj) = MOQ_TRACK_DATA" "\<forall>n. e_alloc E n"
  shows "ring_view (remember_sent E obj n k sz t) = tl (ring_view t) @ [sent_of obj n k sz]"
    and "ring_inv (remember_sent E obj n k sz t)"
proof -
  let ?i = "t_sent_cache_index t" and ?xs = "t_sent_cache t" and ?e = "sent_of obj n k sz"
  have i: "?i < length ?xs" "length ?xs = SENT_CACHE_SIZE" using assms(1) by (simp_all add: ring_inv_def)
  show "ring_inv (remember_sent E obj n k sz t)"
    using assms(1) by (simp add: remember_sent_data [OF assms(2,3)] ring_inv_def SENT_CACHE_SIZE_def)
  show "ring_view (remember_sent E obj n k sz t) = tl (ring_view t) @ [sent_of obj n k sz]"
  proof (cases "Suc ?i = SENT_CACHE_SIZE")
    case True
    then have "drop (Suc ?i) ?xs = []" "take (Suc ?i) (?xs[?i := ?e]) = ?xs[?i := ?e]" using i by simp_all
    with ring_rotate [OF i(1), of ?e] True show ?thesis
      by (simp add: remember_sent_data [OF assms(2,3)] ring_view_def)
  next
    case False
    then have "Suc ?i mod SENT_CACHE_SIZE = Suc ?i" using i by simp
    with ring_rotate [OF i(1), of ?e] show ?thesis
      by (simp add: remember_sent_data [OF assms(2,3)] ring_view_def)
  qed
qed

text \<open>Objects published one after the other, each with its numbers of symbols.\<close>

fun remember_all ::
  "('rs, 'rq, 'sc, 'w) env \<Rightarrow> (moq_object \<times> nat \<times> nat \<times> nat) list \<Rightarrow> ('rs, 'w) transport \<Rightarrow> ('rs, 'w) transport" where
  "remember_all E [] t = t"
| "remember_all E ((obj, n, k, sz) # os) t = remember_all E os (remember_sent E obj n k sz t)"

lemma ring_view_length: "ring_inv t \<Longrightarrow> length (ring_view t) = SENT_CACHE_SIZE"
  by (simp add: ring_inv_def ring_view_def)

section \<open>Answering a request\<close>

lemma resend_header_publish:
  "resend_header al (sent_of obj n k sz) s now = publish_header obj al (unat s) n k sz 0 now"
  by (simp add: resend_header_def sent_of_def publish_header_def)

lemma resend_blocks_publish:
  assumes "k + m \<le> 255" "sz < 65536"
  shows "resend_blocks E (sent_of obj (k + m) k sz) (ob_data obj) t =
    publish_encode E FEC_REED_SOLOMON k m sz
      (map (data_block (ob_data obj) (length (ob_data obj)) sz) [0..<k]) (replicate m (replicate sz 0)) t"
proof -
  have u: "unat (of_nat k :: u16) = k" "unat (of_nat (k + m) :: u16) = k + m" "unat (of_nat sz :: u16) = sz"
    using assms by (simp_all add: unat_of_nat del: of_nat_add)
  have c: "ucast w = (of_nat (unat w) :: u64)" for w :: u16 by simp
  have "unat ((ucast (of_nat (k + m) :: u16) :: u64) - ucast (of_nat k :: u16)) = m"
    unfolding c u using assms by (simp add: unat_of_nat)
  then show ?thesis
    using assms u unfolding resend_blocks_def sent_of_def publish_encode_def Let_def
    by (auto split: prod.splits option.splits)
qed

lemma resend_symbols_ok:
  assumes n: "n \<le> 255" and k: "length d = k" "k \<le> n" and cw: "d @ p = cw" and sz: "sz \<le> 2016"
  shows "\<exists>ds w. resend_symbols E q al (sent_of obj n k sz) d p ss t = Inr (t\<lparr>t_world := w\<rparr>) \<and>
    sends (e_time_ns E) (\<lambda>q pid. e_send_datagram E q) ds (t_world t) w \<and>
    symbols_for obj n k sz cw (map unat (filter (\<lambda>s. unat s < n) ss)) (q, al) ds"
proof (induction ss arbitrary: t)
  case Nil
  show ?case
    by (intro exI [of _ "[]"] exI [of _ "t_world t"]) (simp add: sends_none symbols_for_def)
next
  case (Cons s ss)
  let ?e = "sent_of obj n k sz"
  have u: "unat (of_nat k :: u16) = k" "unat (of_nat n :: u16) = n" "unat (of_nat sz :: u16) = sz"
    using n k sz by (simp_all add: unat_of_nat)
  have le: "se_total_symbols ?e \<le> s \<longleftrightarrow> n \<le> unat s" by (simp add: sent_of_def word_le_nat_alt u)
  show ?case
  proof (cases "n \<le> unat s")
    case True
    with Cons.IH [of t] le show ?thesis by simp
  next
    case False
    obtain now w1 where clk: "e_time_ns E (t_world t) = (now, w1)" by force
    let ?h = "publish_header obj al (unat s) n k sz 0 now"
    let ?body = "cw ! unat s"
    let ?w2 = "e_send_datagram E q (dgram_bytes (?h, ?body)) w1"
    have body: "(if unat s < unat (se_data_symbols ?e) then d ! unat s else p ! (unat s - unat (se_data_symbols ?e))) = ?body"
      using k cw by (auto simp: sent_of_def u nth_append)
    have room: "\<not> 2048 < FEC_HEADER_SIZE + unat (se_symbol_size ?e)"
      using sz by (simp add: sent_of_def u FEC_HEADER_SIZE_def)
    have now: "h_send_time_ns ?h = now" by (simp add: publish_header_def)
    obtain ds w where IH: "resend_symbols E q al ?e d p ss (t\<lparr>t_world := ?w2\<rparr>) = Inr (t\<lparr>t_world := ?w2, t_world := w\<rparr>)"
      "sends (e_time_ns E) (\<lambda>q pid. e_send_datagram E q) ds ?w2 w"
      "symbols_for obj n k sz cw (map unat (filter (\<lambda>s. unat s < n) ss)) (q, al) ds"
      using Cons.IH [of "t\<lparr>t_world := ?w2\<rparr>"] by auto
    have "resend_symbols E q al ?e d p (s # ss) t = Inr (t\<lparr>t_world := w\<rparr>)"
      using IH(1) clk le False room by (simp add: Let_def body resend_header_publish dgram_bytes_def)
    moreover have "sends (e_time_ns E) (\<lambda>q pid. e_send_datagram E q) ((q, 0, ?h, ?body) # ds) (t_world t) w"
      using clk now IH(2) by (intro sends_one) simp_all
    moreover have "symbols_for obj n k sz cw (map unat (filter (\<lambda>s. unat s < n) (s # ss))) (q, al) ((q, 0, ?h, ?body) # ds)"
      using IH(3) now False by (simp add: symbols_for_def)
    ultimately show ?thesis by blast
  qed
qed

lemma sent_matches_sent_of:
  "tk_type tr = tk_type (ob_track obj) \<Longrightarrow> tk_name tr = tk_name (ob_track obj) \<Longrightarrow>
   sent_matches tr (ucast (ob_group_id obj)) (ucast (ob_object_id obj)) (sent_of obj n k sz)"
  by (simp add: sent_matches_def sent_of_def)

text \<open>The ring holds the object, and no other object under its number.\<close>

definition ring_holds :: "('rs, 'w) transport \<Rightarrow> moq_object \<Rightarrow> nat \<Rightarrow> nat \<Rightarrow> nat \<Rightarrow> bool" where
  "ring_holds t obj n k sz \<longleftrightarrow>
     sent_of obj n k sz \<in> set (ring_view t) \<and>
     (\<forall>e \<in> set (ring_view t). sent_matches (ob_track obj) (ucast (ob_group_id obj)) (ucast (ob_object_id obj)) e \<longrightarrow>
        e = sent_of obj n k sz)"

lemma set_ring_view: "set (ring_view t) = set (t_sent_cache t)"
  unfolding ring_view_def set_append by (metis append_take_drop_id set_append sup_commute)

lemma ring_lookup:
  assumes holds: "ring_holds t obj n k sz" and tr: "tk_type tr = tk_type (ob_track obj)" "tk_name tr = tk_name (ob_track obj)"
  obtains i where "find_index (sent_matches tr (ucast (ob_group_id obj)) (ucast (ob_object_id obj))) (t_sent_cache t) = Some i"
    "t_sent_cache t ! i = sent_of obj n k sz"
proof -
  let ?P = "sent_matches tr (ucast (ob_group_id obj)) (ucast (ob_object_id obj))"
  have P: "?P = sent_matches (ob_track obj) (ucast (ob_group_id obj)) (ucast (ob_object_id obj))"
    using tr by (simp add: sent_matches_def fun_eq_iff)
  have "sent_of obj n k sz \<in> set (t_sent_cache t)" using holds by (simp add: ring_holds_def set_ring_view)
  then have "find_index ?P (t_sent_cache t) \<noteq> None"
    using sent_matches_sent_of [OF tr] by (auto simp: scan_simps)
  then obtain i where i: "find_index ?P (t_sent_cache t) = Some i" by auto
  from find_index_SomeD [OF i] holds have "t_sent_cache t ! i = sent_of obj n k sz"
    by (simp add: ring_holds_def set_ring_view P)
  with i show ?thesis by (rule that)
qed

section \<open>Properties\<close>

text \<open>
  C14. The ring of sent objects is a queue of 32: publishing data objects one after the other leaves in
  it the last 32 of the entries it had and the new ones, in order.
\<close>

theorem sent_ring_keeps_last:
  assumes "ring_inv t" and "\<forall>n. e_alloc E n"
    and "\<forall>x \<in> set os. tk_type (ob_track (fst x)) = MOQ_TRACK_DATA"
  shows "ring_view (remember_all E os t) =
      drop (length os) (ring_view t @ map (\<lambda>(obj, n, k, sz). sent_of obj n k sz) os) \<and>
    length (ring_view (remember_all E os t)) = SENT_CACHE_SIZE"
  using assms(1,3)
proof (induction os arbitrary: t)
  case Nil
  then show ?case by (simp add: ring_view_length)
next
  case (Cons x os)
  obtain obj n k sz where x: "x = (obj, n, k, sz)" by (cases x)
  have d: "tk_type (ob_track obj) = MOQ_TRACK_DATA" using Cons.prems(2) x by simp
  note r = remember_sent_ring [OF Cons.prems(1) d assms(2), of n k sz]
  have "ring_view t \<noteq> []" using ring_view_length [OF Cons.prems(1)] by (auto simp: SENT_CACHE_SIZE_def)
  then have shift: "drop (length os) ((tl (ring_view t) @ [sent_of obj n k sz]) @ ys) =
      drop (Suc (length os)) (ring_view t @ sent_of obj n k sz # ys)" for ys
    by (cases "ring_view t") simp_all
  have "\<forall>x \<in> set os. tk_type (ob_track (fst x)) = MOQ_TRACK_DATA" using Cons.prems(2) by simp
  from Cons.IH [OF r(2) this] show ?case
    unfolding r(1) shift x remember_all.simps length_Cons list.map prod.case .
qed

theorem sent_ring_keeps_last_witness:
  "ring_view (remember_all sender_env [(demo_object, 1, 1, 1200)] demo_sender) =
     replicate 31 empty_sent @ [sent_of demo_object 1 1 1200]"
proof -
  have "ring_inv demo_sender"
    by (simp add: ring_inv_def demo_sender_def blank_transport_def SENT_CACHE_SIZE_def)
  moreover have "\<forall>n. e_alloc sender_env n" by (simp add: sender_env_def trace_env_def)
  moreover have "ring_view demo_sender = replicate 32 empty_sent"
    by (simp add: ring_view_def demo_sender_def blank_transport_def SENT_CACHE_SIZE_def)
  ultimately show ?thesis
    using sent_ring_keeps_last [of demo_sender sender_env "[(demo_object, 1, 1, 1200)]"]
    by (simp add: demo_object_def demo_data_track_def)
qed

text \<open>
  C5. Retransmission answers with the code word. As long as the ring holds an object published with at
  most 255 symbols of at most 2016 bytes, a request that names it (by an alias of its track, its group
  and its number) is answered, on the requesting connection, with one datagram for each requested index
  below the number of symbols, in the order of the request: the symbol of the object's code word under
  a header of the object. Nothing faults and nothing else is sent.
\<close>

theorem nack_resends_code_word:
  assumes "ring_holds t obj (k + m) k sz" and "k + m \<le> 255" and "sz \<le> 2016"
    and "rs_mds (e_fec E)" and "m = 0 \<or> rs_new (e_fec E) k m \<noteq> None" and "\<forall>n. e_alloc E n"
    and "fec_cache_inv (e_fec E) (t_fec_cache t)"
    and "find_subscription_by_alias (c_subscriptions kn) al (e_uninit_track E) = Some tr"
    and "tk_type tr = tk_type (ob_track obj)" and "tk_name tr = tk_name (ob_track obj)"
  shows "\<exists>t' w ds. ctl_nack_reply E kn al (ucast (ob_group_id obj)) (ucast (ob_object_id obj)) missing t = Inr t' \<and>
    w \<in> {t_world t, snd (e_time_ns E (t_world t))} \<and>
    sends (e_time_ns E) (\<lambda>q pid. e_send_datagram E q) ds w (t_world t') \<and>
    symbols_for obj (k + m) k sz (object_symbols (e_fec E) k m sz (ob_data obj))
      (map unat (filter (\<lambda>s. unat s < k + m) missing)) (c_quic kn, al) ds"
proof -
  let ?e = "sent_of obj (k + m) k sz"
  obtain i where i: "find_index (sent_matches tr (ucast (ob_group_id obj)) (ucast (ob_object_id obj))) (t_sent_cache t) = Some i"
    "t_sent_cache t ! i = ?e"
    by (rule ring_lookup [OF assms(1,9,10)], rule that)
  have new: "0 < m \<Longrightarrow> rs_new (e_fec E) k m \<noteq> None" using assms(5) by auto
  have sz: "sz < 65536" using assms(3) by simp
  obtain d p w cache where e: "publish_encode E FEC_REED_SOLOMON k m sz (map (data_block (ob_data obj) (length (ob_data obj)) sz) [0..<k])
      (replicate m (replicate sz 0)) t = Inr (d, p, t\<lparr>t_world := w, t_fec_cache := cache\<rparr>)"
    "d @ p = object_symbols (e_fec E) k m sz (ob_data obj)" "length d = k"
    "w \<in> {t_world t, snd (e_time_ns E (t_world t))}"
    by (rule publish_encode_ok [OF assms(4) _ assms(6,7,2)], erule new, rule that)
  let ?t1 = "t\<lparr>t_world := w, t_fec_cache := cache\<rparr>"
  obtain ds w' where r: "resend_symbols E (c_quic kn) al ?e d p missing ?t1 = Inr (?t1\<lparr>t_world := w'\<rparr>)"
    "sends (e_time_ns E) (\<lambda>q pid. e_send_datagram E q) ds w w'"
    "symbols_for obj (k + m) k sz (object_symbols (e_fec E) k m sz (ob_data obj))
      (map unat (filter (\<lambda>s. unat s < k + m) missing)) (c_quic kn, al) ds"
    using resend_symbols_ok [OF assms(2) e(3) _ e(2) assms(3), of E "c_quic kn" al obj missing ?t1] by auto
  have "se_data ?e = Some (ob_data obj)" by (simp add: sent_of_def)
  with i e(1) [folded resend_blocks_publish [OF assms(2) sz]] r(1) assms(8)
  have "ctl_nack_reply E kn al (ucast (ob_group_id obj)) (ucast (ob_object_id obj)) missing t = Inr (?t1\<lparr>t_world := w'\<rparr>)"
    by (simp add: ctl_nack_reply_def Let_def)
  with e(4) r(2,3) show ?thesis by (auto intro!: exI [of _ w])
qed

theorem nack_resends_code_word_witness:
  "\<exists>t' w ds. ctl_nack_reply sender_env
       ((new_conn 7)\<lparr>c_subscriptions := snd (subscribe_alias empty_subs demo_data_track)\<rparr>) 8 0 9 [0, 3]
       (remember_sent sender_env demo_object 1 1 1200 demo_sender) = Inr t' \<and>
     sends (e_time_ns sender_env) (\<lambda>q pid. e_send_datagram sender_env q) ds w (t_world t') \<and>
     symbols_for demo_object 1 1 1200 (object_symbols repetition_lib 1 0 1200 [44, 45]) [0] (7, 8) ds"
proof -
  let ?k = "(new_conn 7)\<lparr>c_subscriptions := snd (subscribe_alias empty_subs demo_data_track)\<rparr>"
  let ?t = "remember_sent sender_env demo_object 1 1 1200 demo_sender"
  have al: "\<forall>n. e_alloc sender_env n" by (simp add: sender_env_def trace_env_def)
  have dt: "tk_type (ob_track demo_object) = MOQ_TRACK_DATA" by (simp add: demo_object_def demo_data_track_def)
  have "replicate 32 empty_sent = empty_sent # replicate 31 empty_sent"
    using replicate_Suc [of 31 empty_sent] by simp
  then have cache: "t_sent_cache ?t = sent_of demo_object 1 1 1200 # replicate 31 empty_sent"
    by (simp add: remember_sent_data [OF dt al] demo_sender_def blank_transport_def SENT_CACHE_SIZE_def)
  have "ring_holds ?t demo_object (1 + 0) 1 1200"
    unfolding ring_holds_def set_ring_view add_0_right cache by (simp add: sent_matches_def empty_sent_def)
  moreover have "find_subscription_by_alias (snd (subscribe_alias empty_subs demo_data_track)) 8 zero_track = Some demo_data_track"
    by code_simp
  then have "find_subscription_by_alias (c_subscriptions ?k) 8 (e_uninit_track sender_env) = Some demo_data_track"
    by (simp add: sender_env_def trace_env_def)
  moreover have "fec_cache_inv (e_fec sender_env) (t_fec_cache ?t)"
    using empty_fec_cache_inv by (simp add: remember_sent_data [OF dt al] demo_sender_def blank_transport_def)
  moreover have "e_fec sender_env = repetition_lib" by (simp add: sender_env_def trace_env_def)
  ultimately show ?thesis
    using nack_resends_code_word [of ?t demo_object 1 0 1200 sender_env ?k 8 demo_data_track "[0, 3]"] al repetition_rs_mds
    by (fastforce simp: demo_object_def demo_data_track_def new_conn_def)
qed

end
