(* ===== verification/Lifecycle.thy ===== *)
theory Lifecycle
  imports Tick Watcher Retransmit
begin

text \<open>
  \<^verbatim>\<open>transport_create\<close> and \<^verbatim>\<open>transport_destroy\<close>: memory, the interface monitor, binding the
  links, the TLS context, and a client's connection. The sockets are those of \<open>net\<close>; picotls, OpenSSL and quicly's
  connection set-up are further fields of the parameter record \<open>start_os\<close>. Setting constants in quicly's and
  picotls's contexts has no counterpart in the model.
\<close>

section \<open>Configuration and TLS\<close>

text \<open>\<^verbatim>\<open>transport_config_t\<close>; the host arrays are lists, of the length given by their counters.\<close>

record config =
  cf_bind_hosts :: "cstr list"
  cf_remote_hosts :: "cstr list"
  cf_port :: u16
  cf_cert_file :: "cstr option"
  cf_key_file :: "cstr option"
  cf_ca_file :: "cstr option"
  cf_verify_peer :: bool

text \<open>
  What the set-up leaves in the TLS context: a certificate to present, the verifier of the peer's
  certificate, and whether a client must present one. \<open>AcceptAny\<close> is \<^verbatim>\<open>verify_certificate_cb\<close>, which
  accepts every certificate.
\<close>

datatype verifier = AcceptAny | Verify

record tls_ctx =
  tls_certificate :: bool
  tls_verifier :: verifier
  tls_require_client_auth :: bool

text \<open>
  The blocks of memory that a transport owns: for each assembler of a connection its symbol buffers, the array of
  them, the mask and the array of missing indices; the connection itself; the data of a sent object, a FEC context, the
  arena and its fallbacks, the grouping buffer and the transport.
\<close>

datatype block =
    SymbolBuffer cptr nat nat
  | SlotBuffers cptr nat
  | SlotMask cptr nat
  | SlotMissing cptr nat
  | ConnObject cptr
  | SentData nat
  | FecContext nat
  | ArenaBuffer
  | ArenaFallback nat
  | FecBuffer
  | TransportObject

text \<open>
  \<open>s_pton4\<close> and \<open>s_pton6\<close> give the address a text denotes, zero if it denotes none, as
  \<^verbatim>\<open>inet_pton\<close> leaves it. \<open>s_pipe\<close> is a pipe whose two ends do not block. \<open>s_free\<close> releases a
  block (for a FEC context \<^verbatim>\<open>fec_destroy\<close>).
\<close>

record 'w start_os = "'w net" +
  s_calloc :: "'w \<Rightarrow> bool \<times> 'w"
  s_pipe :: "'w \<Rightarrow> (int \<times> int) option \<times> 'w"
  s_watch :: "'w watch_os"
  s_pton4 :: "cstr \<Rightarrow> u32"
  s_pton6 :: "cstr \<Rightarrow> bytes"
  s_load_certificates :: "cstr \<Rightarrow> 'w \<Rightarrow> bool \<times> 'w"
  s_open_key :: "cstr \<Rightarrow> 'w \<Rightarrow> bool \<times> 'w"
  s_read_key :: "'w \<Rightarrow> bool \<times> 'w"
  s_load_ca :: "cstr \<Rightarrow> 'w \<Rightarrow> bool \<times> 'w"
  s_init_verifier :: "bool \<Rightarrow> 'w \<Rightarrow> bool \<times> 'w"
  s_calloc_conn :: "'w \<Rightarrow> cptr"
  s_connect :: "cstr \<Rightarrow> sockaddr \<Rightarrow> sockaddr \<Rightarrow> 'w \<Rightarrow> qptr option \<times> 'w"
  s_set_data :: "qptr \<Rightarrow> cptr \<Rightarrow> 'w \<Rightarrow> 'w"
  s_dispose_verifier :: "'w \<Rightarrow> 'w"
  s_free :: "block \<Rightarrow> 'w \<Rightarrow> 'w"
  s_free_encryptor :: "'w \<Rightarrow> 'w"

definition load_certificate_and_key :: "'w start_os \<Rightarrow> cstr option \<Rightarrow> cstr option \<Rightarrow> 'w \<Rightarrow> bool \<times> 'w" where
  "load_certificate_and_key S cert_file key_file w =
     (case (cert_file, key_file) of
        (Some cert, Some key) \<Rightarrow>
          let (ok, w1) = s_load_certificates S cert w
          in if \<not> ok then (False, w1)
             else let (opened, w2) = s_open_key S key w1
                  in if \<not> opened then (False, w2) else s_read_key S w2
      | _ \<Rightarrow> (False, w))"

text \<open>The peer verification of the TLS context; \<open>None\<close> if it cannot be set up.\<close>

definition setup_verifier :: "'w start_os \<Rightarrow> config \<Rightarrow> bool \<Rightarrow> 'w \<Rightarrow> (verifier \<times> bool) option \<times> 'w" where
  "setup_verifier S cf is_server w =
     (if \<not> cf_verify_peer cf then (Some (AcceptAny, False), w)
      else
        let (ca_ok, w1) = (case cf_ca_file cf of None \<Rightarrow> (True, w) | Some ca \<Rightarrow> s_load_ca S ca w)
        in if \<not> ca_ok then (None, w1)
           else let (ok, w2) = s_init_verifier S (cf_ca_file cf \<noteq> None) w1
                in if \<not> ok then (None, w2) else (Some (Verify, is_server), w2))"

definition setup_tls :: "'w start_os \<Rightarrow> config \<Rightarrow> bool \<Rightarrow> 'w \<Rightarrow> tls_ctx option \<times> 'w" where
  "setup_tls S cf is_server w =
     (let wanted = (is_server \<or> cf_cert_file cf \<noteq> None \<and> cf_key_file cf \<noteq> None);
          (ok, w1) = (if wanted then load_certificate_and_key S (cf_cert_file cf) (cf_key_file cf) w else (True, w))
      in if \<not> ok then (None, w1)
         else case setup_verifier S cf is_server w1 of
                (None, w2) \<Rightarrow> (None, w2)
              | (Some (v, auth), w2) \<Rightarrow>
                  (Some \<lparr>tls_certificate = wanted, tls_verifier = v, tls_require_client_auth = auth\<rparr>, w2))"

section \<open>Links\<close>

text \<open>A host with a colon is an IPv6 address.\<close>

definition host_addr :: "'w start_os \<Rightarrow> cstr \<Rightarrow> u16 \<Rightarrow> sockaddr" where
  "host_addr S host port = (if 58 \<in> set host then SockIn6 (s_pton6 S host) port else SockIn (s_pton4 S host) port)"

text \<open>
  Binding the links: the flag is \<open>False\<close> when a socket cannot be opened or bound. An index beyond the
  arrays is a fault.
\<close>

fun bind_links :: "'w start_os \<Rightarrow> u16 \<Rightarrow> nat \<Rightarrow> cstr list \<Rightarrow> ('rs, 'w) transport \<Rightarrow> fault + bool \<times> ('rs, 'w) transport" where
  "bind_links S port i [] t = Inr (True, t)"
| "bind_links S port i (h # hs) t =
     (if TRANSPORT_MAX_PATHS \<le> i then Inl OutOfBounds
      else
        let addr = host_addr S h port;
            t1 = t\<lparr>t_local_addrs := (t_local_addrs t)[i := addr]\<rparr>
        in case n_socket S addr (t_world t) of
             (None, w1) \<Rightarrow> Inr (False, t1\<lparr>t_world := w1\<rparr>)
           | (Some fd, w1) \<Rightarrow>
               let (bound, w2) = n_bind S fd addr (n_reuse_addr S fd w1);
                   t2 = t1\<lparr>t_fds := (t_fds t)[i := fd]\<rparr>
               in if \<not> bound then Inr (False, t2\<lparr>t_world := w2\<rparr>)
                  else bind_links S port (i + 1) hs (t2\<lparr>t_world := n_nonblock S fd w2\<rparr>))"

section \<open>Creation\<close>

text \<open>A transport together with what its creation sets up around it.\<close>

record created =
  cr_tls :: tls_ctx
  cr_pipe :: "(int \<times> int) option"
  cr_watcher :: "watcher option"

definition start_monitor :: "'w start_os \<Rightarrow> 'w \<Rightarrow> ((int \<times> int) \<times> watcher) option \<times> 'w" where
  "start_monitor S w =
     (case s_pipe S w of
        (None, w1) \<Rightarrow> (None, w1)
      | (Some p, w1) \<Rightarrow> let (started, wt, w2) = ifmon_watch_start (s_watch S) (on_ifmon_update S) w1 in (Some (p, wt), w2))"

text \<open>
  A client's connection, to the first remote host from the first link, and its control stream
  (\<^verbatim>\<open>quicly_open_stream\<close> calls \<^verbatim>\<open>on_stream_open\<close> before it returns the stream).
\<close>

definition connect_client ::
  "'w start_os \<Rightarrow> ('rs, 'rq, 'sc, 'w) env \<Rightarrow> config \<Rightarrow> ('rs, 'w) transport \<Rightarrow> bool \<times> ('rs, 'w) transport" where
  "connect_client S E cf t =
     (let t1 = t\<lparr>t_remote_addrs := map (\<lambda>h. host_addr S h (cf_port cf)) (cf_remote_hosts cf)\<rparr>
      in case s_connect S (hd (cf_remote_hosts cf)) (hd (t_remote_addrs t1)) (t_local_addrs t1 ! 0) (t_world t1) of
           (None, w1) \<Rightarrow> (False, t1\<lparr>t_world := w1\<rparr>)
         | (Some q, w1) \<Rightarrow>
             let c = s_calloc_conn S w1;
                 t2 = (put_conn c (new_conn q) t1)\<lparr>t_client_conn := Some c, t_world := s_set_data S q c w1\<rparr>
             in (True, case e_open_stream E q (t_world t2) of
                         (None, w2) \<Rightarrow> t2\<lparr>t_world := w2\<rparr>
                       | (Some s, w2) \<Rightarrow>
                           let t3 = on_stream_open E s (t2\<lparr>t_world := w2\<rparr>)
                           in (case t_heap t3 c of
                                 Some k \<Rightarrow> put_conn c (k\<lparr>c_stream := Some s\<rparr>) t3 | None \<Rightarrow> t3)))"

definition fresh_arena :: arena where
  "fresh_arena = \<lparr>ar_buffer = (\<lambda>_. 0), ar_capacity = 16 * 1024 * 1024, ar_offset = 0, ar_fallbacks = []\<rparr>"

definition transport_create ::
  "'w start_os \<Rightarrow> ('rs, 'rq, 'sc, 'w) env \<Rightarrow> config \<Rightarrow> 'w \<Rightarrow> fault + (created \<times> ('rs, 'w) transport) option \<times> 'w" where
  "transport_create S E cf w =
     (let (ok, w1) = s_calloc S w in
      if \<not> ok then Inr (None, w1) else
      let (ok2, w2) = s_calloc S w1 in
      if \<not> ok2 then Inr (None, w2) else
      let is_server = (cf_remote_hosts cf = []);
          (now, w3) = e_time_ms E w2;
          (mon, w4) = start_monitor S w3;
          t = (blank_transport w4)\<lparr>t_is_server := is_server, t_arena := fresh_arena, t_last_pathflow_update := now,
                 t_ifmon_open := (mon \<noteq> None), t_num_fds := length (cf_bind_hosts cf)\<rparr>
      in bindf (bind_links S (if is_server then cf_port cf else 0) 0 (cf_bind_hosts cf) t) (\<lambda>(bound, t1).
           if \<not> bound then Inr (None, t_world t1)
           else case setup_tls S cf is_server (t_world t1) of
                  (None, w5) \<Rightarrow> Inr (None, w5)
                | (Some tls, w5) \<Rightarrow>
                    let cr = \<lparr>cr_tls = tls, cr_pipe = map_option fst mon, cr_watcher = map_option snd mon\<rparr>;
                        t2 = t1\<lparr>t_world := w5\<rparr>
                    in if is_server then Inr (Some (cr, t2), w5)
                       else if TRANSPORT_MAX_PATHS < length (cf_remote_hosts cf) then Inl OutOfBounds
                       else let (conn, t3) = connect_client S E cf t2
                            in Inr (if conn then Some (cr, t3) else None, t_world t3)))"

section \<open>Destruction\<close>

text \<open>Freeing a connection: quicly's part, the memory of the assemblers, then the object.\<close>

definition slot_blocks :: "cptr \<Rightarrow> frame_assembler \<Rightarrow> nat \<Rightarrow> block list" where
  "slot_blocks c fa a =
     (if fa_buffers fa = None then []
      else map (SymbolBuffer c a) [0..<unat (fa_capacity_symbols fa)] @ [SlotBuffers c a, SlotMask c a, SlotMissing c a])"

definition conn_blocks :: "cptr \<Rightarrow> conn \<Rightarrow> block list" where
  "conn_blocks c k = concat (map (\<lambda>a. slot_blocks c (c_assemblers k ! a) a) [0..<ASSEMBLER_CACHE_SIZE]) @ [ConnObject c]"

definition destroy_conn ::
  "'w start_os \<Rightarrow> ('w, 'pkt, 'rs) tick_net \<Rightarrow> ('rs, 'rq, 'sc, 'w) env \<Rightarrow> cptr \<Rightarrow> ('rs, 'w) transport \<Rightarrow> fault + ('rs, 'w) transport" where
  "destroy_conn S N E c t =
     with_conn c t (\<lambda>k.
       let t1 = quic_free N E (c_quic k) t
       in with_conn c t1 (\<lambda>k1.
            let t2 = upd_world (fold (s_free S) (conn_blocks c k1)) t1 in Inr (t2\<lparr>t_heap := (t_heap t2)(c := None)\<rparr>)))"

fun destroy_conns ::
  "'w start_os \<Rightarrow> ('w, 'pkt, 'rs) tick_net \<Rightarrow> ('rs, 'rq, 'sc, 'w) env \<Rightarrow> cptr list \<Rightarrow> ('rs, 'w) transport \<Rightarrow> fault + ('rs, 'w) transport" where
  "destroy_conns S N E [] t = Inr t"
| "destroy_conns S N E (c # cs) t = bindf (destroy_conn S N E c t) (destroy_conns S N E cs)"

text \<open>The caches and the arena.\<close>

definition cache_blocks :: "('rs, 'w) transport \<Rightarrow> block list" where
  "cache_blocks t =
     map SentData (filter (\<lambda>i. se_data (t_sent_cache t ! i) \<noteq> None) [0..<SENT_CACHE_SIZE]) @
     map FecContext (filter (\<lambda>i. ce_fec (t_fec_cache t ! i) \<noteq> None) [0..<FEC_CACHE_SIZE]) @
     ArenaBuffer # map ArenaFallback [0..<length (ar_fallbacks (t_arena t))]"

definition transport_destroy ::
  "'w start_os \<Rightarrow> ('w, 'pkt, 'rs) tick_net \<Rightarrow> ('rs, 'rq, 'sc, 'w) env \<Rightarrow> created \<Rightarrow> ('rs, 'w) transport \<Rightarrow> fault + 'w" where
  "transport_destroy S N E cr t =
     (let w1 = (case (cr_pipe cr, cr_watcher cr) of
                  (Some p, Some wt) \<Rightarrow> n_close S (snd p) (n_close S (fst p) (ifmon_watch_stop (s_watch S) wt (t_world t)))
                | _ \<Rightarrow> t_world t);
          w2 = fold (\<lambda>fd w. if 0 \<le> fd then n_close S fd w else w) (take (t_num_fds t) (t_fds t)) w1
      in bindf (destroy_conns S N E (if t_is_server t then t_conns t else case t_client_conn t of Some c \<Rightarrow> [c] | None \<Rightarrow> [])
                  (t\<lparr>t_world := w2\<rparr>)) (\<lambda>t1.
           let w3 = s_free_encryptor S (fold (s_free S) (cache_blocks t1) (t_world t1));
               w4 = (if 0 < t_fec_buf_cap t1 then s_free S FecBuffer w3 else w3);
               w5 = (if tls_verifier (cr_tls cr) = Verify then s_dispose_verifier S w4 else w4)
           in Inr (s_free S TransportObject w5)))"

text \<open>
  Switching on the trace of the QUIC library: \<open>log_add\<close> is \<^verbatim>\<open>ptls_log_add_fd\<close>, whose last argument is the flag.
  The path of the socket is cut to the 107 bytes of \<^verbatim>\<open>sun_path\<close>.
\<close>

definition transport_enable_qlog :: "'w os \<Rightarrow> (int \<Rightarrow> bool \<Rightarrow> 'w \<Rightarrow> 'w) \<Rightarrow> cstr \<Rightarrow> 'w \<Rightarrow> bool \<times> 'w" where
  "transport_enable_qlog os log_add path w =
     (case os_socket os w of
        (None, w1) \<Rightarrow> (False, w1)
      | (Some fd, w1) \<Rightarrow>
          let (ok, w2) = os_connect os fd (cstr_copy 108 path) w1
          in if ok then (True, log_add fd True (log_add fd False (os_nonblock os fd w2)))
             else (False, os_close os fd w2))"

text \<open>The trace owns a descriptor exactly if it was switched on.\<close>

lemma enable_qlog_descriptor:
  fixes live :: "'w \<Rightarrow> int"
  assumes "\<forall>w r u. os_socket os w = (r, u) \<longrightarrow> live u = live w + (if r = None then 0 else 1)"
    and "\<forall>fd p w. live (snd (os_connect os fd p w)) = live w" "\<forall>fd w. live (os_close os fd w) = live w - 1"
    and "\<forall>fd w. live (os_nonblock os fd w) = live w" "\<forall>fd b w. live (log_add fd b w) = live w"
    and "transport_enable_qlog os log_add path w = (ok, w')"
  shows "live w' = live w + (if ok then 1 else 0)"
proof -
  obtain r u where r: "os_socket os w = (r, u)" by force
  with assms(1) have u: "live u = live w + (if r = None then 0 else 1)" by blast
  show ?thesis
  proof (cases r)
    case (Some fd)
    obtain b v where b: "os_connect os fd (cstr_copy 108 path) u = (b, v)" by force
    with assms(2) have "live v = live u" by (metis snd_conv)
    with assms(3-6) r u Some b show ?thesis by (auto simp: transport_enable_qlog_def split: if_splits)
  qed (use assms(6) r u in \<open>auto simp: transport_enable_qlog_def\<close>)
qed

section \<open>A created transport is ready\<close>

text \<open>
  The state the theorems on the transport start from: well-formed link and connection tables, codec cache,
  ring of sent objects and arena, an empty grouping buffer, and connections with empty tables that
  are not authenticated.
\<close>

definition fresh_conn :: "conn \<Rightarrow> bool" where
  "fresh_conn k \<longleftrightarrow> subs_inv (c_subscriptions k) \<and> alias_inv (c_subscriptions k) \<and> conn_asm_inv k \<and>
     \<not> c_authenticated k \<and> \<not> c_handshake_complete k"

definition transport_ready :: "('rs, 'rq, 'sc, 'w) env \<Rightarrow> ('rs, 'w) transport \<Rightarrow> bool" where
  "transport_ready E t \<longleftrightarrow> table_ok t \<and> fec_cache_inv (e_fec E) (t_fec_cache t) \<and> group_inv [] t \<and> ring_inv t \<and>
     arena_inv (t_arena t) \<and> (\<forall>c k. t_heap t c = Some k \<longrightarrow> fresh_conn k)"

lemma empty_assembler_wf: "asm_wf empty_assembler"
  by (simp add: asm_wf_def empty_assembler_def)

lemma fresh_new_conn: "fresh_conn ((new_conn q)\<lparr>c_stream := s\<rparr>)"
proof -
  have "subs_inv empty_subs" "alias_inv empty_subs"
    by (simp_all add: subs_inv_def alias_inv_def empty_subs_def sub_matches_def)
  then show ?thesis by (simp add: fresh_conn_def new_conn_def conn_asm_inv_def empty_assembler_wf ASSEMBLER_CACHE_SIZE_def)
qed

definition same_but_arrays :: "('rs, 'w) transport \<Rightarrow> ('rs, 'w) transport \<Rightarrow> bool" where
  "same_but_arrays t t' \<longleftrightarrow> (\<exists>fds addrs w. t' = t\<lparr>t_fds := fds, t_local_addrs := addrs, t_world := w\<rparr> \<and>
     length fds = length (t_fds t) \<and> length addrs = length (t_local_addrs t))"

lemma bind_links_frame:
  "i + length hs \<le> TRANSPORT_MAX_PATHS \<Longrightarrow> \<exists>ok t'. bind_links S port i hs t = Inr (ok, t') \<and> same_but_arrays t t'"
proof (induction hs arbitrary: i t)
  case Nil
  have "same_but_arrays t t" unfolding same_but_arrays_def
    by (intro exI [of _ "t_fds t"] exI [of _ "t_local_addrs t"] exI [of _ "t_world t"]) simp
  then show ?case by (intro exI [of _ True] exI [of _ t]) simp
next
  case (Cons h hs)
  let ?a = "host_addr S h port"
  obtain r w1 where r: "n_socket S ?a (t_world t) = (r, w1)" by force
  have upd: "same_but_arrays t (t\<lparr>t_local_addrs := (t_local_addrs t)[i := ?a], t_fds := fds, t_world := w\<rparr>)"
    if "length fds = length (t_fds t)" for fds w
    unfolding same_but_arrays_def
    by (intro exI [of _ fds] exI [of _ "(t_local_addrs t)[i := ?a]"] exI [of _ w]) (use that in simp)
  show ?case
  proof (cases r)
    case None
    have "same_but_arrays t (t\<lparr>t_local_addrs := (t_local_addrs t)[i := ?a], t_world := w1\<rparr>)" using upd [of "t_fds t" w1] by simp
    with None r Cons.prems show ?thesis by (auto simp: Let_def)
  next
    case (Some fd)
    obtain b w2 where b: "n_bind S fd ?a (n_reuse_addr S fd w1) = (b, w2)" by force
    let ?t = "t\<lparr>t_local_addrs := (t_local_addrs t)[i := ?a], t_fds := (t_fds t)[i := fd], t_world := n_nonblock S fd w2\<rparr>"
    obtain ok t' where t': "bind_links S port (i + 1) hs ?t = Inr (ok, t')" "same_but_arrays ?t t'"
      using Cons.IH [of "i + 1" ?t] Cons.prems by auto
    have "same_but_arrays t t'" using t'(2) unfolding same_but_arrays_def by fastforce
    with upd [of "(t_fds t)[i := fd]" w2] Some r b t'(1) Cons.prems show ?thesis by (auto simp: Let_def)
  qed
qed

lemma connect_client_frame:
  assumes "connect_client S E cf t = (True, t')" "t_heap t = Map.empty"
  obtains c q s strms w where "t' = t\<lparr>t_remote_addrs := map (\<lambda>h. host_addr S h (cf_port cf)) (cf_remote_hosts cf),
    t_client_conn := Some c, t_heap := [c \<mapsto> (new_conn q)\<lparr>c_stream := s\<rparr>], t_streams := strms, t_world := w\<rparr>"
proof -
  let ?t1 = "t\<lparr>t_remote_addrs := map (\<lambda>h. host_addr S h (cf_port cf)) (cf_remote_hosts cf)\<rparr>"
  obtain q w1 where q: "s_connect S (hd (cf_remote_hosts cf)) (hd (t_remote_addrs ?t1)) (t_local_addrs ?t1 ! 0) (t_world ?t1) = (Some q, w1)"
    using assms(1) by (auto simp: connect_client_def Let_def split: prod.splits option.splits)
  let ?c = "s_calloc_conn S w1"
  let ?t2 = "(put_conn ?c (new_conn q) ?t1)\<lparr>t_client_conn := Some ?c, t_world := s_set_data S q ?c w1\<rparr>"
  have st: "(new_conn q)\<lparr>c_stream := None\<rparr> = new_conn q" by (simp add: new_conn_def)
  obtain so w2 where so: "e_open_stream E q (t_world ?t2) = (so, w2)" by force
  show ?thesis
  proof (cases so)
    case None
    then have "t' = ?t2\<lparr>t_world := w2\<rparr>" using assms(1) q so by (auto simp: connect_client_def Let_def)
    then show ?thesis by (intro that [where c = ?c and q = q and s = None and strms = "t_streams t" and w = w2]) (simp add: put_conn_def assms(2) st)
  next
    case (Some s)
    let ?t3 = "on_stream_open E s (?t2\<lparr>t_world := w2\<rparr>)"
    obtain s' strms where t3: "?t3 = ?t2\<lparr>t_world := w2, t_heap := [?c \<mapsto> (new_conn q)\<lparr>c_stream := s'\<rparr>], t_streams := strms\<rparr>"
    proof (cases "\<exists>c' k. e_conn_data E (e_stream_quic E s w2) w2 = Some c' \<and> t_heap ?t2 c' = Some k \<and> e_stream_id E s w2 = 0")
      case True
      then have "e_conn_data E (e_stream_quic E s w2) w2 = Some ?c" using assms(2) by (auto split: if_splits)
      with True show ?thesis
        by (intro that [where s' = "Some s" and strms = "(t_streams t)(s \<mapsto> \<lparr>sx_is_control = True, sx_header_received = False, sx_alias = 0\<rparr>)"])
          (simp add: on_stream_open_def Let_def put_conn_def assms(2))
    next
      case False
      then have "?t3 = ?t2\<lparr>t_world := w2, t_streams := (t_streams ?t2)(s \<mapsto>
          \<lparr>sx_is_control = (e_stream_id E s w2 = 0), sx_header_received = False, sx_alias = 0\<rparr>)\<rparr>"
        by (auto simp: on_stream_open_def Let_def split: option.splits)
      then show ?thesis
        by (intro that [where s' = None and strms = "(t_streams t)(s \<mapsto> \<lparr>sx_is_control = (e_stream_id E s w2 = 0), sx_header_received = False, sx_alias = 0\<rparr>)"])
          (simp add: put_conn_def assms(2) st)
    qed
    have "t' = put_conn ?c ((new_conn q)\<lparr>c_stream := Some s\<rparr>) ?t3"
      using assms(1) q so Some t3 by (auto simp: connect_client_def Let_def)
    then have "t' = put_conn ?c ((new_conn q)\<lparr>c_stream := Some s\<rparr>)
        (?t2\<lparr>t_world := w2, t_heap := [?c \<mapsto> (new_conn q)\<lparr>c_stream := s'\<rparr>], t_streams := strms\<rparr>)"
      unfolding t3 .
    then show ?thesis
      by (intro that [where c = ?c and q = q and s = "Some s" and strms = strms and w = w2]) (simp add: put_conn_def)
  qed
qed

lemma blank_ready:
  assumes "same_but_arrays ((blank_transport w)\<lparr>t_is_server := srv, t_arena := fresh_arena, t_last_pathflow_update := now,
      t_ifmon_open := mon, t_num_fds := n\<rparr>) t" "n \<le> TRANSPORT_MAX_PATHS"
  shows "transport_ready E (t\<lparr>t_world := w'\<rparr>)" "t_heap t = Map.empty" "t_is_server t = srv" "t_num_fds t = n" "t_client_conn t = None"
    "t_conns t = []" "links_ok t"
proof -
  obtain fds addrs w2 where t: "t = (blank_transport w)\<lparr>t_is_server := srv, t_arena := fresh_arena, t_last_pathflow_update := now,
      t_ifmon_open := mon, t_num_fds := n, t_fds := fds, t_local_addrs := addrs, t_world := w2\<rparr>"
    and len: "length fds = TRANSPORT_MAX_PATHS" "length addrs = TRANSPORT_MAX_PATHS"
    using assms(1) by (auto simp: same_but_arrays_def blank_transport_def)
  show "t_heap t = Map.empty" "t_is_server t = srv" "t_num_fds t = n" "t_client_conn t = None" "t_conns t = []"
    by (simp_all add: t blank_transport_def)
  show "links_ok t" using len assms(2) by (simp add: links_ok_def t)
  have "arena_inv fresh_arena" by (simp add: arena_inv_def fresh_arena_def)
  then show "transport_ready E (t\<lparr>t_world := w'\<rparr>)"
    using len assms(2) empty_fec_cache_inv
    by (simp add: transport_ready_def table_ok_def links_ok_def group_inv_def ring_inv_def t blank_transport_def SENT_CACHE_SIZE_def)
qed

lemma connect_client_ready:
  assumes "connect_client S E cf t = (True, t')" "transport_ready E t" "t_heap t = Map.empty" "\<not> t_is_server t" "t_conns t = []"
  shows "transport_ready E t' \<and> t_is_server t' = t_is_server t \<and> t_num_fds t' = t_num_fds t \<and> t_client_conn t' \<noteq> None"
proof -
  obtain c q s strms w where t': "t' = t\<lparr>t_remote_addrs := map (\<lambda>h. host_addr S h (cf_port cf)) (cf_remote_hosts cf),
    t_client_conn := Some c, t_heap := [c \<mapsto> (new_conn q)\<lparr>c_stream := s\<rparr>], t_streams := strms, t_world := w\<rparr>"
    by (rule connect_client_frame [OF assms(1,3)])
  show ?thesis using assms(2,4,5) fresh_new_conn
    by (auto simp: t' transport_ready_def table_ok_def links_ok_def group_inv_def ring_inv_def split: if_splits)
qed

lemma setup_tls_result:
  assumes "setup_tls S cf srv w = (Some tls, w')"
  shows "(srv \<longrightarrow> tls_certificate tls) \<and> (cf_verify_peer cf \<longrightarrow> tls_verifier tls = Verify \<and> tls_require_client_auth tls = srv) \<and>
    (tls_verifier tls = Verify \<longrightarrow> cf_verify_peer cf)"
  using assms by (auto simp: setup_tls_def setup_verifier_def Let_def split: if_splits prod.splits option.splits)

lemma create_ready:
  fixes S :: "'w start_os" and E :: "('rs, 'rq, 'sc, 'w) env"
  assumes "length (cf_bind_hosts cf) \<le> 4" and "length (cf_remote_hosts cf) \<le> 4"
  shows "\<exists>r w'. transport_create S E cf w = Inr (r, w') \<and>
    (\<forall>cr t. r = Some (cr, t) \<longrightarrow>
       transport_ready E t \<and> t_is_server t = (cf_remote_hosts cf = []) \<and> t_num_fds t = length (cf_bind_hosts cf) \<and>
       (t_is_server t \<longleftrightarrow> t_client_conn t = None) \<and> (t_is_server t \<longrightarrow> tls_certificate (cr_tls cr)) \<and>
       (tls_verifier (cr_tls cr) = Verify \<longleftrightarrow> cf_verify_peer cf) \<and>
       (cf_verify_peer cf \<and> t_is_server t \<longrightarrow> tls_require_client_auth (cr_tls cr)))"
proof -
  obtain ok w1 where c1: "s_calloc S w = (ok, w1)" by force
  obtain ok2 w2 where c2: "s_calloc S w1 = (ok2, w2)" by force
  show ?thesis
  proof (cases "ok \<and> ok2")
    case False
    with c1 c2 show ?thesis by (auto simp: transport_create_def)
  next
    case True
    obtain now w3 where tm: "e_time_ms E w2 = (now, w3)" by force
    obtain mon w4 where mn: "start_monitor S w3 = (mon, w4)" by force
    let ?srv = "cf_remote_hosts cf = []"
    let ?t = "(blank_transport w4)\<lparr>t_is_server := ?srv, t_arena := fresh_arena, t_last_pathflow_update := now,
                 t_ifmon_open := (mon \<noteq> None), t_num_fds := length (cf_bind_hosts cf)\<rparr> :: ('rs, 'w) transport"
    have n: "length (cf_bind_hosts cf) \<le> TRANSPORT_MAX_PATHS" using assms(1) by (simp add: TRANSPORT_MAX_PATHS_def)
    then obtain bound t1 where b: "bind_links S (if ?srv then cf_port cf else 0) 0 (cf_bind_hosts cf) ?t = Inr (bound, t1)" "same_but_arrays ?t t1"
      using bind_links_frame [of 0 "cf_bind_hosts cf"] by (metis add_0)
    note rd = blank_ready [OF b(2) n]
    show ?thesis
    proof (cases bound)
      case False
      with b c1 c2 True tm mn show ?thesis by (simp add: transport_create_def)
    next
      case bd: True
      obtain r w5 where tl: "setup_tls S cf ?srv (t_world t1) = (r, w5)" by force
      show ?thesis
      proof (cases r)
        case None
        with bd b c1 c2 True tm mn tl show ?thesis by (simp add: transport_create_def)
      next
        case (Some tls)
        note tr = setup_tls_result [OF tl [unfolded Some]]
        show ?thesis
        proof (cases ?srv)
          case srv: True
          with Some bd b c1 c2 True tm mn tl rd tr show ?thesis by (simp add: transport_create_def Let_def) blast
        next
          case cli: False
          obtain conn t3 where cn: "connect_client S E cf (t1\<lparr>t_world := w5\<rparr>) = (conn, t3)" by force
          have "conn \<Longrightarrow> transport_ready E t3 \<and> t_is_server t3 = t_is_server t1 \<and> t_num_fds t3 = t_num_fds t1 \<and> t_client_conn t3 \<noteq> None"
            using connect_client_ready [of S E cf "t1\<lparr>t_world := w5\<rparr>" t3] cn rd cli by auto
          with cli Some bd b c1 c2 True tm mn tl rd tr cn assms(2) show ?thesis
            by (auto simp: transport_create_def Let_def TRANSPORT_MAX_PATHS_def)
        qed
      qed
    qed
  qed
qed

text \<open>
  C12. What \<^verbatim>\<open>transport_create\<close> returns is ready for every other operation. With at most four bind and
  four remote hosts it stays inside its arrays, and a transport it returns has every invariant that the theorems
  on ticks, publishing, retransmission, reassembly and subscriptions assume; it is a server exactly if
  there is no remote host, and a client has one connection, not authenticated. A server always has
  a certificate; peers' certificates are verified exactly if that was asked for, and then a server also requires
  its clients to present one.
\<close>

theorem transport_create_ready:
  fixes S :: "'w start_os" and E :: "('rs, 'rq, 'sc, 'w) env"
  assumes "length (cf_bind_hosts cf) \<le> 4" and "length (cf_remote_hosts cf) \<le> 4"
  shows "\<exists>r w'. transport_create S E cf w = Inr (r, w') \<and>
    (\<forall>cr t. r = Some (cr, t) \<longrightarrow>
       transport_ready E t \<and> t_is_server t = (cf_remote_hosts cf = []) \<and> t_num_fds t = length (cf_bind_hosts cf) \<and>
       (t_is_server t \<longleftrightarrow> t_client_conn t = None) \<and> (t_is_server t \<longrightarrow> tls_certificate (cr_tls cr)) \<and>
       (tls_verifier (cr_tls cr) = Verify \<longleftrightarrow> cf_verify_peer cf) \<and>
       (cf_verify_peer cf \<and> t_is_server t \<longrightarrow> tls_require_client_auth (cr_tls cr)))"
  by (rule create_ready [OF assms])

text \<open>A system in which every call succeeds, but for the interface monitor's.\<close>

definition demo_quiet_watch :: "trace_world watch_os" where
  "demo_quiet_watch = \<lparr>nl_open = (\<lambda>w. (False, w)), nl_request = (\<lambda>b w. (False, w)), nl_recv = (\<lambda>w. (None, w)), nl_close = (\<lambda>w. w),
     wo_socket = (\<lambda>w. (None, w)), wo_bind = (\<lambda>fd w. (False, w)), wo_nonblock = (\<lambda>fd w. w), wo_recv = (\<lambda>fd w. (Inl EAGAIN, w)),
     wo_poll = (\<lambda>efd sfd w. (Inr (False, True), w)), wo_pipe = (\<lambda>w. (None, w)), wo_set_running = (\<lambda>b w. w), wo_running = (\<lambda>w. False),
     wo_thread = (\<lambda>w. (False, w)), wo_write = (\<lambda>fd bs w. w), wo_join = (\<lambda>w. w), wo_close = (\<lambda>fd w. w)\<rparr>"

definition demo_start :: "trace_world start_os" where
  "demo_start = \<lparr>n_read_msg = (\<lambda>w. (None, w)), n_write_msg = (\<lambda>m w. w), n_socket = (\<lambda>a w. (Some 5, w)), n_reuse_addr = (\<lambda>fd w. w),
     n_bind = (\<lambda>fd a w. (True, w)), n_nonblock = (\<lambda>fd w. w), n_if_name = (\<lambda>i w. None), n_bind_device = (\<lambda>fd name w. w),
     n_close = (\<lambda>fd w. w), n_open_path = (\<lambda>q r a w. w),
     s_calloc = (\<lambda>w. (True, w)), s_pipe = (\<lambda>w. (Some (3, 4), w)), s_watch = demo_quiet_watch,
     s_pton4 = (\<lambda>h. 0), s_pton6 = (\<lambda>h. replicate 16 0),
     s_load_certificates = (\<lambda>f w. (True, w)), s_open_key = (\<lambda>f w. (True, w)), s_read_key = (\<lambda>w. (True, w)),
     s_load_ca = (\<lambda>f w. (True, w)), s_init_verifier = (\<lambda>b w. (True, w)), s_calloc_conn = (\<lambda>w. 0),
     s_connect = (\<lambda>h r l w. (Some 7, w)), s_set_data = (\<lambda>q c w. w), s_dispose_verifier = (\<lambda>w. w),
     s_free = (\<lambda>b w. w), s_free_encryptor = (\<lambda>w. w)\<rparr>"

definition demo_config :: "cstr list \<Rightarrow> config" where
  "demo_config remotes = \<lparr>cf_bind_hosts = [chars ''0.0.0.0''], cf_remote_hosts = remotes, cf_port = 8888,
     cf_cert_file = Some (chars ''c''), cf_key_file = Some (chars ''k''), cf_ca_file = None, cf_verify_peer = True\<rparr>"

lemma demo_created:
  assumes "cf_bind_hosts cf = [chars ''0.0.0.0'']" "cf_remote_hosts cf = []" "cf_cert_file cf = Some cert" "cf_key_file cf = Some key"
  shows "\<exists>cr t. transport_create demo_start trace_env cf empty_trace = Inr (Some (cr, t), t_world t)"
proof -
  obtain w where tm: "e_time_ms trace_env empty_trace = (1, w)" by (simp add: trace_env_def empty_trace_def)
  have "58 \<notin> set (chars ''0.0.0.0'')" by code_simp
  then have a: "host_addr demo_start (chars ''0.0.0.0'') p = SockIn 0 p" for p by (simp add: host_addr_def demo_start_def)
  have m: "\<exists>mon. start_monitor demo_start w = (mon, w)" for w
    by (simp add: start_monitor_def demo_start_def demo_quiet_watch_def ifmon_watch_start_def ifmon_list_get_def)
  have tls: "\<exists>tls. setup_tls demo_start cf True w = (Some tls, w)" for w
    by (simp add: setup_tls_def assms load_certificate_and_key_def setup_verifier_def demo_start_def split: option.splits)
  have b: "\<exists>t'. bind_links demo_start p 0 [chars ''0.0.0.0''] t = Inr (True, t') \<and> t_world t' = t_world t"
    for p and t :: "(nat, trace_world) transport"
    by (simp add: a TRANSPORT_MAX_PATHS_def) (simp add: demo_start_def)
  obtain mon where mon: "start_monitor demo_start w = (mon, w)" using m by blast
  let ?t = "(blank_transport w)\<lparr>t_is_server := True, t_arena := fresh_arena, t_last_pathflow_update := 1,
      t_ifmon_open := (mon \<noteq> None), t_num_fds := 1\<rparr> :: (nat, trace_world) transport"
  obtain t1 where t1: "bind_links demo_start (cf_port cf) 0 [chars ''0.0.0.0''] ?t = Inr (True, t1)" using b by blast
  obtain tls where "setup_tls demo_start cf True (t_world t1) = (Some tls, t_world t1)" using tls by blast
  moreover have "s_calloc demo_start w = (True, w)" for w by (simp add: demo_start_def)
  ultimately show ?thesis using mon t1 tm assms by (simp add: transport_create_def Let_def del: bind_links.simps not_None_eq)
qed

theorem transport_create_ready_witness:
  "\<exists>cr t. transport_create demo_start trace_env (demo_config []) empty_trace = Inr (Some (cr, t), t_world t) \<and>
     transport_ready trace_env t \<and> t_is_server t \<and> tls_verifier (cr_tls cr) = Verify \<and> tls_require_client_auth (cr_tls cr)"
proof -
  obtain cr t where c: "transport_create demo_start trace_env (demo_config []) empty_trace = Inr (Some (cr, t), t_world t)"
    using demo_created [of "demo_config []" "chars ''c''" "chars ''k''"] by (auto simp: demo_config_def)
  have "length (cf_bind_hosts (demo_config [])) \<le> 4" "length (cf_remote_hosts (demo_config [])) \<le> 4" "cf_verify_peer (demo_config [])"
    "cf_remote_hosts (demo_config []) = []"
    by (simp_all add: demo_config_def)
  with transport_create_ready [of "demo_config []" demo_start trace_env empty_trace] c show ?thesis by auto
qed

section \<open>Destruction releases everything\<close>

text \<open>
  \<open>log w\<close> lists what was released so far: descriptors closed, QUIC connections freed, blocks of memory freed. Nothing else in
  the clean-up releases anything.
\<close>

datatype release = Closed int | QuicFreed qptr | Freed block

definition release_log :: "'w start_os \<Rightarrow> ('w, 'pkt, 'rs) tick_net \<Rightarrow> ('w \<Rightarrow> release list) \<Rightarrow> bool" where
  "release_log S N log \<longleftrightarrow>
     (\<forall>fd w. log (n_close S fd w) = log w @ [Closed fd]) \<and> (\<forall>fd w. log (wo_close (s_watch S) fd w) = log w @ [Closed fd]) \<and>
     (\<forall>b w. log (wo_set_running (s_watch S) b w) = log w) \<and> (\<forall>fd bs w. log (wo_write (s_watch S) fd bs w) = log w) \<and>
     (\<forall>w. log (wo_join (s_watch S) w) = log w) \<and> (\<forall>w. log (s_dispose_verifier S w) = log w) \<and>
     (\<forall>w. log (s_free_encryptor S w) = log w) \<and> (\<forall>b w. log (s_free S b w) = log w @ [Freed b]) \<and>
     (\<forall>q w. log (k_free N q w) = log w @ [QuicFreed q])"

definition monitor_fds :: "created \<Rightarrow> int list" where
  "monitor_fds cr =
     (case (cr_pipe cr, cr_watcher cr) of
        (Some p, Some wt) \<Rightarrow>
          [fst (wt_stop_pipe wt), snd (wt_stop_pipe wt)] @ filter (\<lambda>fd. 0 \<le> fd) [wt_event_fd wt] @ [fst p, snd p]
      | _ \<Rightarrow> [])"

text \<open>The blocks that belong to a transport with the connections of its table.\<close>

definition owned_blocks :: "('rs, 'w) transport \<Rightarrow> block set" where
  "owned_blocks t =
     {b. \<exists>c k a. c \<in> set (active_conns t) \<and> t_heap t c = Some k \<and> a < 16 \<and> fa_buffers (c_assemblers k ! a) \<noteq> None \<and>
        (b \<in> {SlotBuffers c a, SlotMask c a, SlotMissing c a} \<or> (\<exists>s < unat (fa_capacity_symbols (c_assemblers k ! a)). b = SymbolBuffer c a s))} \<union>
     ConnObject ` set (active_conns t) \<union> {SentData i | i. i < 32 \<and> se_data (t_sent_cache t ! i) \<noteq> None} \<union>
     {FecContext i | i. i < 8 \<and> ce_fec (t_fec_cache t ! i) \<noteq> None} \<union> {ArenaFallback i | i. i < length (ar_fallbacks (t_arena t))} \<union>
     (if 0 < t_fec_buf_cap t then {FecBuffer} else {}) \<union> {ArenaBuffer, TransportObject}"

lemma on_stream_destroy_keeps:
  "map_option (\<lambda>k. (c_quic k, c_assemblers k)) (t_heap (on_stream_destroy E s t) c) = map_option (\<lambda>k. (c_quic k, c_assemblers k)) (t_heap t c)"
  "t_world (on_stream_destroy E s t) = t_world t"
  by (auto simp: on_stream_destroy_def Let_def split: option.splits)

text \<open>What freeing connections leaves alone: the other connections' memory, the caches, the arena and the buffer.\<close>

definition same_memory :: "('rs, 'w) transport \<Rightarrow> ('rs, 'w) transport \<Rightarrow> bool" where
  "same_memory t t' \<longleftrightarrow> t_sent_cache t' = t_sent_cache t \<and> t_fec_cache t' = t_fec_cache t \<and> t_arena t' = t_arena t \<and>
     t_fec_buf_cap t' = t_fec_buf_cap t"

definition conn_memory :: "('rs, 'w) transport \<Rightarrow> cptr \<Rightarrow> (qptr \<times> frame_assembler list) option" where
  "conn_memory t c = map_option (\<lambda>k. (c_quic k, c_assemblers k)) (t_heap t c)"

lemma on_stream_destroy_memory:
  "conn_memory (on_stream_destroy E s t) = conn_memory t" "same_memory t (on_stream_destroy E s t)"
proof -
  show "conn_memory (on_stream_destroy E s t) = conn_memory t" by (rule ext) (simp add: conn_memory_def on_stream_destroy_keeps(1))
  show "same_memory t (on_stream_destroy E s t)"
    by (auto simp: same_memory_def on_stream_destroy_def put_conn_def Let_def split: option.splits)
qed

lemma destroy_streams_keeps:
  "conn_memory (fold (on_stream_destroy E) ss t) = conn_memory t \<and> same_memory t (fold (on_stream_destroy E) ss t) \<and>
   t_world (fold (on_stream_destroy E) ss t) = t_world t"
proof (induction ss arbitrary: t)
  case (Cons s ss)
  show ?case using Cons [of "on_stream_destroy E s t"] on_stream_destroy_memory [where E = E and s = s and t = t]
      on_stream_destroy_keeps(2) [where E = E and s = s and t = t]
    by (simp add: same_memory_def)
qed (simp add: same_memory_def)

lemma fold_free_log: "release_log S N log \<Longrightarrow> log (fold (s_free S) bs w) = log w @ map Freed bs"
  by (induction bs arbitrary: w) (simp_all add: release_log_def)

text \<open>What freeing a connection adds to the log, by the memory it holds.\<close>

definition conn_log :: "cptr \<Rightarrow> qptr \<times> frame_assembler list \<Rightarrow> release list" where
  "conn_log c m = QuicFreed (fst m) # map Freed (concat (map (\<lambda>a. slot_blocks c (snd m ! a) a) [0..<16]) @ [ConnObject c])"

lemma destroy_conn_ok:
  assumes log: "release_log S N log" and m: "conn_memory t c = Some m"
  obtains t' where "destroy_conn S N E c t = Inr t'" "log (t_world t') = log (t_world t) @ conn_log c m"
    "conn_memory t' = (conn_memory t)(c := None)" "same_memory t t'"
proof -
  obtain k where k: "t_heap t c = Some k" "m = (c_quic k, c_assemblers k)" using m by (auto simp: conn_memory_def)
  let ?t1 = "quic_free N E (c_quic k) t"
  note d = destroy_streams_keeps [of E "k_streams N (c_quic k) (t_world t)" t]
  have mem: "conn_memory ?t1 = conn_memory t" and same: "same_memory t ?t1"
    using d by (simp_all add: quic_free_def conn_memory_def fun_eq_iff same_memory_def upd_world_def)
  have lg: "log (t_world ?t1) = log (t_world t) @ [QuicFreed (c_quic k)]"
    using d log by (simp add: quic_free_def release_log_def)
  obtain k1 where k1: "t_heap ?t1 c = Some k1" "c_quic k1 = c_quic k" "c_assemblers k1 = c_assemblers k"
    using mem k by (auto simp: conn_memory_def fun_eq_iff dest!: spec [of _ c])
  let ?t2 = "upd_world (fold (s_free S) (conn_blocks c k1)) ?t1"
  show ?thesis
  proof (rule that)
    show "destroy_conn S N E c t = Inr (?t2\<lparr>t_heap := (t_heap ?t2)(c := None)\<rparr>)" using k k1 by (simp add: destroy_conn_def Let_def)
    show "log (t_world (?t2\<lparr>t_heap := (t_heap ?t2)(c := None)\<rparr>)) = log (t_world t) @ conn_log c m"
    proof -
      have "conn_log c m = QuicFreed (c_quic k) # map Freed (conn_blocks c k1)"
        using k(2) k1 by (simp add: conn_log_def conn_blocks_def ASSEMBLER_CACHE_SIZE_def)
      with fold_free_log [OF log] lg show ?thesis by simp
    qed
    show "conn_memory (?t2\<lparr>t_heap := (t_heap ?t2)(c := None)\<rparr>) = (conn_memory t)(c := None)"
      using mem by (auto simp: conn_memory_def fun_eq_iff)
    show "same_memory t (?t2\<lparr>t_heap := (t_heap ?t2)(c := None)\<rparr>)"
      using same by (simp add: same_memory_def upd_world_def)
  qed
qed

lemma destroy_conns_ok:
  assumes log: "release_log S N log"
  shows "distinct cs \<Longrightarrow> set cs \<subseteq> dom (conn_memory t) \<Longrightarrow>
    \<exists>t'. destroy_conns S N E cs t = Inr t' \<and> log (t_world t') = log (t_world t) @ concat (map (\<lambda>c. conn_log c (the (conn_memory t c))) cs) \<and>
      same_memory t t'"
proof (induction cs arbitrary: t)
  case (Cons c cs)
  obtain m where m: "conn_memory t c = Some m" using Cons.prems(2) by auto
  obtain t1 where t1: "destroy_conn S N E c t = Inr t1" "log (t_world t1) = log (t_world t) @ conn_log c m"
    "conn_memory t1 = (conn_memory t)(c := None)" "same_memory t t1" by (rule destroy_conn_ok [OF log m])
  have sub: "set cs \<subseteq> dom (conn_memory t1)" using Cons.prems t1(3) by auto
  have eq: "map (\<lambda>c. conn_log c (the (conn_memory t1 c))) cs = map (\<lambda>c. conn_log c (the (conn_memory t c))) cs"
    using Cons.prems(1) t1(3) by (intro map_cong) auto
  from Cons.IH [OF _ sub] Cons.prems(1) obtain t' where t': "destroy_conns S N E cs t1 = Inr t'" "same_memory t1 t'"
    "log (t_world t') = log (t_world t1) @ concat (map (\<lambda>c. conn_log c (the (conn_memory t c))) cs)" unfolding eq by auto
  have "same_memory t t'" using t1(4) t'(2) by (simp add: same_memory_def)
  with t1(1,2) t' m show ?case by simp
qed (simp add: same_memory_def)

lemma fold_close:
  assumes "release_log S N log"
  shows "log (fold (\<lambda>fd w. if 0 \<le> fd then n_close S fd w else w) fds w) = log w @ map Closed (filter (\<lambda>fd. 0 \<le> fd) fds)"
  using assms by (induction fds arbitrary: w) (simp_all add: release_log_def)

lemma destroy_log:
  assumes ok: "table_ok t" and log: "release_log S N log"
  shows "\<exists>w'. transport_destroy S N E cr t = Inr w' \<and> log w' = log (t_world t) @
    map Closed (monitor_fds cr @ filter (\<lambda>fd. 0 \<le> fd) (map fst (links t))) @
    concat (map (\<lambda>c. conn_log c (the (conn_memory t c))) (active_conns t)) @
    map Freed (cache_blocks t @ (if 0 < t_fec_buf_cap t then [FecBuffer] else []) @ [TransportObject])"
proof -
  let ?w1 = "case (cr_pipe cr, cr_watcher cr) of
      (Some p, Some wt) \<Rightarrow> n_close S (snd p) (n_close S (fst p) (ifmon_watch_stop (s_watch S) wt (t_world t)))
    | _ \<Rightarrow> t_world t"
  let ?w2 = "fold (\<lambda>fd w. if 0 \<le> fd then n_close S fd w else w) (take (t_num_fds t) (t_fds t)) ?w1"
  let ?t2 = "t\<lparr>t_world := ?w2\<rparr>"
  have cs: "(if t_is_server t then t_conns t else case t_client_conn t of Some c \<Rightarrow> [c] | None \<Rightarrow> []) = active_conns t"
    by (simp add: active_conns_def split: option.splits)
  have w1: "log ?w1 = log (t_world t) @ map Closed (monitor_fds cr)"
    using log by (auto simp: monitor_fds_def ifmon_watch_stop_def Let_def release_log_def split: option.splits)
  have fds: "map fst (links t) = take (t_num_fds t) (t_fds t)" using ok by (simp add: links_def table_ok_def links_ok_def)
  have w2: "log ?w2 = log (t_world t) @ map Closed (monitor_fds cr @ filter (\<lambda>fd. 0 \<le> fd) (map fst (links t)))"
    using fold_close [OF log] w1 fds by simp
  have mem: "conn_memory ?t2 = conn_memory t" by (simp add: conn_memory_def fun_eq_iff)
  have "distinct (active_conns t)" "set (active_conns t) \<subseteq> dom (conn_memory ?t2)"
    using ok by (cases "t_client_conn t"; auto simp: table_ok_def active_conns_def conn_memory_def)+
  from destroy_conns_ok [OF log this, of E] obtain t1 where t1: "destroy_conns S N E (active_conns t) ?t2 = Inr t1"
    "log (t_world t1) = log ?w2 @ concat (map (\<lambda>c. conn_log c (the (conn_memory t c))) (active_conns t))" "same_memory ?t2 t1"
    unfolding mem by auto
  have same: "cache_blocks t1 = cache_blocks t" "t_fec_buf_cap t1 = t_fec_buf_cap t" using t1(3) by (simp_all add: cache_blocks_def same_memory_def)
  have rest: "log (s_free_encryptor S w) = log w" "log (s_free S b w) = log w @ [Freed b]" "log (s_dispose_verifier S w) = log w" for w b
    using log by (simp_all add: release_log_def)
  show ?thesis using t1 w2 fold_free_log [OF log] rest by (simp add: transport_destroy_def Let_def cs same)
qed

text \<open>What a list of releases names.\<close>

definition closed_fds :: "release list \<Rightarrow> int list" where
  "closed_fds rs = List.map_filter (\<lambda>r. case r of Closed fd \<Rightarrow> Some fd | _ \<Rightarrow> None) rs"

definition freed_quics :: "release list \<Rightarrow> qptr list" where
  "freed_quics rs = List.map_filter (\<lambda>r. case r of QuicFreed q \<Rightarrow> Some q | _ \<Rightarrow> None) rs"

definition freed_blocks :: "release list \<Rightarrow> block list" where
  "freed_blocks rs = List.map_filter (\<lambda>r. case r of Freed b \<Rightarrow> Some b | _ \<Rightarrow> None) rs"

lemma release_simps [simp]:
  "closed_fds [] = []" "closed_fds (r # rs) = (case r of Closed fd \<Rightarrow> [fd] | _ \<Rightarrow> []) @ closed_fds rs"
  "freed_quics [] = []" "freed_quics (r # rs) = (case r of QuicFreed q \<Rightarrow> [q] | _ \<Rightarrow> []) @ freed_quics rs"
  "freed_blocks [] = []" "freed_blocks (r # rs) = (case r of Freed b \<Rightarrow> [b] | _ \<Rightarrow> []) @ freed_blocks rs"
  by (simp_all add: closed_fds_def freed_quics_def freed_blocks_def List.map_filter_simps split: release.splits)

lemma release_append [simp]:
  "closed_fds (xs @ ys) = closed_fds xs @ closed_fds ys" "freed_quics (xs @ ys) = freed_quics xs @ freed_quics ys"
  "freed_blocks (xs @ ys) = freed_blocks xs @ freed_blocks ys"
  by (induction xs) simp_all

lemma release_map [simp]:
  "closed_fds (map Closed fds) = fds" "freed_quics (map Closed fds) = []" "freed_blocks (map Closed fds) = []"
  "closed_fds (map Freed bs) = []" "freed_quics (map Freed bs) = []" "freed_blocks (map Freed bs) = bs"
  by (induction fds) (simp_all, (induction bs, simp_all)+)

lemma release_conns:
  "closed_fds (concat (map (\<lambda>c. conn_log c (m c)) cs)) = []" "freed_quics (concat (map (\<lambda>c. conn_log c (m c)) cs)) = map (\<lambda>c. fst (m c)) cs"
  "freed_blocks (concat (map (\<lambda>c. conn_log c (m c)) cs)) =
     concat (map (\<lambda>c. concat (map (\<lambda>a. slot_blocks c (snd (m c) ! a) a) [0..<16]) @ [ConnObject c]) cs)"
  by (induction cs) (simp_all add: conn_log_def del: map_append)

text \<open>No block is released twice, and the blocks released are those the transport owns.\<close>

lemma distinct_concat_map:
  "distinct xs \<Longrightarrow> (\<And>x. x \<in> set xs \<Longrightarrow> distinct (f x)) \<Longrightarrow> (\<And>x y. x \<noteq> y \<Longrightarrow> set (f x) \<inter> set (f y) = {}) \<Longrightarrow> distinct (concat (map f xs))"
proof (induction xs)
  case (Cons x xs)
  have "set (f x) \<inter> set (f y) = {}" if "y \<in> set xs" for y using Cons.prems(1,3) that by (metis distinct.simps(2))
  then have "set (f x) \<inter> set (concat (map f xs)) = {}" by auto
  with Cons show ?case by simp
qed simp

lemma slot_blocks_iff:
  "b \<in> set (slot_blocks c fa a) \<longleftrightarrow> fa_buffers fa \<noteq> None \<and>
     (b \<in> {SlotBuffers c a, SlotMask c a, SlotMissing c a} \<or> (\<exists>s < unat (fa_capacity_symbols fa). b = SymbolBuffer c a s))"
  by (auto simp: slot_blocks_def)

lemma slot_blocks_distinct: "distinct (slot_blocks c fa a)"
  by (auto simp: slot_blocks_def distinct_map inj_on_def)

lemma conns_distinct:
  assumes "distinct cs" and "distinct as"
  shows "distinct (concat (map (\<lambda>c. concat (map (\<lambda>a. slot_blocks c (fa c a) a) as) @ [ConnObject c]) cs))"
proof (rule distinct_concat_map [OF assms(1)])
  fix c
  have "distinct (concat (map (\<lambda>a. slot_blocks c (fa c a) a) as))"
    by (rule distinct_concat_map [OF assms(2)]) (auto simp: slot_blocks_distinct slot_blocks_iff)
  then show "distinct (concat (map (\<lambda>a. slot_blocks c (fa c a) a) as) @ [ConnObject c])" by (auto simp: slot_blocks_iff)
qed (auto simp: slot_blocks_iff)

definition release_list :: "('rs, 'w) transport \<Rightarrow> block list" where
  "release_list t = concat (map (\<lambda>c. concat (map (\<lambda>a. slot_blocks c (snd (the (conn_memory t c)) ! a) a) [0..<16]) @ [ConnObject c]) (active_conns t)) @
     cache_blocks t @ (if 0 < t_fec_buf_cap t then [FecBuffer] else []) @ [TransportObject]"

lemma cache_blocks_distinct: "distinct (cache_blocks t)"
  by (auto simp: cache_blocks_def distinct_map inj_on_def)

lemma cache_blocks_set:
  "set (cache_blocks t) = {SentData i | i. i < 32 \<and> se_data (t_sent_cache t ! i) \<noteq> None} \<union>
     {FecContext i | i. i < 8 \<and> ce_fec (t_fec_cache t ! i) \<noteq> None} \<union> {ArenaFallback i | i. i < length (ar_fallbacks (t_arena t))} \<union> {ArenaBuffer}"
  by (auto simp: cache_blocks_def SENT_CACHE_SIZE_def FEC_CACHE_SIZE_def)

lemma release_list_distinct:
  assumes "distinct (active_conns t)"
  shows "distinct (release_list t)"
proof -
  let ?cs = "concat (map (\<lambda>c. concat (map (\<lambda>a. slot_blocks c (snd (the (conn_memory t c)) ! a) a) [0..<16]) @ [ConnObject c]) (active_conns t))"
  have "distinct ?cs" by (rule conns_distinct [OF assms]) simp
  moreover have "set ?cs \<inter> set (cache_blocks t @ [FecBuffer, TransportObject]) = {}"
    by (auto simp: slot_blocks_iff cache_blocks_set)
  moreover have "set (cache_blocks t) \<inter> {FecBuffer, TransportObject} = {}" by (auto simp: cache_blocks_set)
  ultimately show ?thesis using cache_blocks_distinct [of t] unfolding release_list_def by auto
qed

lemma release_list_owned:
  assumes "set (active_conns t) \<subseteq> dom (t_heap t)"
  shows "set (release_list t) = owned_blocks t"
proof -
  have m: "snd (the (conn_memory t c)) = c_assemblers (the (t_heap t c))" if "c \<in> set (active_conns t)" for c
    using assms that by (auto simp: conn_memory_def)
  have k: "t_heap t c = Some (the (t_heap t c))" if "c \<in> set (active_conns t)" for c using assms that by force
  have "set (concat (map (\<lambda>c. concat (map (\<lambda>a. slot_blocks c (snd (the (conn_memory t c)) ! a) a) [0..<16]) @ [ConnObject c]) (active_conns t))) =
     {b. \<exists>c k a. c \<in> set (active_conns t) \<and> t_heap t c = Some k \<and> a < 16 \<and> fa_buffers (c_assemblers k ! a) \<noteq> None \<and>
        (b \<in> {SlotBuffers c a, SlotMask c a, SlotMissing c a} \<or> (\<exists>s < unat (fa_capacity_symbols (c_assemblers k ! a)). b = SymbolBuffer c a s))} \<union>
     ConnObject ` set (active_conns t)" (is "?L = ?R")
  proof (rule set_eqI)
    fix b
    have "b \<in> ?L \<longleftrightarrow> (\<exists>c \<in> set (active_conns t). b = ConnObject c \<or> (\<exists>a < 16. b \<in> set (slot_blocks c (snd (the (conn_memory t c)) ! a) a)))"
      by (simp add: Bex_def del: upt_rec_numeral)
    also have "\<dots> \<longleftrightarrow> (\<exists>c \<in> set (active_conns t). b = ConnObject c \<or> (\<exists>a < 16. b \<in> set (slot_blocks c (c_assemblers (the (t_heap t c)) ! a) a)))"
      using m by (intro bex_cong) auto
    also have "\<dots> \<longleftrightarrow> b \<in> ?R" unfolding slot_blocks_iff using k by (auto simp: image_iff)
    finally show "b \<in> ?L \<longleftrightarrow> b \<in> ?R" .
  qed
  then show ?thesis unfolding release_list_def owned_blocks_def set_append cache_blocks_set by auto
qed

text \<open>
  C38. Destroying a transport releases all it holds, each thing once. On well-formed tables
  \<^verbatim>\<open>transport_destroy\<close> follows only live connection pointers. It closes exactly the descriptors that
  its handles name, in this order: the watcher's stop pipe and event socket, the two ends of the message pipe and every open
  link. It has quicly free the QUIC connection of every connection once, in the order of the table,
  and frees every block of memory that belongs to the transport, to one of its connections or to one of their
  assemblers, exactly once, and no other.
\<close>

theorem transport_destroy_closes:
  assumes "table_ok t" and "release_log S N log"
  shows "\<exists>w' rs. transport_destroy S N E cr t = Inr w' \<and> log w' = log (t_world t) @ rs \<and>
    closed_fds rs = monitor_fds cr @ filter (\<lambda>fd. 0 \<le> fd) (map fst (links t)) \<and>
    freed_quics rs = map (\<lambda>c. c_quic (the (t_heap t c))) (active_conns t) \<and>
    distinct (freed_blocks rs) \<and> set (freed_blocks rs) = owned_blocks t"
proof -
  let ?rs = "map Closed (monitor_fds cr @ filter (\<lambda>fd. 0 \<le> fd) (map fst (links t))) @
    concat (map (\<lambda>c. conn_log c (the (conn_memory t c))) (active_conns t)) @
    map Freed (cache_blocks t @ (if 0 < t_fec_buf_cap t then [FecBuffer] else []) @ [TransportObject])"
  have act: "distinct (active_conns t)" "set (active_conns t) \<subseteq> dom (t_heap t)"
    using assms(1) by (cases "t_client_conn t"; auto simp: table_ok_def active_conns_def)+
  have "closed_fds ?rs = monitor_fds cr @ filter (\<lambda>fd. 0 \<le> fd) (map fst (links t))"
    by (simp only: release_append release_map release_conns append_Nil append_Nil2)
  moreover have "freed_quics ?rs = map (\<lambda>c. fst (the (conn_memory t c))) (active_conns t)"
    by (simp only: release_append release_map release_conns append_Nil append_Nil2)
  moreover have "map (\<lambda>c. fst (the (conn_memory t c))) (active_conns t) = map (\<lambda>c. c_quic (the (t_heap t c))) (active_conns t)"
    using act(2) by (intro map_cong) (auto simp: conn_memory_def)
  moreover have "freed_blocks ?rs = release_list t"
    by (simp only: release_append release_map release_conns append_Nil release_list_def)
  moreover obtain w' where "transport_destroy S N E cr t = Inr w'" "log w' = log (t_world t) @ ?rs"
    using destroy_log [OF assms, of E cr] by blast
  ultimately show ?thesis
    using release_list_distinct [OF act(1)] release_list_owned [OF act(2)]
    by (intro exI [of _ w'] exI [of _ ?rs] conjI) (simp_all only:)
qed

text \<open>A system that remembers what was released.\<close>

definition demo_close_watch :: "release list watch_os" where
  "demo_close_watch = \<lparr>nl_open = (\<lambda>w. (False, w)), nl_request = (\<lambda>b w. (False, w)), nl_recv = (\<lambda>w. (None, w)), nl_close = (\<lambda>w. w),
     wo_socket = (\<lambda>w. (None, w)), wo_bind = (\<lambda>fd w. (False, w)), wo_nonblock = (\<lambda>fd w. w), wo_recv = (\<lambda>fd w. (Inl EAGAIN, w)),
     wo_poll = (\<lambda>efd sfd w. (Inr (False, True), w)), wo_pipe = (\<lambda>w. (None, w)), wo_set_running = (\<lambda>b w. w), wo_running = (\<lambda>w. False),
     wo_thread = (\<lambda>w. (False, w)), wo_write = (\<lambda>fd bs w. w), wo_join = (\<lambda>w. w), wo_close = (\<lambda>fd w. w @ [Closed fd])\<rparr>"

definition demo_close_start :: "release list start_os" where
  "demo_close_start = \<lparr>n_read_msg = (\<lambda>w. (None, w)), n_write_msg = (\<lambda>m w. w), n_socket = (\<lambda>a w. (Some 5, w)), n_reuse_addr = (\<lambda>fd w. w),
     n_bind = (\<lambda>fd a w. (True, w)), n_nonblock = (\<lambda>fd w. w), n_if_name = (\<lambda>i w. None), n_bind_device = (\<lambda>fd name w. w),
     n_close = (\<lambda>fd w. w @ [Closed fd]), n_open_path = (\<lambda>q r a w. w),
     s_calloc = (\<lambda>w. (True, w)), s_pipe = (\<lambda>w. (Some (3, 4), w)), s_watch = demo_close_watch,
     s_pton4 = (\<lambda>h. 0), s_pton6 = (\<lambda>h. replicate 16 0),
     s_load_certificates = (\<lambda>f w. (True, w)), s_open_key = (\<lambda>f w. (True, w)), s_read_key = (\<lambda>w. (True, w)),
     s_load_ca = (\<lambda>f w. (True, w)), s_init_verifier = (\<lambda>b w. (True, w)), s_calloc_conn = (\<lambda>w. 0),
     s_connect = (\<lambda>h r l w. (Some 7, w)), s_set_data = (\<lambda>q c w. w), s_dispose_verifier = (\<lambda>w. w),
     s_free = (\<lambda>b w. w @ [Freed b]), s_free_encryptor = (\<lambda>w. w)\<rparr>"

definition demo_close_net :: "(release list, unit, nat) tick_net" where
  "demo_close_net = \<lparr>
     n_read_msg = (\<lambda>w. (None, w)), n_write_msg = (\<lambda>m w. w), n_socket = (\<lambda>a w. (None, w)), n_reuse_addr = (\<lambda>fd w. w),
     n_bind = (\<lambda>fd a w. (False, w)), n_nonblock = (\<lambda>fd w. w), n_if_name = (\<lambda>i w. None), n_bind_device = (\<lambda>fd name w. w),
     n_close = (\<lambda>fd w. w @ [Closed fd]), n_open_path = (\<lambda>q r a w. w),
     k_recvfrom = (\<lambda>fd w. (Inl EAGAIN, w)), k_decode = (\<lambda>buf off w. None), k_is_destination = (\<lambda>q l sa pkt w. False),
     k_accept = (\<lambda>l sa pkt w. (None, w)), k_calloc = (\<lambda>t. 0), k_set_data = (\<lambda>q c w. w), k_receive = (\<lambda>q l sa pkt w. w),
     k_callback = (\<lambda>q w. (None, w)),
     k_is_ready = (\<lambda>q w. True), k_send = (\<lambda>q w. (SendError, w)), k_sendto = (\<lambda>fd dg dest w. (Inr (length dg), w)),
     k_streams = (\<lambda>q w. [0]), k_free = (\<lambda>q w. w @ [QuicFreed q]), k_update_state = (\<lambda>ps b l p q a. ps)\<rparr>"

definition demo_close_env :: "(nat, nat, unit, release list) env" where
  "demo_close_env = \<lparr>
     e_fec = repetition_lib, e_alloc = (\<lambda>_. True), e_malloc = (\<lambda>_. None), e_uninit = (\<lambda>_. []), e_uninit_track = zero_track,
     e_callback = (\<lambda>ev c t. t), e_time_ns = (\<lambda>w. (0, w)), e_time_ms = (\<lambda>w. (0, w)),
     e_ingress_get = (\<lambda>s w. []), e_ingress_shift = (\<lambda>s n w. w), e_ingress_receive = (\<lambda>s off bs w. (True, w)),
     e_egress_write = (\<lambda>s bs w. w), e_egress_shutdown = (\<lambda>s w. w), e_egress_vecs = (\<lambda>s w. 0), e_sendstate_is_open = (\<lambda>s w. True),
     e_open_stream = (\<lambda>q w. (None, w)), e_reset_stream = (\<lambda>s err w. w), e_stream_id = (\<lambda>s w. s), e_stream_quic = (\<lambda>s w. 7),
     e_conn_data = (\<lambda>q w. Some 0), e_close = (\<lambda>q why w. w), e_is_closing = (\<lambda>q w. False),
     e_send_datagram = (\<lambda>q bs w. w), e_send_datagram_path = (\<lambda>q p bs w. w), e_get_stats = (\<lambda>q w. None), e_get_path_stats = (\<lambda>q p w. None),
     e_max_udp_payload = 1280, e_fp_from_int = int, e_fp_from_milli = (\<lambda>n. int n div 1000), e_fp_div = (div),
     e_owd_fp = (\<lambda>us. uint us div 1000000), e_pathflow_optimize = (\<lambda>n k ps horizon rel. ps)\<rparr>"

lemma demo_release_log: "release_log demo_close_start demo_close_net (\<lambda>w. w)"
  by (simp add: release_log_def demo_close_start_def demo_close_watch_def demo_close_net_def)

definition demo_linked_client :: "(nat, release list) transport" where
  "demo_linked_client = (blank_transport [])\<lparr>t_fds := [5, 6, 0, 0], t_num_fds := 2, t_client_conn := Some 0,
     t_heap := [0 \<mapsto> (new_conn 7)\<lparr>c_assemblers := (replicate 16 empty_assembler)[2 := empty_assembler\<lparr>fa_buffers := Some [[1]], fa_capacity_symbols := 1\<rparr>]\<rparr>]\<rparr>"

definition demo_handles :: created where
  "demo_handles = \<lparr>cr_tls = \<lparr>tls_certificate = True, tls_verifier = AcceptAny, tls_require_client_auth = False\<rparr>, cr_pipe = Some (3, 4),
     cr_watcher = Some \<lparr>wt_prev = [], wt_stop_pipe = (8, 9), wt_event_fd = 10\<rparr>\<rparr>"

theorem transport_destroy_closes_witness:
  "\<exists>rs. transport_destroy demo_close_start demo_close_net demo_close_env demo_handles demo_linked_client = Inr rs \<and>
     closed_fds rs = [8, 9, 10, 3, 4, 5, 6] \<and> freed_quics rs = [7] \<and>
     {SymbolBuffer 0 2 0, SlotBuffers 0 2, ConnObject 0, TransportObject} \<subseteq> set (freed_blocks rs)"
proof -
  have ok: "table_ok demo_linked_client"
    by (simp add: table_ok_def links_ok_def demo_linked_client_def blank_transport_def TRANSPORT_MAX_PATHS_def)
  have v: "monitor_fds demo_handles = [8, 9, 10, 3, 4]" "map fst (links demo_linked_client) = [5, 6]" "t_world demo_linked_client = []"
    by (simp_all add: monitor_fds_def demo_handles_def links_def demo_linked_client_def blank_transport_def TRANSPORT_MAX_PATHS_def numeral_2_eq_2)
  have c: "active_conns demo_linked_client = [0]" "c_quic (the (t_heap demo_linked_client 0)) = 7"
    "fa_buffers (c_assemblers (the (t_heap demo_linked_client 0)) ! 2) = Some [[1]]"
    "fa_capacity_symbols (c_assemblers (the (t_heap demo_linked_client 0)) ! 2) = 1" "t_heap demo_linked_client 0 \<noteq> None"
    by (simp_all add: demo_linked_client_def blank_transport_def active_conns_def new_conn_def)
  have "{SymbolBuffer 0 2 0, SlotBuffers 0 2, ConnObject 0, TransportObject} \<subseteq> owned_blocks demo_linked_client"
    using c by (auto simp: owned_blocks_def)
  with transport_destroy_closes [OF ok demo_release_log, of demo_close_env demo_handles] v c show ?thesis by auto
qed

end
