(* ===== verification/Tick_Safety.thy ===== *)
theory Tick_Safety
  imports Tick
begin

text \<open>
  That a tick returns, what it keeps, and when it publishes a waiting group. Three inner loops of
  \<^verbatim>\<open>transport_tick\<close> end only if the outside runs dry: the sockets of queued datagrams, quicly of
  packets to send, the system of signals. \<open>tick_drains\<close> says so with two measures of the world.
\<close>

section \<open>The tick returns\<close>

text \<open>
  A read that is not refused with \<open>EAGAIN\<close> takes something off the queues, decoding a packet moves the
  offset on, and each callback takes something off what quicly has to report, streams behave as
  quicly documents with fewer than \<open>2 ^ 32\<close> bytes pending, and the application does not add to the
  queues; a batch of packets reduces what quicly has to send, an interrupted send uses up a signal, and no send
  adds to it. A socket that keeps failing with another error than \<open>EAGAIN\<close> is excluded: there the loop does not end
  (\<open>recv_loop_spins\<close>).
\<close>

definition tick_drains :: "('w, 'pkt, 'rs) tick_net \<Rightarrow> ('rs, 'rq, 'sc, 'w) env \<Rightarrow> ('w \<Rightarrow> nat) \<Rightarrow> ('w \<Rightarrow> nat) \<Rightarrow> bool" where
  "tick_drains N E inq outq \<longleftrightarrow>
     (\<forall>fd w r w1. k_recvfrom N fd w = (r, w1) \<longrightarrow> r \<noteq> Inl EAGAIN \<longrightarrow> inq w1 < inq w) \<and>
     (\<forall>buf off w pkt off'. off < length buf \<longrightarrow> k_decode N buf off w = Some (pkt, off') \<longrightarrow> off < off') \<and>
     (\<forall>l sa pkt w. inq (snd (k_accept N l sa pkt w)) \<le> inq w) \<and> (\<forall>q c w. inq (k_set_data N q c w) \<le> inq w) \<and>
     (\<forall>q l sa pkt w. inq (k_receive N q l sa pkt w) \<le> inq w) \<and>
     (\<forall>q w cb w1. k_callback N q w = (Some cb, w1) \<longrightarrow>
        inq w1 < inq w \<and> callback_small E cb w1 \<and> quiet_queue E inq \<and> (\<forall>s. stream_buffer E s)) \<and>
     (\<forall>q w w1. k_callback N q w = (None, w1) \<longrightarrow> inq w1 \<le> inq w) \<and>
     (\<forall>q w dest src dgs w1. k_send N q w = (Packets dest src dgs, w1) \<longrightarrow> dgs \<noteq> [] \<longrightarrow> outq w1 < outq w) \<and>
     (\<forall>fd dg dest w w1. k_sendto N fd dg dest w = (Inl EINTR, w1) \<longrightarrow> outq w1 < outq w) \<and>
     (\<forall>fd dg dest w. outq (snd (k_sendto N fd dg dest w)) \<le> outq w)"

lemma tick_drainsD:
  assumes "tick_drains N E inq outq"
  shows "k_recvfrom N fd w = (r, w1) \<Longrightarrow> r \<noteq> Inl EAGAIN \<Longrightarrow> inq w1 < inq w"
    and "off < length buf \<Longrightarrow> k_decode N buf off w = Some (pkt, off') \<Longrightarrow> off < off'"
    and "k_send N q w = (Packets dest src dgs, w1) \<Longrightarrow> dgs \<noteq> [] \<Longrightarrow> outq w1 < outq w"
    and "k_sendto N fd dg dest w = (Inl EINTR, w1) \<Longrightarrow> outq w1 < outq w"
    and "k_sendto N fd dg dest w = (x, w1) \<Longrightarrow> outq w1 \<le> outq w"
    and "k_accept N loc sa pkt w = (a, w1) \<Longrightarrow> inq w1 \<le> inq w"
    and "k_callback N q w = (Some cb, w1) \<Longrightarrow> inq w1 < inq w" "k_callback N q w = (Some cb, w1) \<Longrightarrow> callback_small E cb w1"
    and "k_callback N q w = (None, w1) \<Longrightarrow> inq w1 \<le> inq w"
    and "k_callback N q w = (Some cb, w1) \<Longrightarrow> quiet_queue E inq" "k_callback N q w = (Some cb, w1) \<Longrightarrow> stream_buffer E s"
  using assms unfolding tick_drains_def
  by (metis, metis, metis, metis, metis snd_conv, metis snd_conv, metis, metis, metis, metis, metis)

text \<open>A socket that fails again and again with another error than \<open>EAGAIN\<close>: the loop over it does not end.\<close>

lemma recv_loop_spins:
  fixes N :: "('w, 'pkt, 'rs) tick_net" and E :: "('rs, 'rq, 'sc, 'w) env"
  assumes fails: "\<forall>w. \<exists>e w1. e \<noteq> EAGAIN \<and> k_recvfrom N fd w = (Inl e, w1)" and fd: "t_fds t ! i = fd"
  shows "recv_loop N E i t = None"
proof (rule ccontr)
  assume "recv_loop N E i t \<noteq> None"
  then obtain r where run: "recv_loop N E i t = Some r" by auto
  let ?P = "\<lambda>(M :: ('w, 'pkt, 'rs) tick_net) (D :: ('rs, 'rq, 'sc, 'w) env) (i :: nat) (t :: ('rs, 'w) transport)
    (r :: fault + ('rs, 'w) transport). M = N \<longrightarrow> t_fds t ! i \<noteq> fd"
  have "?P N E i t r"
  proof (rule recv_loop.raw_induct [where P = ?P, OF _ run], intro impI notI)
    fix rec :: "('w, 'pkt, 'rs) tick_net \<Rightarrow> ('rs, 'rq, 'sc, 'w) env \<Rightarrow> nat \<Rightarrow> ('rs, 'w) transport \<Rightarrow> (fault + ('rs, 'w) transport) option"
      and M D i t r
    assume ih: "\<And>M D i t r. rec M D i t = Some r \<Longrightarrow> ?P M D i t r"
      and body: "(case k_recvfrom M (t_fds t ! i) (t_world t) of
        (Inl e, w1) \<Rightarrow> if e = EAGAIN then Some (Inr (t\<lparr>t_world := w1\<rparr>)) else rec M D i (t\<lparr>t_world := w1\<rparr>)
      | (Inr (buf, sa), w1) \<Rightarrow>
          (case decode_loop M D i sa buf 0 (t\<lparr>t_world := w1\<rparr>) of
             None \<Rightarrow> None
           | Some (Inl e) \<Rightarrow> Some (Inl e)
           | Some (Inr t1) \<Rightarrow> rec M D i t1)) = Some r" and MN: "M = N" and "t_fds t ! i = fd"
    moreover from fails obtain e w1 where "e \<noteq> EAGAIN" "k_recvfrom N fd (t_world t) = (Inl e, w1)" by blast
    ultimately have "rec M D i (t\<lparr>t_world := w1\<rparr>) = Some r" by simp
    from ih [OF this] MN \<open>t_fds t ! i = fd\<close> show False by simp
  qed
  with fd show False by simp
qed

lemma accept_conn_inq:
  "tick_drains N E inq outq \<Longrightarrow> accept_conn N loc sa pkt t = (target, t') \<Longrightarrow> inq (t_world t') \<le> inq (t_world t)"
proof -
  assume d: "tick_drains N E inq outq" and a: "accept_conn N loc sa pkt t = (target, t')"
  obtain r w1 where r: "k_accept N loc sa pkt (t_world t) = (r, w1)" by force
  have w1: "inq w1 \<le> inq (t_world t)" by (rule tick_drainsD(6) [OF d r])
  have "inq (k_set_data N q c w1) \<le> inq w1" for q c using d by (simp add: tick_drains_def)
  from order_trans [OF this w1] w1 a r show ?thesis by (auto simp: accept_conn_def Let_def split: if_splits option.splits)
qed

lemma run_callbacks_returns:
  assumes "tick_drains N E inq outq"
  shows "\<exists>r. run_callbacks N E q t = Some r \<and> (\<forall>t'. r = Inr t' \<longrightarrow> inq (t_world t') \<le> inq (t_world t))"
proof (induction "inq (t_world t)" arbitrary: t rule: less_induct)
  case less
  note d = tick_drainsD [OF assms]
  obtain x w1 where x: "k_callback N q (t_world t) = (x, w1)" by force
  show ?case
  proof (cases x)
    case None
    with x d(9) [of q "t_world t" w1] show ?thesis by (subst run_callbacks.simps) simp
  next
    case (Some cb)
    have lt: "inq w1 < inq (t_world t)" and small: "callback_small E cb w1" and quiet: "quiet_queue E inq" and str: "\<forall>s. stream_buffer E s"
      using d(7,8,10,11) x Some by blast+
    obtain h where h: "on_callback E q cb (t\<lparr>t_world := w1\<rparr>) = Some h"
      using on_callback_returns [OF str, of cb "t\<lparr>t_world := w1\<rparr>" q] small by auto
    show ?thesis
    proof (cases h)
      case (Inl e)
      with x Some h show ?thesis by (subst run_callbacks.simps) simp
    next
      case (Inr t1)
      with cq.callback h quiet have "inq (t_world t1) \<le> inq w1" by fastforce
      with lt have "inq (t_world t1) < inq (t_world t)" by linarith
      from less [OF this] obtain r where "run_callbacks N E q t1 = Some r" "\<forall>t'. r = Inr t' \<longrightarrow> inq (t_world t') \<le> inq (t_world t1)" by blast
      with x Some h Inr \<open>inq (t_world t1) < inq (t_world t)\<close> show ?thesis by (subst run_callbacks.simps) fastforce
    qed
  qed
qed

lemma handle_packet_returns:
  assumes "tick_drains N E inq outq"
  shows "\<exists>r. handle_packet N E i sa pkt t = Some r \<and> (\<forall>t'. r = Inr t' \<longrightarrow> inq (t_world t') \<le> inq (t_world t))"
proof (cases "packet_target N (t_local_addrs t ! i) sa pkt t")
  case (Inr p)
  obtain target t1 where p: "p = (target, t1)" by force
  have le: "inq (t_world t1) \<le> inq (t_world t)"
    using Inr p accept_conn_inq [OF assms] by (auto simp: packet_target_def bindf_Inr_iff split: if_splits option.splits)
  show ?thesis
  proof (cases "\<exists>c k. target = Some c \<and> t_heap t1 c = Some k")
    case False
    with Inr p le show ?thesis by (auto simp: handle_packet_def split: option.splits)
  next
    case True
    then obtain c k where c: "target = Some c" "t_heap t1 c = Some k" by blast
    let ?t2 = "upd_world (k_receive N (c_quic k) (t_local_addrs t1 ! i) sa pkt) t1"
    have "inq (t_world ?t2) \<le> inq (t_world t1)" using assms by (simp add: tick_drains_def)
    with le have le2: "inq (t_world ?t2) \<le> inq (t_world t)" by linarith
    obtain r where "run_callbacks N E (c_quic k) ?t2 = Some r" "\<forall>t'. r = Inr t' \<longrightarrow> inq (t_world t') \<le> inq (t_world ?t2)"
      using run_callbacks_returns [OF assms] by blast
    with Inr p c le2 show ?thesis by (auto simp: handle_packet_def intro: order_trans)
  qed
qed (simp add: handle_packet_def)

lemma decode_loop_returns:
  assumes "tick_drains N E inq outq"
  shows "\<exists>r. decode_loop N E i sa buf off t = Some r \<and> (\<forall>t'. r = Inr t' \<longrightarrow> inq (t_world t') \<le> inq (t_world t))"
proof (induction "length buf - off" arbitrary: off t rule: less_induct)
  case less
  show ?case
  proof (cases "off < length buf \<and> k_decode N buf off (t_world t) \<noteq> None")
    case False
    then show ?thesis by (subst decode_loop.simps) (auto split: option.splits)
  next
    case True
    then obtain pkt off' where d: "k_decode N buf off (t_world t) = Some (pkt, off')" by auto
    with True have "off < off'" using tick_drainsD(2) [OF assms] by blast
    with True have dec: "length buf - off' < length buf - off" by linarith
    obtain r where r: "handle_packet N E i sa pkt t = Some r" "\<forall>t'. r = Inr t' \<longrightarrow> inq (t_world t') \<le> inq (t_world t)"
      using handle_packet_returns [OF assms, of i sa pkt t] by blast
    show ?thesis
    proof (cases r)
      case (Inl e)
      with True d r show ?thesis by (subst decode_loop.simps) simp
    next
      case (Inr t1)
      from less [OF dec, of t1] obtain r2 where "decode_loop N E i sa buf off' t1 = Some r2"
        "\<forall>t'. r2 = Inr t' \<longrightarrow> inq (t_world t') \<le> inq (t_world t1)" by blast
      with True d r Inr show ?thesis by (subst decode_loop.simps) (auto intro: order_trans)
    qed
  qed
qed

lemma recv_loop_returns:
  assumes "tick_drains N E inq outq"
  shows "\<exists>r. recv_loop N E i t = Some r"
proof (induction "inq (t_world t)" arbitrary: t rule: less_induct)
  case less
  obtain x w1 where x: "k_recvfrom N (t_fds t ! i) (t_world t) = (x, w1)" by force
  show ?case
  proof (cases "x = Inl EAGAIN")
    case True
    with x show ?thesis by (subst recv_loop.simps) simp
  next
    case False
    then have lt: "inq w1 < inq (t_world t)" by (rule tick_drainsD(1) [OF assms x])
    show ?thesis
    proof (cases x)
      case (Inl e)
      with False x less [of "t\<lparr>t_world := w1\<rparr>"] lt show ?thesis by (subst recv_loop.simps) simp
    next
      case (Inr p)
      obtain buf sa where p: "p = (buf, sa)" by force
      obtain r where r: "decode_loop N E i sa buf 0 (t\<lparr>t_world := w1\<rparr>) = Some r" "\<forall>t'. r = Inr t' \<longrightarrow> inq (t_world t') \<le> inq w1"
        using decode_loop_returns [OF assms, of i sa buf 0 "t\<lparr>t_world := w1\<rparr>"] by auto
      show ?thesis
      proof (cases r)
        case Inl2: (Inl e)
        with x Inr p r show ?thesis by (subst recv_loop.simps) simp
      next
        case Inr2: (Inr t1)
        then have "inq (t_world t1) < inq (t_world t)" using r(2) lt by fastforce
        from less [OF this] x Inr p r Inr2 show ?thesis by (subst recv_loop.simps) simp
      qed
    qed
  qed
qed

lemma receive_links_returns:
  assumes laws: "tick_laws N E" and "tick_drains N E inq outq"
  shows "table_ok t \<Longrightarrow> \<exists>r. receive_links N E i t = Some r"
proof (induction "TRANSPORT_MAX_PATHS - i" arbitrary: i t rule: less_induct)
  case less
  show ?case
  proof (cases "i < t_num_fds t")
    case False
    then show ?thesis by (subst receive_links.simps) simp
  next
    case True
    then have dec: "TRANSPORT_MAX_PATHS - (i + 1) < TRANSPORT_MAX_PATHS - i"
      using less.prems by (auto simp: table_ok_def links_ok_def)
    obtain r where r: "recv_loop N E i t = Some r" using recv_loop_returns [OF assms(2)] by blast
    have g: "grows_or_fault N E t r" by (rule recv_loop_grows [OF laws r less.prems])
    show ?thesis
    proof (cases r)
      case (Inl e)
      with True r show ?thesis by (subst receive_links.simps) simp
    next
      case (Inr t1)
      with g have "table_ok t1" by (simp add: grows_ok)
      from less.hyps [OF dec this] True r Inr show ?thesis by (subst receive_links.simps) simp
    qed
  qed
qed

lemma sendto_retry_returns:
  assumes "tick_drains N E inq outq"
  shows "\<exists>w'. sendto_retry N fd dg dest w = Some w' \<and> outq w' \<le> outq w"
proof (induction "outq w" arbitrary: w rule: less_induct)
  case less
  obtain x w1 where x: "k_sendto N fd dg dest w = (x, w1)" by force
  have le: "outq w1 \<le> outq w" by (rule tick_drainsD(5) [OF assms x])
  show ?case
  proof (cases "x = Inl EINTR")
    case True
    then have "outq w1 < outq w" using tick_drainsD(4) [OF assms] x by simp
    from less [OF this] x True le show ?thesis by (subst sendto_retry.simps) auto
  next
    case False
    with x le show ?thesis by (subst sendto_retry.simps) (auto split: sum.splits)
  qed
qed

lemma send_dgrams_returns:
  assumes "tick_drains N E inq outq"
  shows "\<exists>t'. send_dgrams N dest src dgs t = Some t' \<and> outq (t_world t') \<le> outq (t_world t)"
proof (induction dgs arbitrary: t)
  case (Cons dg dgs)
  obtain w1 where w1: "sendto_retry N (out_fd src t) dg dest (t_world t) = Some w1" "outq w1 \<le> outq (t_world t)"
    using sendto_retry_returns [OF assms] by blast
  with Cons [of "t\<lparr>t_world := w1\<rparr>"] show ?case by (auto intro: order_trans)
qed simp

lemma send_loop_returns:
  assumes "tick_drains N E inq outq"
  shows "\<exists>r. send_loop N E c t = Some r"
proof (induction "outq (t_world t)" arbitrary: t rule: less_induct)
  case less
  show ?case
  proof (cases "t_heap t c")
    case None
    then show ?thesis by (subst send_loop.simps) simp
  next
    case (Some k)
    obtain x w1 where x: "k_send N (c_quic k) (t_world t) = (x, w1)" by force
    show ?thesis
    proof (cases "\<exists>dest src dgs. x = Packets dest src dgs \<and> dgs \<noteq> []")
      case True
      then obtain dest src dgs where p: "x = Packets dest src dgs" "dgs \<noteq> []" by blast
      then have lt: "outq w1 < outq (t_world t)" using tick_drainsD(3) [OF assms] x by blast
      obtain t2 where t2: "send_dgrams N dest src dgs (t\<lparr>t_world := w1\<rparr>) = Some t2" "outq (t_world t2) \<le> outq w1"
        using send_dgrams_returns [OF assms, of dest src dgs "t\<lparr>t_world := w1\<rparr>"] by auto
      from less [of t2] t2 lt p x Some show ?thesis by (subst send_loop.simps) (simp add: Let_def)
    next
      case False
      with Some x show ?thesis by (subst send_loop.simps) (auto simp: Let_def split: send_result.splits)
    qed
  qed
qed

lemma run_conn_returns: "tick_drains N E inq outq \<Longrightarrow> \<exists>r. run_conn N E c t = Some r"
  using send_loop_returns by (auto simp: run_conn_def Let_def split: option.splits)

text \<open>A turn of the loop either moves on or removes a connection: the number of turns left falls.\<close>

lemma conns_loop_returns:
  assumes laws: "tick_laws N E" and drains: "tick_drains N E inq outq"
  shows "table_ok t \<Longrightarrow> (t_is_server t \<longrightarrow> n = length (t_conns t)) \<Longrightarrow> \<exists>r. conns_loop N E i n t = Some r"
proof (induction "n - i" arbitrary: i n t rule: less_induct)
  case less
  have runs: "\<exists>gone t1. run_conn N E c t = Some (Inr (gone, t1)) \<and> run_frame c gone t t1" if "c \<in> dom (t_heap t)" for c
    using run_conn_returns [OF drains, of c t] run_conn_run [OF laws _ that] by metis
  show ?case
  proof (cases "n \<le> i")
    case True
    then show ?thesis by (subst conns_loop.simps) simp
  next
    case lt: False
    then have dec: "n - (i + 1) < n - i" by simp
    show ?thesis
    proof (cases "t_is_server t")
      case srv: True
      let ?c = "t_conns t ! i"
      have i: "i < length (t_conns t)" and n: "n = length (t_conns t)" using lt less.prems(2) srv by simp_all
      then have "?c \<in> set (t_conns t)" by simp
      then have c: "?c \<in> dom (t_heap t)" "t_client_conn t = None" using less.prems(1) srv by (auto simp: table_ok_def)
      obtain gone t1 where r: "run_conn N E ?c t = Some (Inr (gone, t1))" "run_frame ?c gone t t1" using runs [OF c(1)] by blast
      show ?thesis
      proof (cases gone)
        case True
        let ?u = "t1\<lparr>t_conns := remove_at i (t_conns t1)\<rparr>"
        have sh: "shrinks t ?u" and len: "length (t_conns t1) = length (t_conns t)"
          using server_drop [OF less.prems(1) i] r(2) True c(2) by simp_all
        have "length (t_conns t1) - 1 - i < n - i" "length (t_conns ?u) = length (t_conns t1) - 1"
          using i n len by (simp_all add: remove_at_def)
        with less.hyps [of "length (t_conns t1) - 1" i ?u] sh have "\<exists>r. conns_loop N E i (length (t_conns t1) - 1) ?u = Some r"
          by (simp add: shrinks_def)
        with lt srv i r True show ?thesis by (subst conns_loop.simps) simp
      next
        case False
        then have f: "table_frame t t1" using r(2) by (simp add: run_frame_def)
        have "\<exists>r. conns_loop N E (i + 1) n t1 = Some r"
          by (rule less.hyps [OF dec table_frame_ok [OF f less.prems(1)]]) (use f n in \<open>simp add: table_frame_def\<close>)
        with lt srv i r False show ?thesis by (subst conns_loop.simps) simp
      qed
    next
      case cli: False
      show ?thesis
      proof (cases "t_client_conn t")
        case None
        with less.hyps [OF dec less.prems] lt cli show ?thesis by (subst conns_loop.simps) simp
      next
        case (Some c)
        have c: "c \<in> dom (t_heap t)" using less.prems(1) Some by (auto simp: table_ok_def)
        obtain gone t1 where r: "run_conn N E c t = Some (Inr (gone, t1))" "run_frame c gone t t1" using runs [OF c] by blast
        show ?thesis
        proof (cases gone)
          case True
          with lt cli Some r show ?thesis by (subst conns_loop.simps) simp
        next
          case False
          then have f: "table_frame t t1" using r(2) by (simp add: run_frame_def)
          have "\<exists>r. conns_loop N E (i + 1) n t1 = Some r"
            by (rule less.hyps [OF dec table_frame_ok [OF f less.prems(1)]]) (use f cli in \<open>simp add: table_frame_def\<close>)
          with lt cli Some r False show ?thesis by (subst conns_loop.simps) simp
        qed
      qed
    qed
  qed
qed

lemma tick_returns:
  assumes laws: "tick_laws N E" and ok: "table_ok t" and p: "pipe_drains N pend" and d: "tick_drains N E inq outq"
  shows "\<exists>r. transport_tick N E t = Some r"
proof (cases "flush_if_due E t")
  case (Inl e)
  then show ?thesis by (simp add: transport_tick_def)
next
  case f: (Inr t1)
  have ok1: "table_ok t1" by (rule table_frame_ok [OF flush_if_due_table [OF f] ok])
  have "\<exists>r. process_ifmon N t1 = Some r" using il.loop_terminates [OF p] by (auto simp: process_ifmon_def)
  with process_ifmon_grows [OF _ ok1] obtain t2 where t2: "process_ifmon N t1 = Some (Inr t2)" "grows t1 t2" by blast
  obtain r3 where r3: "receive_links N E 0 t2 = Some r3" using receive_links_returns [OF laws d grows_ok [OF t2(2)]] by blast
  show ?thesis
  proof (cases r3)
    case (Inl e)
    with f t2 r3 show ?thesis by (simp add: transport_tick_def)
  next
    case (Inr t3)
    have ok3: "table_ok t3" using receive_links_grows [OF laws r3 grows_ok [OF t2(2)]] Inr by (simp add: grows_ok)
    obtain t4 where t4: "update_paths N E t3 = Inr t4" "table_frame t3 t4" by (rule update_paths_frame [OF ok3])
    have "\<exists>r. conns_loop N E 0 (length (active_conns t4)) t4 = Some r"
      by (rule conns_loop_returns [OF laws d table_frame_ok [OF t4(2) ok3]]) (simp add: active_conns_def)
    with f t2 r3 Inr t4 show ?thesis by (simp add: transport_tick_def)
  qed
qed


text \<open>
  A network on which quicly gives up every connection when it is asked for packets to send. While \<open>tw_opened\<close> is
  above one a packet is queued; handling it reports the answer to an authentication on the control stream.
\<close>

definition demo_tick_net :: "(trace_world, unit, nat) tick_net" where
  "demo_tick_net = \<lparr>
     n_read_msg = (\<lambda>w. (None, w)), n_write_msg = (\<lambda>m w. w), n_socket = (\<lambda>a w. (None, w)), n_reuse_addr = (\<lambda>fd w. w),
     n_bind = (\<lambda>fd a w. (False, w)), n_nonblock = (\<lambda>fd w. w), n_if_name = (\<lambda>i w. None), n_bind_device = (\<lambda>fd name w. w),
     n_close = (\<lambda>fd w. w), n_open_path = (\<lambda>q r a w. w),
     k_recvfrom = (\<lambda>fd w. if 1 < tw_opened w then (Inr ([9], SockNone), w\<lparr>tw_opened := 1\<rparr>) else (Inl EAGAIN, w)),
     k_decode = (\<lambda>buf off w. Some ((), length buf)),
     k_is_destination = (\<lambda>q l sa pkt w. False),
     k_accept = (\<lambda>l sa pkt w. (Some 7, w)),
     k_calloc = (\<lambda>t. LEAST c. t_heap t c = None),
     k_set_data = (\<lambda>q c w. w),
     k_receive = (\<lambda>q l sa pkt w. w),
     k_callback = (\<lambda>q w. if 0 < tw_opened w \<and> tw_ingress w 0 = [] then (Some (StreamReceived 0 0 [5, 1]), w\<lparr>tw_opened := 0\<rparr>) else (None, w)),
     k_is_ready = (\<lambda>q w. True),
     k_send = (\<lambda>q w. (FreeConnection, w)),
     k_sendto = (\<lambda>fd dg dest w. (Inr (length dg), w)),
     k_streams = (\<lambda>q w. []),
     k_free = (\<lambda>q w. w),
     k_update_state = (\<lambda>ps b l p q a. ps)\<rparr>"

lemma demo_tick_laws: "tick_laws demo_tick_net trace_env"
proof -
  have "t_heap t (LEAST c. t_heap t c = None) = None" if fin: "finite (dom (t_heap t))" for t :: "(nat, trace_world) transport"
  proof -
    obtain c where "c \<notin> dom (t_heap t)" using ex_new_if_finite [OF infinite_UNIV_nat fin] by blast
    then show ?thesis by (intro LeastI [of "\<lambda>c. t_heap t c = None" c]) (simp add: dom_def)
  qed
  then show ?thesis by (simp add: tick_laws_def fresh_calloc_def app_keeps_tables_def demo_tick_net_def trace_env_def table_frame_def)
qed

lemma trace_quiet: "quiet_queue trace_env tw_opened"
  by (auto simp: quiet_queue_def io_step_iff trace_env_def)

lemma demo_tick_drains: "pipe_drains demo_tick_net (\<lambda>w. 0)" "tick_drains demo_tick_net trace_env tw_opened (\<lambda>w. 0)"
proof -
  show "pipe_drains demo_tick_net (\<lambda>w. 0)" by (simp add: pipe_drains_def demo_tick_net_def)
  have "callback_small trace_env (StreamReceived 0 0 [5, 1]) w" if "tw_ingress w 0 = []" for w
    using that by (simp add: callback_small_def trace_env_def)
  then show "tick_drains demo_tick_net trace_env tw_opened (\<lambda>w. 0)"
    using trace_quiet trace_stream_buffer by (auto simp: tick_drains_def demo_tick_net_def)
qed

definition demo_control :: stream_ctx where
  "demo_control = \<lparr>sx_is_control = True, sx_header_received = False, sx_alias = 0\<rparr>"

definition demo_client :: "(nat, trace_world) transport" where
  "demo_client = (blank_transport (empty_trace\<lparr>tw_opened := 2\<rparr>))\<lparr>t_num_fds := 1, t_client_conn := Some 0, t_heap := [0 \<mapsto> new_conn 7],
     t_streams := [0 \<mapsto> demo_control]\<rparr>"

lemma demo_client_ok: "table_ok demo_client" "flush_if_due trace_env demo_client = Inr demo_client"
  by (simp_all add: table_ok_def links_ok_def demo_client_def blank_transport_def flush_if_due_def TRANSPORT_MAX_PATHS_def)

text \<open>The packet is received, and the callback marks the connection as authenticated.\<close>

definition demo_client_received :: "(nat, trace_world) transport" where
  "demo_client_received = demo_client\<lparr>t_heap := [0 \<mapsto> (new_conn 7)\<lparr>c_authenticated := True\<rparr>],
     t_world := empty_trace\<lparr>tw_events := [(0, AuthComplete True)]\<rparr>\<rparr>"

lemma demo_callback:
  "on_callback trace_env 7 (StreamReceived 0 0 [5, 1]) (demo_client\<lparr>t_world := empty_trace\<rparr>) = Some (Inr demo_client_received)"
proof -
  let ?t0 = "demo_client\<lparr>t_world := empty_trace\<lparr>tw_ingress := (tw_ingress empty_trace)(0 := [5, 1])\<rparr>\<rparr>"
  have "control_step trace_env 0 0 ?t0 = Inr (More demo_client_received)"
    by (simp add: control_step_def ctl_status_msg_def trace_env_def demo_client_def blank_transport_def put_conn_def upd_world_def
        demo_client_received_def empty_trace_def fun_eq_iff new_conn_def)
  moreover have "control_step trace_env 0 0 demo_client_received = Inr (Stop demo_client_received)"
    by (simp add: control_step_def trace_env_def demo_client_received_def empty_trace_def)
  ultimately have "parse_control_messages trace_env 0 0 ?t0 = Some (Inr demo_client_received)"
    by (simp add: parse_control_messages.simps [of trace_env 0 0 ?t0] parse_control_messages.simps [of trace_env 0 0 demo_client_received])
  then show ?thesis
    by (simp add: on_receive_def trace_env_def empty_trace_def) (simp add: demo_client_def demo_control_def)
qed

lemma demo_receives: "receive_links demo_tick_net trace_env 0 demo_client = Some (Inr demo_client_received)"
proof -
  let ?N = demo_tick_net and ?E = trace_env and ?t1 = "demo_client\<lparr>t_world := empty_trace\<lparr>tw_opened := 1\<rparr>\<rparr>"
  have "run_callbacks ?N ?E 7 demo_client_received = Some (Inr demo_client_received)"
    by (subst run_callbacks.simps) (simp add: demo_tick_net_def demo_client_received_def empty_trace_def)
  moreover have "k_callback ?N 7 (t_world ?t1) = (Some (StreamReceived 0 0 [5, 1]), empty_trace)"
    by (simp add: demo_tick_net_def empty_trace_def)
  ultimately have "run_callbacks ?N ?E 7 ?t1 = Some (Inr demo_client_received)"
    using demo_callback by (subst run_callbacks.simps) simp
  moreover have "packet_target ?N loc sa pkt ?t1 = Inr (Some 0, ?t1)" "t_heap ?t1 0 = Some (new_conn 7)" for loc sa pkt
    by (simp_all add: packet_target_def demo_client_def blank_transport_def)
  moreover have "upd_world (k_receive ?N 7 l sa pkt) ?t1 = ?t1" for l sa pkt by (simp add: demo_tick_net_def upd_world_def)
  ultimately have h: "handle_packet ?N ?E 0 SockNone () ?t1 = Some (Inr demo_client_received)"
    by (simp add: handle_packet_def new_conn_def)
  have "decode_loop ?N ?E 0 SockNone [9] 1 demo_client_received = Some (Inr demo_client_received)"
    by (subst decode_loop.simps) simp
  moreover have "k_decode ?N [9] 0 w = Some ((), 1)" for w by (simp add: demo_tick_net_def)
  ultimately have d: "decode_loop ?N ?E 0 SockNone [9] 0 ?t1 = Some (Inr demo_client_received)"
    using h by (subst decode_loop.simps) simp
  have "recv_loop ?N ?E 0 demo_client_received = Some (Inr demo_client_received)"
    by (subst recv_loop.simps) (simp add: demo_tick_net_def demo_client_received_def empty_trace_def)
  moreover have "k_recvfrom ?N fd (t_world demo_client) = (Inr ([9], SockNone), empty_trace\<lparr>tw_opened := 1\<rparr>)" for fd
    by (simp add: demo_tick_net_def demo_client_def blank_transport_def empty_trace_def)
  ultimately have "recv_loop ?N ?E 0 demo_client = Some (Inr demo_client_received)"
    using d by (subst recv_loop.simps) simp
  moreover have "t_num_fds demo_client = 1" "t_num_fds demo_client_received = 1"
    by (simp_all add: demo_client_received_def demo_client_def)
  ultimately show ?thesis
    by (subst receive_links.simps, simp, subst receive_links.simps, simp)
qed


section \<open>Waiting groups\<close>

text \<open>
  C13. No group waits longer than three milliseconds past a tick. If packets wait in the grouping buffer, a
  tick reads the clock; once three milliseconds have passed since the first of them arrived, the tick
  publishes one object that the receiving daemon splits into exactly the waiting packets, under
  the next group number, and empties the buffer; before that it leaves the buffer alone.
\<close>

theorem tick_flushes_waiting_group:
  assumes "group_inv ps t" and "ps \<noteq> []" and "e_time_ms E (t_world t) = (now, w)"
  shows "\<exists>g. deaggregate (ob_data g) = ps \<and> ob_track g = t_fec_track_id t \<and> ob_object_id g = ucast (t_fec_object_id t) \<and>
    flush_if_due E t =
      (if 3 \<le> now - t_fec_first_pkt_time t
       then bindf (publish_direct E g (t\<lparr>t_world := w, t_fec_object_id := t_fec_object_id t + 1\<rparr>)) (\<lambda>t2.
              Inr (t2\<lparr>t_fec_buf := [], t_fec_first_pkt_time := 0, t_fec_pkt_count := 0\<rparr>))
       else Inr (t\<lparr>t_world := w\<rparr>)) \<and>
    (\<forall>t2. publish_direct E g (t\<lparr>t_world := w, t_fec_object_id := t_fec_object_id t + 1\<rparr>) = Inr t2 \<longrightarrow>
       t_fec_object_id t2 = t_fec_object_id t + 1)"
proof -
  let ?g = "\<lparr>ob_track = t_fec_track_id t, ob_group_id = 0, ob_object_id = ucast (t_fec_object_id t),
     ob_data = t_fec_buf t, ob_is_keyframe = False, ob_priority = t_fec_priority t\<rparr>"
  have buf: "t_fec_buf t = concat (map group_frame ps)" and small: "\<forall>p \<in> set ps. length p < 65536"
    using assms(1) by (simp_all add: group_inv_def)
  have "t_fec_buf t \<noteq> []" using buf assms(2) by (cases ps) (auto simp: group_frame_def be_bytes_eq_Nil)
  then have f: "flush_if_due E t =
      (if 3 \<le> now - t_fec_first_pkt_time t
       then bindf (publish_direct E ?g (t\<lparr>t_world := w, t_fec_object_id := t_fec_object_id t + 1\<rparr>)) (\<lambda>t2.
              Inr (t2\<lparr>t_fec_buf := [], t_fec_first_pkt_time := 0, t_fec_pkt_count := 0\<rparr>))
       else Inr (t\<lparr>t_world := w\<rparr>))"
    using assms(3) by (simp add: flush_if_due_def flush_fec_buffer_def Let_def)
  have d: "deaggregate (ob_data ?g) = ps" using buf deaggregate_frames [OF small] by simp
  have n: "\<forall>t2. publish_direct E ?g (t\<lparr>t_world := w, t_fec_object_id := t_fec_object_id t + 1\<rparr>) = Inr t2 \<longrightarrow>
      t_fec_object_id t2 = t_fec_object_id t + 1"
    by (auto dest!: publish_direct_frame simp: same_group_def)
  show ?thesis by (rule exI [of _ ?g], intro conjI d f n) simp_all
qed

definition demo_waiting :: "(nat, trace_world) transport" where
  "demo_waiting = (blank_transport (empty_trace\<lparr>tw_time := 9\<rparr>))\<lparr>t_fec_buf := group_frame [1, 2], t_fec_buf_cap := 4096,
     t_fec_pkt_count := 1, t_fec_first_pkt_time := 5, t_fec_track_id := demo_data_track\<rparr>"

theorem tick_flushes_waiting_group_witness:
  "\<exists>g. deaggregate (ob_data g) = [[1, 2]] \<and> flush_if_due trace_env demo_waiting =
     bindf (publish_direct trace_env g (demo_waiting\<lparr>t_world := empty_trace\<lparr>tw_time := 10\<rparr>, t_fec_object_id := 1\<rparr>)) (\<lambda>t2.
       Inr (t2\<lparr>t_fec_buf := [], t_fec_first_pkt_time := 0, t_fec_pkt_count := 0\<rparr>))"
proof -
  have inv: "group_inv [[1, 2]] demo_waiting" by (simp add: group_inv_def demo_waiting_def blank_transport_def group_frame_def)
  have clock: "e_time_ms trace_env (t_world demo_waiting) = (9, empty_trace\<lparr>tw_time := 10\<rparr>)"
    by (simp add: trace_env_def demo_waiting_def blank_transport_def)
  have id: "t_fec_object_id demo_waiting = 0" "t_fec_first_pkt_time demo_waiting = 5"
    by (simp_all add: demo_waiting_def blank_transport_def)
  from tick_flushes_waiting_group [OF inv _ clock] show ?thesis by (auto simp: id)
qed

end
