(* ===== verification/Pipe.thy ===== *)
theory Pipe
  imports Daemon Tund
begin

text \<open>
  The daemon and the tunnel helper joined by the local data pipe: a packet read from the device reaches
  the daemon's data handler, and the packets of an object received from a peer reach the device. The
  two ends run in different processes, so each has a world of its own; what ties them together is
  that the bytes one end has written are the bytes the other finds on its descriptor.
\<close>

section \<open>From the device to the daemon\<close>

text \<open>
  C28. A tunnelled packet reaches the daemon unchanged. When the device gives the helper a packet of at
  most 2048 bytes, the helper puts one frame on its socket, and the daemon's pipe, serving a
  registered client whose socket starts with that frame, calls the daemon's data handler exactly once,
  with that packet, the helper's priority and the track the helper registered, and leaves the bytes
  after the frame.
\<close>

theorem tunnel_packet_reaches_daemon:
  assumes "os_read os tun_fd 2048 (tu_world t) = (Inr packet, w1)" and "packet \<noteq> []" and "length packet \<le> 2048"
    and "tu_uds t \<noteq> -1" and "out_stream os (tu_uds t) out pat" and "blocking os (tu_uds t)"
    and "uc_active (du_clients d ! i)" and "uc_fd (du_clients d ! i) = fd" and "fd \<noteq> -1" and "in_stream os' fd avail pat'"
  shows "\<exists>frame t'. uplink os cfg tun_fd t = Some (False, t') \<and> tu_uds t' = tu_uds t \<and> out (tu_world t') = out w1 @ frame \<and>
    (avail v = frame @ rest \<longrightarrow> (\<exists>v'. avail v' = rest \<and>
       serve_client os' (on_data_packet E) i (d, ctx, v) =
         Some (bindf (on_data_packet E (uc_track (du_clients d ! i)) packet (td_priority cfg) ctx)
           (\<lambda>ctx'. Inr (d\<lparr>du_payload_cap := max (du_payload_cap d) (length packet)\<rparr>, ctx', v')))))"
proof -
  obtain w' where w': "uplink os cfg tun_fd t = Some (False, t\<lparr>tu_world := w'\<rparr>)" "out w' = out w1 @ uds_frame (td_priority cfg) packet"
    by (rule uplink_frame [OF assms(1,2,4-6)])
  have len: "length packet < 2 ^ 32" using assms(3) by simp
  have "\<exists>v'. avail v' = rest \<and> serve_client os' (on_data_packet E) i (d, ctx, v) =
         Some (bindf (on_data_packet E (uc_track (du_clients d ! i)) packet (td_priority cfg) ctx)
           (\<lambda>ctx'. Inr (d\<lparr>du_payload_cap := max (du_payload_cap d) (length packet)\<rparr>, ctx', v')))"
    if av: "avail v = uds_frame (td_priority cfg) packet @ rest"
  proof -
    obtain v' where "serve_client os' (on_data_packet E) i (d, ctx, v) =
         Some (bindf (on_data_packet E (uc_track (du_clients d ! i)) packet (td_priority cfg) ctx)
           (\<lambda>ctx'. Inr (d\<lparr>du_payload_cap := max (du_payload_cap d) (length packet)\<rparr>, ctx', v')))" "avail v' = rest"
      by (rule serve_client_frame [OF assms(7-10) av len assms(2)])
    then show ?thesis by blast
  qed
  with w' show ?thesis
    by (intro exI [of _ "uds_frame (td_priority cfg) packet"] exI [of _ "t\<lparr>tu_world := w'\<rparr>"]) simp
qed

definition demo_daemon :: "('rs, unit) daemon" where
  "demo_daemon = \<lparr>dm_object_id = 0, dm_rr_path = 0, dm_world = (), dm_transports = []\<rparr>"

theorem tunnel_packet_reaches_daemon_witness:
  "\<forall>E. \<exists>t' v'. uplink (pipe_os 64) tund_defaults 100 \<lparr>tu_uds = 7, tu_seq = 0, tu_world = (demo_pipes [])\<lparr>pp_rx := [[1, 2, 3]]\<rparr>\<rparr> = Some (False, t') \<and>
     pp_out (tu_world t') 7 = uds_frame 1 [1, 2, 3] \<and>
     serve_client (pipe_os 3) (on_data_packet E) 0 (demo_table, demo_daemon, demo_pipes (uds_frame 1 [1, 2, 3])) =
       Some (Inr (demo_table\<lparr>du_payload_cap := 3\<rparr>, demo_daemon\<lparr>dm_object_id := 1\<rparr>, v'))"
proof
  fix E
  let ?w = "(demo_pipes [])\<lparr>pp_rx := [[1, 2, 3]]\<rparr>" and ?v = "demo_pipes (uds_frame 1 [1, 2, 3])"
  let ?t = "\<lparr>tu_uds = 7, tu_seq = 0, tu_world = ?w\<rparr> :: pipes tund"
  have rd: "os_read (pipe_os 64) 100 2048 (tu_world ?t) = (Inr [1, 2, 3], ?w\<lparr>pp_rx := []\<rparr>)" by (simp add: pipe_os_def)
  have c: "uc_active (du_clients demo_table ! 0)" "uc_fd (du_clients demo_table ! 0) = 7" and cap: "du_payload_cap demo_table = 0"
    by (simp_all add: demo_table_def demo_helper_def demo_uds_eq)
  have str: "out_stream (pipe_os 64) (tu_uds ?t) (\<lambda>w. pp_out w 7) (\<lambda>_. 0)" "blocking (pipe_os 64) (tu_uds ?t)"
    using pipe_out_stream [of 64 7] pipe_blocking [of 64 7] by simp_all
  have h: "on_data_packet E tr p pr demo_daemon = Inr (demo_daemon\<lparr>dm_object_id := 1\<rparr>)" for tr p pr
    by (simp add: on_data_packet_def demo_daemon_def)
  have inp: "in_stream (pipe_os 3) 7 (\<lambda>w. pp_in w 7) (\<lambda>_. 0)" by (rule pipe_in_stream) simp_all
  have wrote: "case uplink (pipe_os 64) tund_defaults 100 ?t of Some (b, t') \<Rightarrow> pp_out (tu_world t') 7 = uds_frame 1 [1, 2, 3] | None \<Rightarrow> False"
    by code_simp
  obtain frame t' where "uplink (pipe_os 64) tund_defaults 100 ?t = Some (False, t')" "pp_out (tu_world t') 7 = frame"
    "uds_frame 1 [1, 2, 3] = frame \<Longrightarrow> (\<exists>v'. serve_client (pipe_os 3) (on_data_packet E) 0 (demo_table, demo_daemon, ?v) =
        Some (Inr (demo_table\<lparr>du_payload_cap := 3\<rparr>, demo_daemon\<lparr>dm_object_id := 1\<rparr>, v')))"
    using tunnel_packet_reaches_daemon [OF rd _ _ _ str c _ inp, of tund_defaults ?v "[]" E demo_daemon] cap
    by (auto simp: demo_pipes_def h tund_defaults_def)
  then show "\<exists>t' v'. uplink (pipe_os 64) tund_defaults 100 ?t = Some (False, t') \<and> pp_out (tu_world t') 7 = uds_frame 1 [1, 2, 3] \<and>
     serve_client (pipe_os 3) (on_data_packet E) 0 (demo_table, demo_daemon, ?v) =
       Some (Inr (demo_table\<lparr>du_payload_cap := 3\<rparr>, demo_daemon\<lparr>dm_object_id := 1\<rparr>, v'))"
    using wrote by auto
qed

section \<open>From the daemon to the device\<close>

text \<open>\<^verbatim>\<open>data_uds_send\<close> as the daemon's forwarding operation: the result is ignored.\<close>

definition pipe_send :: "'w os \<Rightarrow> data_uds \<Rightarrow> moq_track_id \<Rightarrow> bytes \<Rightarrow> u8 \<Rightarrow> 'w \<Rightarrow> 'w" where
  "pipe_send os d track buf priority w =
     (case data_uds_send os (Some d) track buf priority w of Some (ok, w') \<Rightarrow> w' | None \<Rightarrow> w)"

lemma pipe_send_frame:
  assumes "send_target track d = fd" "fd \<noteq> -1" "out_stream os fd out pat"
  shows "out (pipe_send os d track buf priority w) = out w @ uds_frame priority buf"
proof -
  obtain w' where "data_uds_send os (Some d) track buf priority w = Some (True, w')" "out w' = out w @ uds_frame priority buf"
    by (rule data_uds_send_frame [OF assms])
  then show ?thesis by (simp add: pipe_send_def)
qed

lemma pipe_sends_frames:
  assumes "send_target track d = fd" "fd \<noteq> -1" "out_stream os fd out pat"
  shows "out (t_world (fold (\<lambda>p t. upd_world (pipe_send os d track p priority) t) ps t)) =
    out (t_world t) @ concat (map (uds_frame priority) ps)"
  by (induction ps arbitrary: t) (simp_all add: upd_world_def pipe_send_frame [OF assms])

text \<open>
  C27. The packets of a received object reach the tunnel device. The daemon splits an object received on
  a grouped data track whose bytes are the frames of the packets \<open>ps\<close>, and puts one pipe frame per packet
  on the socket of the helper serving the track; a connected helper whose socket starts with those bytes
  writes exactly the packets \<open>ps\<close>, in order, to its device within as many turns of its loop, and leaves
  what follows them.
\<close>

theorem received_packets_reach_tunnel:
  assumes "dc_has_pipe D" and "dc_pipe_send D = pipe_send os d" and "tk_type track = MOQ_TRACK_DATA"
    and "tk_flags track AND MOQ_TRACK_FLAG_FEC_ENABLED \<noteq> 0" and "ob_data obj = concat (map group_frame ps)"
    and "\<forall>p \<in> set ps. length p \<le> 2048"
    and "send_target track d = fd" and "fd \<noteq> -1" and "out_stream os fd out pat"
    and "tunnel_link os' tun_fd (tu_uds u) avail sink pat'" and "\<not> td_mock cfg"
  shows "\<exists>frames. out (t_world (forward_object D track obj t)) = out (t_world t) @ frames \<and>
    (avail (tu_world u) = frames @ rest \<longrightarrow>
      (\<exists>w'. tund_turns (length ps) os' cfg tun_fd u = Some (More (u\<lparr>tu_world := w'\<rparr>)) \<and>
        sink w' = sink (tu_world u) @ ps \<and> avail w' = rest))"
proof -
  have "\<forall>p \<in> set ps. length p < 65536" using assms(6) by auto
  then have split: "deaggregate (ob_data obj) = ps" using assms(5) by (simp add: deaggregate_frames)
  have "out (t_world (forward_object D track obj t)) = out (t_world t) @ concat (map (uds_frame (ob_priority obj)) ps)"
    using assms(1-4) pipe_sends_frames [OF assms(7-9)] by (simp add: forward_object_def split)
  then show ?thesis
    using tund_turns_deliver [OF assms(10) [unfolded tunnel_link_def] assms(11,6)] by auto
qed

definition demo_pipe_ctx :: "pipes daemon_ctx" where
  "demo_pipe_ctx = \<lparr>dc_subscribe_tracks = [], dc_use_reliable = False, dc_has_pipe = True, dc_pipe_send = pipe_send (pipe_os 3) demo_table\<rparr>"

definition demo_group :: moq_object where
  "demo_group = \<lparr>ob_track = uc_track (demo_helper 8 [98]), ob_group_id = 0, ob_object_id = 0,
     ob_data = concat (map group_frame [[1, 2], [3]]), ob_is_keyframe = False, ob_priority = 1\<rparr>"

theorem received_packets_reach_tunnel_witness:
  "\<forall>t :: ('rs, pipes) transport. \<exists>frames w'.
     pp_out (t_world (forward_object demo_pipe_ctx (ob_track demo_group) demo_group t)) 8 = pp_out (t_world t) 8 @ frames \<and>
     tund_turns 2 (pipe_os 64) tund_defaults 101 \<lparr>tu_uds = 7, tu_seq = 0, tu_world = demo_pipes frames\<rparr> =
       Some (More \<lparr>tu_uds = 7, tu_seq = 0, tu_world = w'\<rparr>) \<and> pp_tx w' = [[1, 2], [3]]"
proof
  fix t :: "('rs, pipes) transport"
  let ?fs = "concat (map (uds_frame 1) [[1, 2], [3]])"
  let ?u = "\<lparr>tu_uds = 7, tu_seq = 0, tu_world = demo_pipes ?fs\<rparr> :: pipes tund"
  have target: "send_target (ob_track demo_group) demo_table = 8" by code_simp
  have tr: "tk_type (ob_track demo_group) = MOQ_TRACK_DATA" "tk_flags (ob_track demo_group) AND MOQ_TRACK_FLAG_FEC_ENABLED \<noteq> 0"
    "ob_data demo_group = concat (map group_frame [[1, 2], [3]])"
    by (simp_all add: demo_group_def demo_helper_def track_consts)
  have ctx: "dc_has_pipe demo_pipe_ctx" "dc_pipe_send demo_pipe_ctx = pipe_send (pipe_os 3) demo_table"
    and small: "\<forall>p \<in> set [[1, 2], [3]]. length (p :: bytes) \<le> 2048" and mock: "\<not> td_mock tund_defaults"
    by (simp_all add: demo_pipe_ctx_def tund_defaults_def)
  have out: "out_stream (pipe_os 3) 8 (\<lambda>w. pp_out w 8) (\<lambda>_. 0)" by (rule pipe_out_stream) simp_all
  have link: "tunnel_link (pipe_os 64) 101 (tu_uds ?u) (\<lambda>w. pp_in w 7) pp_tx (\<lambda>_. 0)"
    using pipe_tunnel_link [of 64 101 7] by simp
  from received_packets_reach_tunnel [OF ctx tr small target _ out link mock, of t "[]"]
  obtain frames where f: "pp_out (t_world (forward_object demo_pipe_ctx (ob_track demo_group) demo_group t)) 8 = pp_out (t_world t) 8 @ frames"
    "?fs = frames \<Longrightarrow> (\<exists>w'. tund_turns 2 (pipe_os 64) tund_defaults 101 ?u = Some (More (?u\<lparr>tu_world := w'\<rparr>)) \<and> pp_tx w' = [[1, 2], [3]])"
    by (auto simp: demo_pipes_def numeral_2_eq_2)
  have d: "deaggregate (ob_data demo_group) = [[1, 2], [3]]" using deaggregate_frames [of "[[1, 2], [3]]"] tr(3) by simp
  have pr: "ob_priority demo_group = 1" by (simp add: demo_group_def)
  have "pp_out (t_world (forward_object demo_pipe_ctx (ob_track demo_group) demo_group t)) 8 = pp_out (t_world t) 8 @ ?fs"
    using pipe_sends_frames [OF target _ out, of "1" "[[1, 2], [3]]" t] ctx tr(1,2)
    unfolding forward_object_def d pr by simp
  with f(1) have "?fs = frames" by simp
  with f show "\<exists>frames w'. pp_out (t_world (forward_object demo_pipe_ctx (ob_track demo_group) demo_group t)) 8 = pp_out (t_world t) 8 @ frames \<and>
     tund_turns 2 (pipe_os 64) tund_defaults 101 \<lparr>tu_uds = 7, tu_seq = 0, tu_world = demo_pipes frames\<rparr> =
       Some (More \<lparr>tu_uds = 7, tu_seq = 0, tu_world = w'\<rparr>) \<and> pp_tx w' = [[1, 2], [3]]" by auto
qed

end
