(* ===== verification/Daemon_Main.thy ===== *)
theory Daemon_Main
  imports Lifecycle Tick_Safety Pipe
begin

text \<open>
  The daemon's \<^verbatim>\<open>main\<close>: the command line, the transports it creates, and its loop, which serves
  the local data pipe and ticks every transport. The transports share the outside world \<open>'w\<close>, in which
  forwarding to the helpers writes; accepting and reading the helpers' sockets is the world \<open>'v\<close> of the pipe.
\<close>

section \<open>The command line\<close>

definition MAX_TRANSPORTS :: nat where "MAX_TRANSPORTS = 16"

record daemon_cfg =
  g_listen_port :: int
  g_listen_host :: cstr
  g_peers :: "cstr list"
  g_cert :: cstr
  g_key :: cstr
  g_ca :: "cstr option"
  g_verify_peer :: bool
  g_socket :: cstr
  g_tracks :: "cstr list"
  g_reliable :: bool

definition daemon_defaults :: daemon_cfg where
  "daemon_defaults = \<lparr>g_listen_port = -1, g_listen_host = chars ''0.0.0.0'', g_peers = [], g_cert = chars ''t/assets/server.crt'',
     g_key = chars ''t/assets/server.key'', g_ca = None, g_verify_peer = False, g_socket = chars ''bishlink-data'', g_tracks = [],
     g_reliable = False\<rparr>"

text \<open>
  One argument: whether it took the next one too, and the new settings. A peer or track beyond the limit
  does not take its value, which is then read as an argument of its own.
\<close>

definition daemon_option :: "cstr \<Rightarrow> cstr list \<Rightarrow> daemon_cfg \<Rightarrow> bool \<times> daemon_cfg" where
  "daemon_option a as c =
     (if a = chars ''--listen'' \<and> as \<noteq> [] then (True, c\<lparr>g_listen_port := atoi (hd as)\<rparr>)
      else if a = chars ''--bind'' \<and> as \<noteq> [] then (True, c\<lparr>g_listen_host := hd as\<rparr>)
      else if a = chars ''--cert'' \<and> as \<noteq> [] then (True, c\<lparr>g_cert := hd as\<rparr>)
      else if a = chars ''--key'' \<and> as \<noteq> [] then (True, c\<lparr>g_key := hd as\<rparr>)
      else if a = chars ''--ca'' \<and> as \<noteq> [] then (True, c\<lparr>g_ca := Some (hd as)\<rparr>)
      else if a = chars ''--verify-peer'' then (False, c\<lparr>g_verify_peer := True\<rparr>)
      else if (a = chars ''--socket'' \<or> a = chars ''-s'') \<and> as \<noteq> [] then (True, c\<lparr>g_socket := hd as\<rparr>)
      else if a = chars ''--peer'' \<and> as \<noteq> []
      then (if length (g_peers c) < MAX_TRANSPORTS - 1 then (True, c\<lparr>g_peers := g_peers c @ [hd as]\<rparr>) else (False, c))
      else if a = chars ''--track'' \<and> as \<noteq> []
      then (if length (g_tracks c) < 15 then (True, c\<lparr>g_tracks := g_tracks c @ [cstr_copy 64 (hd as)]\<rparr>) else (False, c))
      else if a = chars ''--reliable'' then (False, c\<lparr>g_reliable := True\<rparr>)
      else (False, c))"

fun daemon_args :: "cstr list \<Rightarrow> daemon_cfg \<Rightarrow> daemon_cfg" where
  "daemon_args [] c = c"
| "daemon_args (a # as) c = (let (took, c') = daemon_option a as c in daemon_args (if took then tl as else as) c')"

definition daemon_config :: "cstr list \<Rightarrow> daemon_cfg" where
  "daemon_config argv =
     (let c = daemon_args (tl argv) daemon_defaults
      in if g_tracks c = [] then c\<lparr>g_tracks := [chars ''bishnc/default'', chars ''tund/tun0'', []]\<rparr> else c)"

section \<open>Creating the transports\<close>

definition server_config :: "daemon_cfg \<Rightarrow> config" where
  "server_config g = \<lparr>cf_bind_hosts = [g_listen_host g], cf_remote_hosts = [], cf_port = of_int (g_listen_port g),
     cf_cert_file = Some (g_cert g), cf_key_file = Some (g_key g), cf_ca_file = g_ca g, cf_verify_peer = g_verify_peer g\<rparr>"

text \<open>The host and the port of a peer: cut at the first colon, 8888 by default.\<close>

definition parse_peer :: "cstr \<Rightarrow> cstr \<times> int" where
  "parse_peer peer =
     (let s = cstr_copy 256 peer; host = takeWhile (\<lambda>b. b \<noteq> 58) s
      in (host, if 58 \<in> set s then atoi (drop (length host + 1) s) else 8888))"

definition client_config :: "daemon_cfg \<Rightarrow> cstr \<Rightarrow> config" where
  "client_config g peer =
     (let (host, port) = parse_peer peer
      in \<lparr>cf_bind_hosts = [chars ''0.0.0.0''], cf_remote_hosts = [host], cf_port = of_int port,
          cf_cert_file = Some (g_cert g), cf_key_file = Some (g_key g), cf_ca_file = g_ca g, cf_verify_peer = g_verify_peer g\<rparr>)"

text \<open>A peer whose transport cannot be created is skipped.\<close>

fun create_clients ::
  "'w start_os \<Rightarrow> ('rs, 'rq, 'sc, 'w) env \<Rightarrow> daemon_cfg \<Rightarrow> cstr list \<Rightarrow> 'w \<Rightarrow> fault + (created \<times> ('rs, 'w) transport) list \<times> 'w" where
  "create_clients S E g [] w = Inr ([], w)"
| "create_clients S E g (p # ps) w =
     bindf (transport_create S E (client_config g p) w) (\<lambda>(r, w1).
       bindf (create_clients S E g ps w1) (\<lambda>(xs, w2). Inr (case r of None \<Rightarrow> xs | Some x \<Rightarrow> x # xs, w2)))"

text \<open>\<open>None\<close> is the exit with status 1: the listener fails, or there is no transport.\<close>

definition create_transports ::
  "'w start_os \<Rightarrow> ('rs, 'rq, 'sc, 'w) env \<Rightarrow> daemon_cfg \<Rightarrow> 'w \<Rightarrow> fault + (created \<times> ('rs, 'w) transport) list option \<times> 'w" where
  "create_transports S E g w =
     bindf (if 0 < g_listen_port g
            then bindf (transport_create S E (server_config g) w) (\<lambda>(r, w1). Inr (map_option (\<lambda>x. [x]) r, w1))
            else Inr (Some [], w)) (\<lambda>(srv, w1).
       case srv of
         None \<Rightarrow> Inr (None, w1)
       | Some xs \<Rightarrow> bindf (create_clients S E g (g_peers g) w1) (\<lambda>(ys, w2). Inr (if xs @ ys = [] then None else Some (xs @ ys), w2)))"

section \<open>The loop\<close>

text \<open>
  The daemon's event handler as the callback of its transports. A transport context's flag
  \<^verbatim>\<open>is_server\<close> is that of its transport, since only the listener is created without a remote host.
\<close>

definition daemon_callback ::
  "'w os \<Rightarrow> daemon_cfg \<Rightarrow> data_uds \<Rightarrow> ('rs, 'rq, 'sc, 'w) env \<Rightarrow> ('rs, 'rq, 'sc, 'w) env" where
  "daemon_callback os g d E = E\<lparr>e_callback := (\<lambda>ev c t. on_transport_event E
     \<lparr>dc_subscribe_tracks = g_tracks g, dc_use_reliable = g_reliable g, dc_has_pipe = True, dc_pipe_send = pipe_send os d\<rparr>
     (t_is_server t) ev c t)\<rparr>"

fun tick_all ::
  "('w, 'pkt, 'rs) tick_net \<Rightarrow> ('rs, 'rq, 'sc, 'w) env \<Rightarrow> nat \<Rightarrow> 'w \<Rightarrow> ('rs, 'w) transport list \<Rightarrow>
   (fault + nat \<times> 'w \<times> ('rs, 'w) transport list) option" where
  "tick_all N E rr w [] = Some (Inr (rr, w, []))"
| "tick_all N E rr w (t # ts) =
     bindr (transport_tick N E (enter rr w t)) (\<lambda>t'.
       bindr (tick_all N E (t_rr_path t') (t_world t') ts) (\<lambda>(rr', w', ts'). Some (Inr (rr', w', t' # ts'))))"

definition daemon_turn ::
  "'v os \<Rightarrow> 'w os \<Rightarrow> ('w, 'pkt, 'rs) tick_net \<Rightarrow> ('rs, 'rq, 'sc, 'w) env \<Rightarrow> daemon_cfg \<Rightarrow>
   data_uds \<times> ('rs, 'w) daemon \<times> 'v \<Rightarrow> (fault + data_uds \<times> ('rs, 'w) daemon \<times> 'v) option" where
  "daemon_turn pipe_sys os N E g = (\<lambda>(d, ctx, v).
     bindr (data_uds_tick pipe_sys (on_data_packet (daemon_callback os g d E)) (Some (on_is_track_ready (daemon_callback os g d E))) d ctx v)
       (\<lambda>(d1, ctx1, v1).
         bindr (tick_all N (daemon_callback os g d1 E) (dm_rr_path ctx1) (dm_world ctx1) (dm_transports ctx1)) (\<lambda>(rr, w, ts).
           Some (Inr (d1, ctx1\<lparr>dm_rr_path := rr, dm_world := w, dm_transports := ts\<rparr>, v1)))))"

text \<open>Everything up to the loop: the result is the state the loop starts in.\<close>

definition daemon_start ::
  "'w start_os \<Rightarrow> 'v os \<Rightarrow> ('rs, 'rq, 'sc, 'w) env \<Rightarrow> daemon_cfg \<Rightarrow> 'w \<Rightarrow> 'v \<Rightarrow>
   fault + (data_uds \<times> ('rs, 'w) daemon \<times> 'v) option" where
  "daemon_start S pipe_sys E g w v =
     bindf (create_transports S E g w) (\<lambda>(r, w1).
       Inr (case r of
              None \<Rightarrow> None
            | Some xs \<Rightarrow>
                (case data_uds_create pipe_sys (g_socket g) v of
                   (None, v1) \<Rightarrow> None
                 | (Some d, v1) \<Rightarrow> Some (d, \<lparr>dm_object_id = 0, dm_rr_path = 0, dm_world = w1, dm_transports = map snd xs\<rparr>, v1))))"

section \<open>The command line stays within bounds\<close>

definition cfg_bounded :: "daemon_cfg \<Rightarrow> bool" where
  "cfg_bounded c \<longleftrightarrow> length (g_peers c) < MAX_TRANSPORTS \<and> length (g_tracks c) \<le> 15 \<and> (\<forall>n \<in> set (g_tracks c). length n < 64)"

lemma snd_ifI: "(b \<Longrightarrow> P (snd x)) \<Longrightarrow> (\<not> b \<Longrightarrow> P (snd y)) \<Longrightarrow> P (snd (if b then x else y))"
  by simp

lemma daemon_option_bounded: "cfg_bounded c \<Longrightarrow> cfg_bounded (snd (daemon_option a as c))"
  unfolding daemon_option_def
  by (intro snd_ifI [where P = cfg_bounded]) (simp_all add: cfg_bounded_def cstr_copy_def MAX_TRANSPORTS_def)

interpretation daemon_opts: option_loop daemon_option daemon_args
  by unfold_locales simp_all

lemma daemon_args_bounded: "cfg_bounded c \<Longrightarrow> cfg_bounded (daemon_args as c)"
  by (rule daemon_opts.loop_invariant [where Q = "\<lambda>_. True"]) (simp_all add: daemon_option_bounded)

lemma daemon_config_bounded: "cfg_bounded (daemon_config argv)" "g_tracks (daemon_config argv) \<noteq> []"
proof -
  have "cfg_bounded daemon_defaults" by (simp add: cfg_bounded_def daemon_defaults_def MAX_TRANSPORTS_def)
  from daemon_args_bounded [OF this, of "tl argv"] show "cfg_bounded (daemon_config argv)"
    by (auto simp: daemon_config_def Let_def cfg_bounded_def chars_def)
  show "g_tracks (daemon_config argv) \<noteq> []" by (simp add: daemon_config_def Let_def)
qed

section \<open>Callbacks leave the tables alone\<close>

lemma table_frame_enter: "table_frame t (enter rr w t)"
  by (simp add: table_frame_def enter_def)

lemma fold_table_frame: "(\<And>x t. table_frame t (f x t)) \<Longrightarrow> table_frame t (fold f xs t)"
  by (induction xs arbitrary: t) (auto intro: table_frame_trans)

lemma write_track_msg_table: "table_frame t (write_track_msg E s kind al track t)"
  by (auto simp: write_track_msg_def Let_def intro: table_frame_trans [OF table_frame_io(2) table_frame_io(2)])

lemma send_auth_table: "table_frame t (snd (transport_send_auth E c token t))"
  by (auto simp: transport_send_auth_def Let_def split: option.splits intro: table_frame_trans [OF table_frame_io(2) table_frame_io(2)])

lemma open_control_live: "open_control E c t = Some (k, s) \<Longrightarrow> t_heap t c = Some k"
  by (auto simp: open_control_def split: option.splits if_splits)

lemma respond_auth_table: "table_frame t (snd (transport_respond_auth E c success t))"
proof (cases "open_control E c t")
  case (Some ks)
  obtain k s where ks: "ks = (k, s)" by force
  have "t_heap (upd_world f t) c = Some k" for f using open_control_live Some ks by fastforce
  then have "table_frame (upd_world f t) (put_conn c k' (upd_world f t))" for f k' by (rule table_frame_io(5))
  then have "table_frame t (put_conn c k' (upd_world f t))" for f k' using table_frame_trans [OF table_frame_io(2)] by blast
  moreover have "table_frame t (upd_world h (upd_world f t))" for f h by (rule table_frame_trans [OF table_frame_io(2) table_frame_io(2)])
  ultimately show ?thesis using Some ks by (simp add: transport_respond_auth_def Let_def)
qed (simp add: transport_respond_auth_def)

lemma subscribe_conn_table: "table_frame t (subscribe_conn E track c t)"
proof (cases "open_control E c t")
  case (Some ks)
  obtain k s where ks: "ks = (k, s)" by force
  have "t_heap t c = Some k" using open_control_live Some ks by fastforce
  then have "table_frame t (write_track_msg E s 1 al track (put_conn c k' t))" for al k'
    using table_frame_trans [OF table_frame_io(5) write_track_msg_table] by blast
  with Some ks show ?thesis by (simp add: subscribe_conn_def split: prod.splits)
qed (simp add: subscribe_conn_def)

lemma transport_subscribe_table: "table_frame t (snd (transport_subscribe E track t))"
  using subscribe_conn_table fold_table_frame [of "subscribe_conn E track"]
  by (auto simp: transport_subscribe_def split: option.splits)

lemma on_transport_event_table: "table_frame t (on_transport_event E D srv ev c t)"
proof -
  have sub: "table_frame t (subscribe_to_tracks E D t)" for t
    unfolding subscribe_to_tracks_def by (rule fold_table_frame) (rule transport_subscribe_table)
  have fwd: "table_frame t (forward_object D track obj t)" for track obj
    unfolding forward_object_def by (auto intro: fold_table_frame)
  have "table_frame t (snd (transport_respond_auth E c b (if b then subscribe_to_tracks E D t else t)))" for b
    using table_frame_trans [OF sub respond_auth_table] respond_auth_table by (cases b) auto
  with sub fwd send_auth_table show ?thesis
    unfolding on_transport_event_def by (auto simp: Let_def split: transport_event.splits)
qed

lemma daemon_callback_laws: "fresh_calloc N \<Longrightarrow> tick_laws N (daemon_callback os g d E)"
  by (simp add: tick_laws_def app_keeps_tables_def daemon_callback_def on_transport_event_table)

lemma transport_publish_table:
  assumes "transport_publish E obj t = Inr (ok, t')"
  shows "table_frame t t'"
proof (cases "publish_grouped E obj t")
  case True
  obtain b t1 where g: "group_packet E obj t = (b, t1)" by force
  then have f: "table_frame t t1"
    by (auto simp: group_packet_def Let_def table_frame_def split: prod.splits if_splits)
  show ?thesis
  proof (cases b)
    case False
    with True g f assms show ?thesis by (simp add: transport_publish_def)
  next
    case b: True
    show ?thesis
    proof (cases "4 \<le> t_fec_pkt_count t1 \<or> 4000 \<le> length (t_fec_buf t1)")
      case True2: True
      with True g b assms have "flush_fec_buffer E t1 = Inr t'" by (auto simp: transport_publish_def bindf_Inr_iff)
      with table_frame_trans [OF f flush_fec_buffer_table] show ?thesis by blast
    next
      case False
      with True g b f assms show ?thesis by (simp add: transport_publish_def)
    qed
  qed
next
  case False
  then show ?thesis using assms publish_direct_table by (auto simp: transport_publish_def bindf_Inr_iff)
qed

section \<open>Set-up\<close>

lemma client_config_hosts:
  "length (cf_bind_hosts (client_config g p)) = 1" "length (cf_remote_hosts (client_config g p)) = 1"
  by (simp_all add: client_config_def split: prod.splits)

lemma created_table:
  assumes "length (cf_bind_hosts cf) \<le> 4" "length (cf_remote_hosts cf) \<le> 4"
  obtains r w' where "transport_create S E cf w = Inr (r, w')"
    "\<forall>x. r = Some x \<longrightarrow> table_ok (snd x) \<and> t_is_server (snd x) = (cf_remote_hosts cf = [])"
proof -
  obtain r w' where c: "transport_create S E cf w = Inr (r, w')"
    "\<And>cr t. r = Some (cr, t) \<Longrightarrow> transport_ready E t \<and> t_is_server t = (cf_remote_hosts cf = [])"
    using create_ready [OF assms, of S E w] by metis
  have "table_ok (snd x) \<and> t_is_server (snd x) = (cf_remote_hosts cf = [])" if "r = Some x" for x
    using c(2) [of "fst x" "snd x"] that by (simp add: transport_ready_def)
  then show ?thesis using that [OF c(1)] by blast
qed

lemma create_clients_ok:
  "\<exists>xs w'. create_clients S E g ps w = Inr (xs, w') \<and> length xs \<le> length ps \<and> (\<forall>x \<in> set xs. table_ok (snd x) \<and> \<not> t_is_server (snd x))"
proof (induction ps arbitrary: w)
  case (Cons p ps)
  have hosts: "length (cf_bind_hosts (client_config g p)) \<le> 4" "length (cf_remote_hosts (client_config g p)) \<le> 4"
    "cf_remote_hosts (client_config g p) \<noteq> []"
    using client_config_hosts [of g p] by auto
  obtain r w1 where r: "transport_create S E (client_config g p) w = Inr (r, w1)"
    "\<forall>x. r = Some x \<longrightarrow> table_ok (snd x) \<and> t_is_server (snd x) = (cf_remote_hosts (client_config g p) = [])"
    by (rule created_table [OF hosts(1,2), of S E w])
  obtain xs w2 where xs: "create_clients S E g ps w1 = Inr (xs, w2)" "length xs \<le> length ps"
    "\<forall>x \<in> set xs. table_ok (snd x) \<and> \<not> t_is_server (snd x)" using Cons by blast
  let ?ys = "case r of None \<Rightarrow> xs | Some x \<Rightarrow> x # xs"
  have "create_clients S E g (p # ps) w = Inr (?ys, w2)" using r(1) xs(1) by simp
  moreover have "length ?ys \<le> length (p # ps)" using xs(2) by (simp split: option.splits)
  moreover have "\<forall>x \<in> set ?ys. table_ok (snd x) \<and> \<not> t_is_server (snd x)" using xs(3) r(2) hosts(3) by (simp split: option.splits)
  ultimately show ?case by blast
qed simp

text \<open>The transports: the listener first if there is one, then clients; at most as many as the table holds.\<close>

definition transports_ok :: "bool \<Rightarrow> ('rs, 'w) transport list \<Rightarrow> bool" where
  "transports_ok listens ts \<longleftrightarrow> ts \<noteq> [] \<and> length ts \<le> MAX_TRANSPORTS \<and> (\<forall>t \<in> set ts. table_ok t) \<and>
     (\<forall>i < length ts. t_is_server (ts ! i) \<longleftrightarrow> i = 0 \<and> listens)"

lemma transports_okI:
  assumes "set (map snd xs) \<subseteq> {t. table_ok t \<and> t_is_server t}" "set (map snd ys) \<subseteq> {t. table_ok t \<and> \<not> t_is_server t}"
    and "length xs = (if b then 1 else 0)" "length ys < MAX_TRANSPORTS" "xs @ ys \<noteq> []"
  shows "transports_ok b (map snd (xs @ ys))"
proof -
  have srv: "t_is_server (map snd (xs @ ys) ! i) \<longleftrightarrow> i = 0 \<and> b" if "i < length (xs @ ys)" for i
  proof (cases "i < length xs")
    case True
    then have "map snd xs ! i \<in> set (map snd xs)" by (intro nth_mem) simp
    with assms(1) have "t_is_server (map snd xs ! i)" by blast
    with True assms(3) show ?thesis by (auto simp: nth_append split: if_splits)
  next
    case False
    then have "map snd ys ! (i - length xs) \<in> set (map snd ys)" using that by (intro nth_mem) simp
    with assms(2) have "\<not> t_is_server (map snd ys ! (i - length xs))" by blast
    with False assms(3) that show ?thesis by (auto simp: nth_append split: if_splits)
  qed
  have "table_ok t" if "t \<in> set (map snd (xs @ ys))" for t using that assms(1,2) by auto
  moreover have "length (map snd (xs @ ys)) \<le> MAX_TRANSPORTS" using assms(3,4) by (simp split: if_splits)
  ultimately show ?thesis using srv assms(5) by (simp add: transports_ok_def)
qed

lemma create_transports_ok:
  fixes S :: "'w start_os" and E :: "('rs, 'rq, 'sc, 'w) env"
  assumes "cfg_bounded g"
  shows "\<exists>r w'. create_transports S E g w = Inr (r, w') \<and> (\<forall>xs. r = Some xs \<longrightarrow> transports_ok (0 < g_listen_port g) (map snd xs))"
proof -
  have rest: "\<exists>ys w2. create_clients S E g (g_peers g) w1 = Inr (ys, w2) \<and>
      (xs @ ys \<noteq> [] \<longrightarrow> transports_ok b (map snd (xs @ ys)))"
    if "set (map snd xs) \<subseteq> {t. table_ok t \<and> t_is_server t}" "length xs = (if b then 1 else 0)" for w1 b
      and xs :: "(created \<times> ('rs, 'w) transport) list"
  proof -
    obtain ys w2 where ys: "create_clients S E g (g_peers g) w1 = Inr (ys, w2)" "length ys \<le> length (g_peers g)"
      "\<forall>x \<in> set ys. table_ok (snd x) \<and> \<not> t_is_server (snd x)" using create_clients_ok [of S E g "g_peers g" w1] by blast
    then have "set (map snd ys) \<subseteq> {t. table_ok t \<and> \<not> t_is_server t}" "length ys < MAX_TRANSPORTS"
      using assms by (auto simp: cfg_bounded_def)
    with transports_okI [OF that(1) _ that(2)] ys(1) show ?thesis by blast
  qed
  show ?thesis
  proof (cases "0 < g_listen_port g")
    case True
    have hosts: "length (cf_bind_hosts (server_config g)) \<le> 4" "length (cf_remote_hosts (server_config g)) \<le> 4"
      "cf_remote_hosts (server_config g) = []" by (simp_all add: server_config_def)
    obtain r w1 where r: "transport_create S E (server_config g) w = Inr (r, w1)"
      "\<forall>x. r = Some x \<longrightarrow> table_ok (snd x) \<and> t_is_server (snd x) = (cf_remote_hosts (server_config g) = [])"
      by (rule created_table [OF hosts(1,2), of S E w])
    show ?thesis
    proof (cases r)
      case None
      with r(1) True show ?thesis by (simp add: create_transports_def)
    next
      case (Some x)
      obtain ys w2 where "create_clients S E g (g_peers g) w1 = Inr (ys, w2)" "transports_ok True (map snd ([x] @ ys))"
        using rest [of "[x]" True w1] r(2) Some hosts(3) by auto
      with Some r(1) True show ?thesis by (simp add: create_transports_def)
    qed
  next
    case False
    obtain ys w2 where "create_clients S E g (g_peers g) w = Inr (ys, w2)" "ys \<noteq> [] \<longrightarrow> transports_ok False (map snd ys)"
      using rest [of "[]" False w] by auto
    with False show ?thesis by (simp add: create_transports_def)
  qed
qed

section \<open>A turn keeps the tables\<close>

lemma transports_ok_step:
  assumes "transports_ok b ts" "list_all2 (\<lambda>t t'. table_ok t \<longrightarrow> table_ok t' \<and> t_is_server t' = t_is_server t) ts ts'"
  shows "transports_ok b ts'"
proof -
  have len: "length ts' = length ts" using list_all2_lengthD [OF assms(2)] by simp
  have "table_ok (ts' ! i) \<and> t_is_server (ts' ! i) = t_is_server (ts ! i)" if "i < length ts" for i
    using list_all2_nthD [OF assms(2) that] assms(1) that by (simp add: transports_ok_def)
  with assms(1) len show ?thesis by (auto simp: transports_ok_def in_set_conv_nth)
qed

lemma publish_all_frames:
  "publish_all E obj rr w ts = Inr (rr', w', ts') \<Longrightarrow> list_all2 table_frame ts ts'"
proof (induction ts arbitrary: rr w ts')
  case (Cons t ts)
  obtain ok t1 us where p: "transport_publish E obj (enter rr w t) = Inr (ok, t1)"
    "publish_all E obj (t_rr_path t1) (t_world t1) ts = Inr (rr', w', us)" "ts' = t1 # us"
    using Cons.prems by (auto simp: bindf_Inr_iff)
  have "table_frame t t1" using table_frame_trans [OF table_frame_enter transport_publish_table [OF p(1)]] .
  with Cons.IH [OF p(2)] p(3) show ?case by simp
qed simp

lemma on_data_packet_ok:
  assumes "transports_ok b (dm_transports ctx)" "on_data_packet E tr p pr ctx = Inr ctx'"
  shows "transports_ok b (dm_transports ctx')"
proof -
  obtain obj rr w ts where p: "publish_all E obj (dm_rr_path ctx) (dm_world ctx) (dm_transports ctx) = Inr (rr, w, ts)" "dm_transports ctx' = ts"
    using assms(2) by (auto simp: on_data_packet_def bindf_Inr_iff)
  have "list_all2 (\<lambda>t t'. table_ok t \<longrightarrow> table_ok t' \<and> t_is_server t' = t_is_server t) (dm_transports ctx) ts"
    by (rule list_all2_mono [OF publish_all_frames [OF p(1)]]) (metis table_frame_ok table_frame_def)
  with transports_ok_step [OF assms(1)] p(2) show ?thesis by simp
qed

lemma tick_all_ok:
  assumes laws: "tick_laws N E"
  shows "tick_all N E rr w ts = Some (Inr (rr', w', ts')) \<Longrightarrow>
    list_all2 (\<lambda>t t'. table_ok t \<longrightarrow> table_ok t' \<and> t_is_server t' = t_is_server t) ts ts'"
proof (induction ts arbitrary: rr w ts')
  case (Cons t ts)
  obtain t1 us where p: "transport_tick N E (enter rr w t) = Some (Inr t1)"
    "tick_all N E (t_rr_path t1) (t_world t1) ts = Some (Inr (rr', w', us))" "ts' = t1 # us"
    using Cons.prems by (auto simp: bindr_Inr_iff)
  have "table_ok t1 \<and> t_is_server t1 = t_is_server t" if ok: "table_ok t"
    using tick_tables [OF laws table_frame_ok [OF table_frame_enter ok] p(1)] by (simp add: enter_def)
  with Cons.IH [OF p(2)] p(3) show ?case by simp
qed simp

definition daemon_ok :: "bool \<Rightarrow> data_uds \<times> ('rs, 'w) daemon \<times> 'v \<Rightarrow> bool" where
  "daemon_ok listens = (\<lambda>(d, ctx, v). uds_ok d \<and> transports_ok listens (dm_transports ctx))"

lemma daemon_turn_ok:
  assumes "fresh_calloc N" "daemon_ok b (d, ctx, v)" "accept_fresh pipe_sys d" "daemon_turn pipe_sys os N E g (d, ctx, v) = Some (Inr x)"
  shows "daemon_ok b x"
proof -
  obtain d1 ctx1 v1 rr w ts where
    u: "data_uds_tick pipe_sys (on_data_packet (daemon_callback os g d E)) (Some (on_is_track_ready (daemon_callback os g d E))) d ctx v =
      Some (Inr (d1, ctx1, v1))"
    and t: "tick_all N (daemon_callback os g d1 E) (dm_rr_path ctx1) (dm_world ctx1) (dm_transports ctx1) = Some (Inr (rr, w, ts))"
    and x: "x = (d1, ctx1\<lparr>dm_rr_path := rr, dm_world := w, dm_transports := ts\<rparr>, v1)"
    using assms(4) by (auto simp: daemon_turn_def bindr_Inr_iff)
  have "uds_ok d1" using tick_table_step [OF _ assms(3) u] assms(2) by (simp add: daemon_ok_def table_step_def)
  moreover have "transports_ok b (dm_transports ctx1)"
    by (rule tick_owner [where I = "\<lambda>s. transports_ok b (dm_transports s)", OF _ _ u])
      (use on_data_packet_ok assms(2) in \<open>auto simp: daemon_ok_def\<close>)
  then have "transports_ok b ts" by (rule transports_ok_step [OF _ tick_all_ok [OF daemon_callback_laws [OF assms(1)] t]])
  ultimately show ?thesis by (simp add: x daemon_ok_def)
qed

text \<open>The states of the loop: a turn is taken when \<^verbatim>\<open>accept\<close> gives descriptors that are not open yet.\<close>

inductive daemon_reach ::
  "'w start_os \<Rightarrow> 'v os \<Rightarrow> 'w os \<Rightarrow> ('w, 'pkt, 'rs) tick_net \<Rightarrow> ('rs, 'rq, 'sc, 'w) env \<Rightarrow> daemon_cfg \<Rightarrow> 'w \<Rightarrow> 'v \<Rightarrow>
   data_uds \<times> ('rs, 'w) daemon \<times> 'v \<Rightarrow> bool"
  for S pipe_sys os N E g w v where
  start: "daemon_start S pipe_sys E g w v = Inr (Some x) \<Longrightarrow> daemon_reach S pipe_sys os N E g w v x"
| turn: "daemon_reach S pipe_sys os N E g w v (d, ctx, v1) \<Longrightarrow> accept_fresh pipe_sys d \<Longrightarrow>
    daemon_turn pipe_sys os N E g (d, ctx, v1) = Some (Inr x) \<Longrightarrow> daemon_reach S pipe_sys os N E g w v x"

lemma daemon_start_ok:
  assumes "cfg_bounded g"
  shows "\<exists>r. daemon_start S pipe_sys E g w v = Inr r \<and> (\<forall>x. r = Some x \<longrightarrow> daemon_ok (0 < g_listen_port g) x)"
proof -
  obtain r w1 where r: "create_transports S E g w = Inr (r, w1)" "\<forall>xs. r = Some xs \<longrightarrow> transports_ok (0 < g_listen_port g) (map snd xs)"
    using create_transports_ok [OF assms, of S E w] by blast
  obtain dp v1 where d: "data_uds_create pipe_sys (g_socket g) v = (dp, v1)" by force
  show ?thesis
  proof (cases "r = None \<or> dp = None")
    case True
    then have "daemon_start S pipe_sys E g w v = Inr None" using r(1) d by (auto simp: daemon_start_def split: option.splits)
    then show ?thesis by simp
  next
    case False
    then obtain xs dd where x: "r = Some xs" "dp = Some dd" by auto
    let ?x = "(dd, \<lparr>dm_object_id = 0, dm_rr_path = 0, dm_world = w1, dm_transports = map snd xs\<rparr>, v1)"
    have "daemon_start S pipe_sys E g w v = Inr (Some ?x)" using r(1) d x by (simp add: daemon_start_def)
    moreover have "daemon_ok (0 < g_listen_port g) ?x" using r(2) x uds_create_ok(1) d by (simp add: daemon_ok_def)
    ultimately show ?thesis by simp
  qed
qed

lemma daemon_reach_ok:
  assumes "fresh_calloc N" "cfg_bounded g"
  shows "daemon_reach S pipe_sys os N E g w v x \<Longrightarrow> daemon_ok (0 < g_listen_port g) x"
proof (induction rule: daemon_reach.induct)
  case (start x)
  then show ?case using daemon_start_ok [OF assms(2), of S pipe_sys E w v] by (metis sum.inject(2))
next
  case (turn d ctx v1 x)
  show ?case by (rule daemon_turn_ok [OF assms(1) turn(4,2,3)])
qed

text \<open>
  C11. The daemon stays well-formed for every command line. Its set-up causes no memory fault: it leaves no array,
  whatever the command line and the system's answers, and either gives up or starts the loop. In every state the
  loop reaches, through any number of turns with any packets, helpers and peers coming and going, it has
  between one and sixteen transports, the listener first if a port was given and all others
  clients, the link and connection tables of each are well-formed with all pointers live, and so is the
  table of helpers. All it needs is that a new connection object is at an address not in use.
\<close>

theorem daemon_stays_well_formed:
  "(\<exists>r. daemon_start S pipe_sys E (daemon_config argv) w v = Inr r) \<and>
   (fresh_calloc N \<and> daemon_reach S pipe_sys os N E (daemon_config argv) w v (d, ctx, v1) \<longrightarrow>
     uds_ok d \<and> dm_transports ctx \<noteq> [] \<and> length (dm_transports ctx) \<le> 16 \<and>
     (\<forall>i < length (dm_transports ctx). table_ok (dm_transports ctx ! i) \<and>
        (t_is_server (dm_transports ctx ! i) \<longleftrightarrow> i = 0 \<and> 0 < g_listen_port (daemon_config argv))))"
proof (intro conjI impI)
  show "\<exists>r. daemon_start S pipe_sys E (daemon_config argv) w v = Inr r"
    using daemon_start_ok [OF daemon_config_bounded(1), of S pipe_sys E argv w v] by blast
qed (auto simp: daemon_ok_def transports_ok_def MAX_TRANSPORTS_def dest!: daemon_reach_ok [OF _ daemon_config_bounded(1)])

text \<open>A listener on port 8888 without peers, and a first turn in which a helper registers and the network is quiet.\<close>

definition demo_quiet_net :: "(trace_world, unit, nat) tick_net" where
  "demo_quiet_net = demo_tick_net\<lparr>k_recvfrom := (\<lambda>fd w. (Inl EAGAIN, w)), k_callback := (\<lambda>q w. (None, w))\<rparr>"

lemma demo_quiet_laws: "fresh_calloc demo_quiet_net" "pipe_drains demo_quiet_net (\<lambda>w. 0)" "tick_drains demo_quiet_net E (\<lambda>w. 0) (\<lambda>w. 0)"
  "\<not> peer_fault demo_quiet_net E t e"
proof -
  show "fresh_calloc demo_quiet_net" using demo_tick_laws by (simp add: tick_laws_def fresh_calloc_def demo_quiet_net_def)
  show "pipe_drains demo_quiet_net (\<lambda>w. 0)" by (simp add: pipe_drains_def demo_quiet_net_def demo_tick_net_def)
  show "tick_drains demo_quiet_net E (\<lambda>w. 0) (\<lambda>w. 0)" by (simp add: tick_drains_def demo_quiet_net_def demo_tick_net_def)
  show "\<not> peer_fault demo_quiet_net E t e" by (simp add: peer_fault_def demo_quiet_net_def)
qed

definition demo_argv :: "cstr list" where
  "demo_argv = [chars ''bishlink'', chars ''--listen'', chars ''8888'', chars ''--peer'']"

lemma demo_daemon_started:
  assumes g: "g = daemon_config demo_argv"
  obtains d t v where "daemon_start demo_start (pipe_os 3) trace_env g empty_trace (demo_pipes bs) =
      Inr (Some (d, \<lparr>dm_object_id = 0, dm_rr_path = 0, dm_world = t_world t, dm_transports = [t]\<rparr>, v))"
    "t_fec_buf t = []" "table_ok t" "accept_fresh (pipe_os 3) d"
    "data_uds_create (pipe_os 3) (chars ''bishlink-data'') (demo_pipes bs) = (Some d, v)"
proof -
  have c: "g_listen_port g = 8888" "g_listen_host g = chars ''0.0.0.0''" "g_peers g = []" "g_socket g = chars ''bishlink-data''"
    unfolding g by code_simp+
  obtain cr t where t: "transport_create demo_start trace_env (server_config g) empty_trace = Inr (Some (cr, t), t_world t)"
    using demo_created [of "server_config g" "g_cert g" "g_key g"] c by (auto simp: server_config_def)
  obtain d v where d: "data_uds_create (pipe_os 3) (g_socket g) (demo_pipes bs) = (Some d, v)" by (simp add: data_uds_create_def pipe_os_def)
  have "transport_ready trace_env t" using create_ready [of "server_config g" demo_start trace_env empty_trace] t by (auto simp: server_config_def)
  then have "t_fec_buf t = []" "table_ok t" by (simp_all add: transport_ready_def group_inv_def)
  moreover have "accept_fresh (pipe_os 3) d" using uds_create_ok(2) [OF d] d
    by (auto simp: accept_fresh_def pipe_os_def data_uds_create_def)
  moreover have "daemon_start demo_start (pipe_os 3) trace_env g empty_trace (demo_pipes bs) =
      Inr (Some (d, \<lparr>dm_object_id = 0, dm_rr_path = 0, dm_world = t_world t, dm_transports = [t]\<rparr>, v))"
    using c t d by (simp add: daemon_start_def create_transports_def)
  ultimately show ?thesis using that d c(4) by auto
qed

lemma demo_helper_registers:
  assumes "data_uds_create (pipe_os 3) (chars ''bishlink-data'') (demo_pipes [4, 2, 2, 97, 98]) = (Some d, v)"
  shows "\<exists>d1 v1. data_uds_tick (pipe_os 3) cb (Some rdy) d ctx v = Some (Inr (d1, ctx, v1)) \<and> length (active_fds (du_clients d1)) = 1"
proof -
  have "case data_uds_create (pipe_os 3) (chars ''bishlink-data'') (demo_pipes [4, 2, 2, 97, 98]) of
     (Some d, v) \<Rightarrow> (case data_uds_tick (pipe_os 3) cb (Some rdy) d ctx v of
        Some (Inr (d1, c1, v1)) \<Rightarrow> P c1 \<longrightarrow> length (active_fds (du_clients d1)) = 1 \<and> P ctx | _ \<Rightarrow> False) | _ \<Rightarrow> False" for P
    by (code_simp; simp)
  from this [of "\<lambda>c. c \<noteq> ctx"] this [of "\<lambda>_. True"] assms show ?thesis
    by (auto split: option.splits sum.splits prod.splits)
qed

theorem daemon_stays_well_formed_witness:
  "\<forall>os. \<exists>d ctx v. daemon_reach demo_start (pipe_os 3) os demo_quiet_net trace_env (daemon_config demo_argv) empty_trace
       (demo_pipes [4, 2, 2, 97, 98]) (d, ctx, v) \<and>
     uds_ok d \<and> length (active_fds (du_clients d)) = 1 \<and> length (dm_transports ctx) = 1 \<and>
     table_ok (hd (dm_transports ctx)) \<and> t_is_server (hd (dm_transports ctx))"
proof
  fix os :: "trace_world os"
  let ?g = "daemon_config demo_argv" and ?v = "demo_pipes [4, 2, 2, 97, 98]"
  let ?R = "daemon_reach demo_start (pipe_os 3) os demo_quiet_net trace_env ?g empty_trace ?v"
  obtain d t v where s: "daemon_start demo_start (pipe_os 3) trace_env ?g empty_trace ?v =
      Inr (Some (d, \<lparr>dm_object_id = 0, dm_rr_path = 0, dm_world = t_world t, dm_transports = [t]\<rparr>, v))" (is "_ = Inr (Some (d, ?ctx, v))")
    "t_fec_buf t = []" "table_ok t" "accept_fresh (pipe_os 3) d"
    "data_uds_create (pipe_os 3) (chars ''bishlink-data'') ?v = (Some d, v)"
    by (rule demo_daemon_started [OF refl])
  let ?E = "\<lambda>d. daemon_callback os ?g d trace_env"
  obtain d1 v1 where u: "data_uds_tick (pipe_os 3) (on_data_packet (?E d)) (Some (on_is_track_ready (?E d))) d ?ctx v = Some (Inr (d1, ?ctx, v1))"
    "length (active_fds (du_clients d1)) = 1"
    using demo_helper_registers [OF s(5), of "on_data_packet (?E d)" "on_is_track_ready (?E d)" ?ctx] by blast
  let ?t = "enter 0 (t_world t) t"
  have ok: "table_ok ?t" by (rule table_frame_ok [OF table_frame_enter s(3)])
  have fl: "flush_if_due (?E d1) ?t = Inr ?t" using s(2) by (simp add: flush_if_due_def enter_def)
  note laws = daemon_callback_laws [OF demo_quiet_laws(1), of os ?g d1 trace_env]
  obtain r where r: "transport_tick demo_quiet_net (?E d1) ?t = Some r"
    using tick_returns [OF laws ok demo_quiet_laws(2,3)] by blast
  obtain t1 where "transport_tick demo_quiet_net (?E d1) ?t = Some (Inr t1)"
    using r tick_tables [OF laws ok r] fl demo_quiet_laws(4) by (cases r) auto
  then have "daemon_turn (pipe_os 3) os demo_quiet_net trace_env ?g (d, ?ctx, v) =
      Some (Inr (d1, ?ctx\<lparr>dm_rr_path := t_rr_path t1, dm_world := t_world t1, dm_transports := [t1]\<rparr>, v1))"
    using u(1) by (simp add: daemon_turn_def)
  with daemon_reach.turn [OF daemon_reach.start [OF s(1)] s(4)]
  have r: "?R (d1, ?ctx\<lparr>dm_rr_path := t_rr_path t1, dm_world := t_world t1, dm_transports := [t1]\<rparr>, v1)" by blast
  have "g_listen_port ?g = 8888" by code_simp
  then have "uds_ok d1 \<and> table_ok t1 \<and> t_is_server t1"
    using daemon_stays_well_formed [of demo_start "pipe_os 3" trace_env demo_argv empty_trace ?v demo_quiet_net] demo_quiet_laws(1) r
    by fastforce
  with r u(2) show "\<exists>d ctx v. ?R (d, ctx, v) \<and> uds_ok d \<and> length (active_fds (du_clients d)) = 1 \<and> length (dm_transports ctx) = 1 \<and>
     table_ok (hd (dm_transports ctx)) \<and> t_is_server (hd (dm_transports ctx))"
    by fastforce
qed

end
