(* ===== verification/Spec2Isabelle.thy ===== *)
theory Spec2Isabelle
  imports Handshake Ifmon_Platforms Tun_Device Daemon_Main
begin

text \<open>
  bishlink joins hosts into a mesh. Local programs hand packets to a daemon over a Unix socket; the daemon
  publishes them to its peers over QUIC, as datagrams protected by forward error correction or on reliable
  streams, over up to four local links at once; the peers' daemons hand them to their local programs. This
  development models the C sources of the library (\<^verbatim>\<open>src/src/common\<close>), the daemon (\<^verbatim>\<open>src/src/daemon\<close>)
  and the tunnel helper (\<^verbatim>\<open>src/src/host/linux\<close>) as functions on explicit states and proves what makes
  them correct. File names below are relative to \<^verbatim>\<open>src/src\<close>.

  \<^bold>\<open>Conventions.\<close> C integers are words of their width (\<open>u8\<close> to \<open>u64\<close>), or \<open>nat\<close> and \<open>int\<close> where the code keeps
  them in range; structs are records, C strings byte lists without the terminating NUL. An access outside an array or
  through a dead pointer is the value \<open>Inl\<close> of a sum with the type \<open>fault\<close>, so memory safety is the absence of
  \<open>Inl\<close>. A loop that may not end is a \<open>partial_function (option)\<close>; \<open>None\<close> is not returning, and no fuel is used:
  that a loop returns is a theorem of its own, under a measure of what the outside still holds (queued
  datagrams, callbacks still to come, pending messages, signals). Code outside the repository (quicly, picotls and OpenSSL, the two
  codec libraries, pathflow, the operating system) is a record of parameter functions over an opaque world \<open>'w\<close>; what is
  relied on is a named predicate (for instance \<open>rs_mds\<close> and \<open>rq_solves\<close> of the codecs, \<open>in_stream\<close>, \<open>out_stream\<close>, \<open>tick_laws\<close>,
  \<open>tick_drains\<close>, \<open>watch_laws\<close>, \<open>announces\<close>, \<open>release_log\<close>), and each property that has one is applied to a concrete instance by its witness.

  \<^bold>\<open>Shared theories.\<close>
  \<^item> \<open>Prelude\<close>: integer types and byte layouts, C strings, first-match scans, checked writes, \<open>fault\<close>.
  \<^item> \<open>Loops\<close>: sequencing of faulting and possibly endless operations; the locale \<open>parser_loop\<close> for loops that
    consume input (interpreted for both stream parsers and for the interface messages) and the locale
    \<open>option_loop\<close> for command lines (interpreted for the daemon and the helper).
  \<^item> \<open>Wire\<close>: the types of \<^verbatim>\<open>transport.h\<close>, the FEC header and telemetry layouts; locale \<open>fixed_codec\<close>.
  \<^item> \<open>Sockets\<close>: reading and writing loops of \<^verbatim>\<open>data_uds.c\<close> and \<^verbatim>\<open>tund.c\<close> on byte streams.

  \<^bold>\<open>The transport\<close> (\<^verbatim>\<open>common/transport_quicly.c\<close>, \<^verbatim>\<open>common/fec.c\<close>).
  \<^item> \<open>Fec\<close>: \<^verbatim>\<open>fec_create_ex\<close>, \<^verbatim>\<open>fec_encode\<close>, \<^verbatim>\<open>fec_decode\<close>; recovery from erasures for Reed-Solomon, soundness for RaptorQ.
  \<^item> \<open>Fec_Cache\<close>: \<^verbatim>\<open>get_cached_fec\<close>; the locale \<open>fec_provider\<close> shows that going through the cache cannot be noticed.
  \<^item> \<open>Arena\<close>: \<^verbatim>\<open>arena_alloc\<close>, \<^verbatim>\<open>arena_reset\<close>; blocks are disjoint and inside the buffer.
  \<^item> \<open>Subscriptions\<close>: the 32-slot table, its aliases; locale \<open>track_table\<close> and refinement of a bounded map.
  \<^item> \<open>Transport\<close>: the transport and connection records, the heap of connections, the stream callbacks.
  \<^item> \<open>Assembler\<close>, \<open>Reassembly\<close>: \<^verbatim>\<open>on_receive_datagram_frame\<close>, \<^verbatim>\<open>send_nack\<close>; the slot invariant, memory safety for
    consistent headers, delivery exactly once and intact; the overflow for inconsistent headers.
  \<^item> \<open>Control\<close>, \<open>Stream_Parsing\<close>, \<open>Handshake\<close>: \<^verbatim>\<open>parse_control_messages\<close>, \<^verbatim>\<open>parse_track_stream_messages\<close>; framing independent
    of how the stream is cut, termination, authentication gate, and agreement of senders and parser.
  \<^item> \<open>Publish\<close>, \<open>Sending\<close>, \<open>Retransmit\<close>: the public operations from \<^verbatim>\<open>transport_publish\<close> to \<^verbatim>\<open>transport_is_track_ready\<close>; each eligible
    connection is sent a code word of the object, the ring keeps the last 32 objects and requests are answered from it.
  \<^item> \<open>Links\<close>: the arrays of local sockets and how interface messages change them, \<^verbatim>\<open>on_ifmon_update\<close>, \<^verbatim>\<open>bind_to_device\<close>; refinement of a list.
  \<^item> \<open>Callbacks\<close>: the dispatch of quicly's callbacks to \<^verbatim>\<open>on_stream_open\<close>, \<^verbatim>\<open>on_receive\<close>, \<^verbatim>\<open>on_receive_datagram_frame\<close> and the others. The locale
    \<open>callback_relation\<close> shows what every callback respects; its interpretations are that the tables stay as they are and
    that nothing is added to the queues.
  \<^item> \<open>Tick\<close>, \<open>Tick_Safety\<close>: \<^verbatim>\<open>transport_tick\<close> with all its phases and \<^verbatim>\<open>transport_get_path_stats\<close>. quicly is a parameter, but the callbacks it makes
    while it handles a packet are those of \<open>Callbacks\<close>. A tick keeps the tables, faults only where publishing or a callback on the peer's data does, and returns
    if the queues outside are finite; a group that has waited long enough is published.
  \<^item> \<open>Lifecycle\<close>: \<^verbatim>\<open>transport_create\<close>, \<^verbatim>\<open>transport_destroy\<close>, \<^verbatim>\<open>load_certificate_and_key\<close>, \<^verbatim>\<open>transport_enable_qlog\<close>; a created
    transport satisfies the invariants of all components, a destroyed one has closed what its handles name, freed each QUIC connection and
    each block of its memory once.

  \<^bold>\<open>The interface monitor\<close> (\<^verbatim>\<open>common/ifmon.c\<close>).
  \<^item> \<open>Ifmon\<close>: the Linux snapshot and \<^verbatim>\<open>generate_update\<close>; an update is exactly the difference of two snapshots.
  \<^item> \<open>Ifmon_Platforms\<close>: the BSD and Windows builds; prefix lengths from netmasks, bounds, the endless BSD loop.
  \<^item> \<open>Watcher\<close>: \<^verbatim>\<open>watcher_thread_func\<close>, \<^verbatim>\<open>ifmon_watch_start\<close>, \<^verbatim>\<open>ifmon_watch_stop\<close>; a client that applies the updates knows the
    addresses of the last snapshot, and so the kernel's unless an event that announces a change is still unread.

  \<^bold>\<open>Daemon, pipe and helper\<close> (\<^verbatim>\<open>daemon/main.c\<close>, \<^verbatim>\<open>common/data_uds.c\<close>, \<^verbatim>\<open>host/linux/tund.c\<close>).
  \<^item> \<open>Daemon\<close>: \<^verbatim>\<open>on_transport_event\<close>, \<^verbatim>\<open>on_data_packet\<close>, \<^verbatim>\<open>on_is_track_ready\<close>; grouping of packets refines a queue.
  \<^item> \<open>Daemon_Main\<close>: the command line, the transports, the loop; the state relation \<open>daemon_reach\<close> and its invariant.
  \<^item> \<open>Data_Uds\<close>: the table of local programs, registration, framing and routing.
  \<^item> \<open>Tund\<close>, \<open>Tun_Device\<close>: the helper's options, registration and loop; its device on each platform.
  \<^item> \<open>Pipe\<close>: both ends joined: packets cross the pipe unchanged and in order, in both directions.

  \<^bold>\<open>This theory\<close> joins sender and receiver: a published object, its datagrams selected, reordered and repeated by the network,
  is delivered exactly once and intact as soon as enough distinct symbols arrived.

  \<^bold>\<open>Bounds.\<close> All are those of the code: 4 links, 32 connections, 32 subscriptions, 32 sent objects, 8 cached codecs,
  16 transports, 16 local programs, 16 interfaces with 16 addresses. A transport has at most four bind and
  remote hosts, which the code does not check (the daemon gives one).

  \<^bold>\<open>Not modelled.\<close> Freeing of memory outside \<^verbatim>\<open>transport_destroy\<close>, apart from connections; the contents of log messages; sleeping between turns; the
  socket library's start-up on Windows and the renaming of socket calls (\<^verbatim>\<open>portable_sockets.h\<close>); the
  interleaving of the watcher thread with the transport, beyond the pipe they share, whose messages the tick reads in the order
  written; the benchmark under \<^verbatim>\<open>src/examples\<close>, a client of the public operations without logic of the library;
  the QUIC, TLS, codec and congestion libraries.
\<close>

section \<open>From publisher to application\<close>

text \<open>The datagrams that carry the symbols of an object under one alias.\<close>

definition symbol_dgrams ::
  "moq_object \<Rightarrow> nat \<Rightarrow> nat \<Rightarrow> nat \<Rightarrow> bytes list \<Rightarrow> u8 \<Rightarrow> (fec_packet_header \<times> bytes) set" where
  "symbol_dgrams obj n k sz cw al =
     {(h, b). \<exists>s pid now. s < n \<and> h = publish_header obj al s n k sz pid now \<and> b = cw ! s}"

definition payload :: "qptr \<times> nat \<times> fec_packet_header \<times> bytes \<Rightarrow> fec_packet_header \<times> bytes" where
  "payload d = (case d of (q, pid, h, b) \<Rightarrow> (h, b))"

lemma symbols_for_payloads:
  assumes "symbols_for obj n k sz cw ss tgt ds" "\<forall>s \<in> set ss. s < n" "n \<le> 255"
  shows "payload ` set ds \<subseteq> symbol_dgrams obj n k sz cw (snd tgt)"
    and "(\<lambda>d. unat (h_symbol_index (fst (payload d)))) ` set ds = set ss"
proof -
  have "payload ` set ds \<subseteq> symbol_dgrams obj n k sz cw (snd tgt) \<and>
      (\<lambda>d. unat (h_symbol_index (fst (payload d)))) ` set ds = set ss"
    using assms(1,2) unfolding symbols_for_def
  proof (induction rule: list_all2_induct)
    case (Cons s ss d ds)
    obtain q pid h b where d: "d = (q, pid, h, b)" by (cases d)
    have h: "h = publish_header obj (snd tgt) s n k sz pid (h_send_time_ns h)" "b = cw ! s" "s < n"
      using Cons d by auto
    have "h_symbol_index h = of_nat s" by (subst h(1)) (simp add: publish_header_def)
    then have "unat (h_symbol_index h) = s" using assms(3) h(3) by (simp add: unat_of_nat)
    moreover have "(h, b) \<in> symbol_dgrams obj n k sz cw (snd tgt)"
      unfolding symbol_dgrams_def using h by blast
    ultimately show ?case using Cons d by (auto simp: payload_def)
  qed simp
  then show "payload ` set ds \<subseteq> symbol_dgrams obj n k sz cw (snd tgt)"
    "(\<lambda>d. unat (h_symbol_index (fst (payload d)))) ` set ds = set ss" by simp_all
qed

lemma symbols_for_all:
  assumes sf: "symbols_for obj n k sz cw [0..<n] tgt ds" and n: "n \<le> 255"
  shows "payload ` set ds \<subseteq> symbol_dgrams obj n k sz cw (snd tgt) \<and> length ds = n \<and>
    dgram_indices (map payload ds) = {..<n}"
proof (intro conjI)
  show "payload ` set ds \<subseteq> symbol_dgrams obj n k sz cw (snd tgt)"
    using symbols_for_payloads(1) [OF sf _ n] by simp
  show "length ds = n" using list_all2_lengthD [OF sf [unfolded symbols_for_def]] by simp
  have "(\<lambda>d. unat (h_symbol_index (fst (payload d)))) ` set ds = set [0..<n]"
    by (rule symbols_for_payloads(2) [OF sf _ n]) simp
  then show "dgram_indices (map payload ds) = {..<n}" by (simp add: image_image atLeast0LessThan)
qed

lemma symbol_dgrams_symbol:
  assumes p: "p \<in> symbol_dgrams obj n k sz cw al" and n: "n \<le> 255" and cw: "blocks_of n sz cw"
  shows "symbol_dgram (publish_header obj al 0 n k sz 0 0) sz cw p"
proof -
  obtain s pid now where s: "s < n" "p = (publish_header obj al s n k sz pid now, cw ! s)"
    using p by (auto simp: symbol_dgrams_def)
  have "length (cw ! s) = sz" using s(1) cw by (simp add: blocks_of_def)
  moreover have "unat (of_nat s :: u16) = s" "unat (of_nat n :: u16) = n" using s(1) n by (simp_all add: unat_of_nat)
  ultimately show ?thesis
    using s by (simp add: symbol_dgram_def same_object_def publish_header_def word_less_nat_alt)
qed

text \<open>
  A receiver that is ready for the object of \<open>h0\<close>: its connection is up, its slots and codec cache are
  in order, the alias names a track, and no slot holds an object of that number yet.
\<close>

definition receiver_ready ::
  "('rs, 'rq, 'sc, 'w) env \<Rightarrow> ('w \<Rightarrow> (cptr \<times> transport_event) list) \<Rightarrow> qptr \<Rightarrow> cptr \<Rightarrow> conn \<Rightarrow>
   moq_track_id \<Rightarrow> fec_packet_header \<Rightarrow> ('rs, 'w) transport \<Rightarrow> bool" where
  "receiver_ready E log q c kn track h0 u \<longleftrightarrow>
     observed E log \<and> (\<forall>n. e_alloc E n) \<and> conn_ready E q c kn u \<and> conn_asm_inv kn \<and>
     fec_cache_inv (e_fec E) (t_fec_cache u) \<and>
     find_subscription_by_alias (c_subscriptions kn) (h_track_id h0) (e_uninit_track E) = Some track \<and>
     (\<forall>a \<in> set (c_assemblers kn). \<not> asm_matches h0 a)"

lemma selection_delivers:
  assumes ready: "receiver_ready E log q c kn track (publish_header obj al 0 (k + m) k sz 0 0) u"
    and mds: "rs_mds (e_fec E)" and cw: "rs_codeword (e_fec E) k m sz data cw" "blocks_of (k + m) sz cw"
    and km: "0 < k" "k + m \<le> 255" "sz \<le> 4096" and size: "length (ob_data obj) \<le> k * sz"
    and data: "take (length (ob_data obj)) (concat data) = ob_data obj" and al: "al \<noteq> 6"
    and ps: "ps \<noteq> []" "set ps \<subseteq> symbol_dgrams obj (k + m) k sz cw al"
  shows "\<exists>u' ob. recv_datagrams E q (map dgram_bytes ps) u = Inr u' \<and>
      log (t_world u') = log (t_world u) @ evicted E c kn @
        (if k \<le> card (dgram_indices ps) then [(c, ObjectReceived (ob_track ob) ob)] else []) \<and>
      ob_data ob = ob_data obj \<and> ob_priority ob = ob_priority obj \<and>
      ob_is_keyframe ob = ob_is_keyframe obj \<and> tk_name (ob_track ob) = tk_name track"
proof -
  let ?h0 = "publish_header obj al 0 (k + m) k sz 0 0"
  let ?ob = "object_of ?h0 track data (h_priority ?h0)"
  note V = ready [unfolded receiver_ready_def]
  have "k * sz \<le> 255 * 4096" using km by (intro mult_le_mono) simp_all
  then have hs: "hdr_sizes ?h0 k m sz" "unat (h_original_size ?h0) = length (ob_data obj)" "h_track_id ?h0 = al"
    using km size by (simp_all add: hdr_sizes_def publish_header_def unat_of_nat del: of_nat_add)
  have tr: "transfer E log k m sz data cw ?h0"
    using V mds cw(1) hs size km al by (simp add: transfer_def)
  obtain p ps' where p: "ps = p # ps'" using ps(1) by (cases ps) auto
  have "\<forall>p \<in> set ps. symbol_dgram ?h0 sz cw p" using ps(2) symbol_dgrams_symbol [OF _ km(2) cw(2)] by blast
  then have "\<exists>u'. recv_datagrams E q (map dgram_bytes ps) u = Inr u' \<and>
      log (t_world u') = log (t_world u) @ evicted E c kn @ deliveries k c ?ob (dgram_indices ps)"
    unfolding p by (intro new_object_run [OF tr km(1)]) (use V hs in auto)
  moreover have "ob_data ?ob = ob_data obj" "ob_priority ?ob = ob_priority obj"
    "ob_is_keyframe ?ob = ob_is_keyframe obj" "tk_name (ob_track ?ob) = tk_name track"
    using data hs(2) by (simp_all add: object_of_def) (simp_all add: publish_header_def)
  ultimately show ?thesis unfolding deliveries_def by blast
qed

text \<open>
  C1. End to end. Publish an object as datagrams with at most 255 symbols of at most 4096 bytes. Each
  target connection is sent a datagram for every symbol of one code word, and nothing else. Let a
  receiver that shares the codec and knows the alias of one target get any non-empty selection of the
  datagrams of that code word (the ones sent here, or retransmitted later), in any order, with any
  losses and repetitions: it takes no fault, and it delivers exactly one object, with the published
  bytes, priority and keyframe mark, when as many distinct symbols arrived as there are data symbols,
  and no object otherwise.
\<close>

theorem published_object_delivered:
  assumes "sz = publish_symbol_size E" and "k = publish_data_symbols sz (length (ob_data obj))"
    and "publish_plan E obj sz k t = (ty, m, xs, t1)" and "send_ready E k m sz t" and "sz \<le> 4096"
    and "\<forall>q w. e_is_closing E q w = closing q"
    and "(p, al) \<in> set (targets closing obj t)" and "al \<noteq> 6" and "e_fec E' = e_fec E"
    and "receiver_ready E' log q c kn track (publish_header obj al 0 (k + m) k sz 0 0) u"
  shows "\<exists>t' w dss cw. publish_datagrams E obj t = Inr t' \<and>
    sends (e_time_ns E) (e_send_datagram_path E) (concat dss) w (t_world t') \<and>
    list_all2 (\<lambda>tgt ds. payload ` set ds \<subseteq> symbol_dgrams obj (k + m) k sz cw (snd tgt) \<and>
        length ds = k + m \<and> dgram_indices (map payload ds) = {..<k + m}) (targets closing obj t) dss \<and>
    (\<forall>ps. ps \<noteq> [] \<and> set ps \<subseteq> symbol_dgrams obj (k + m) k sz cw al \<longrightarrow>
       (\<exists>u' ob. recv_datagrams E' q (map dgram_bytes ps) u = Inr u' \<and>
          log (t_world u') = log (t_world u) @ evicted E' c kn @
            (if k \<le> card (dgram_indices ps) then [(c, ObjectReceived (ob_track ob) ob)] else []) \<and>
          ob_data ob = ob_data obj \<and> ob_priority ob = ob_priority obj \<and>
          ob_is_keyframe ob = ob_is_keyframe obj \<and> tk_name (ob_track ob) = tk_name track))"
proof -
  let ?cw = "object_symbols (e_fec E) k m sz (ob_data obj)"
  let ?good = "\<lambda>tgt ds. payload ` set ds \<subseteq> symbol_dgrams obj (k + m) k sz ?cw (snd tgt) \<and>
      length ds = k + m \<and> dgram_indices (map payload ds) = {..<k + m}"
  note R = assms(4) [unfolded send_ready_def]
  have km: "k + m \<le> 255" using R by simp
  obtain t5 dss a w where run: "publish_datagrams E obj t =
       Inr (let t7 = remember_sent E obj (k + m) k sz (t5\<lparr>t_arena := a, t_world := w\<rparr>)
       in t7\<lparr>t_arena := snd (arena_reset (t_arena t7))\<rparr>)"
    and s: "sends (e_time_ns E) (e_send_datagram_path E) (concat dss) (t_world t5) w"
    and all: "list_all2 (symbols_for obj (k + m) k sz ?cw [0..<k + m]) (targets closing obj t) dss"
    by (rule publish_datagrams_run [OF assms(1-4,6)], rule that)
  have good: "list_all2 ?good (targets closing obj t) dss"
    by (rule list_all2_mono [OF all], rule symbols_for_all [OF _ km])
  have "1000 \<le> sz" using assms(1) by (simp add: publish_symbol_size_def Let_def)
  then have size: "length (ob_data obj) \<le> k * sz" using assms(2) publish_data_symbols_enough [of sz] by simp
  have k: "0 < k" using assms(2) by (simp add: publish_data_symbols_def Let_def)
  have cw: "rs_codeword (e_fec E) k m sz (map (data_block (ob_data obj) (length (ob_data obj)) sz) [0..<k]) ?cw"
    "blocks_of (k + m) sz ?cw" using R by (auto intro: object_symbols_codeword)
  note deliver = selection_delivers [OF assms(10), unfolded assms(9),
      OF _ cw k km assms(5) size concat_data_blocks [OF size] assms(8)]
  let ?t7 = "remember_sent E obj (k + m) k sz (t5\<lparr>t_arena := a, t_world := w\<rparr>)"
  have "t_world ?t7 = w" by (simp add: remember_sent_def)
  then have "sends (e_time_ns E) (e_send_datagram_path E) (concat dss) (t_world t5)
      (t_world (?t7\<lparr>t_arena := snd (arena_reset (t_arena ?t7))\<rparr>))" using s by simp
  with run good deliver R show ?thesis unfolding Let_def by blast
qed

lemma demo_receiver_ready:
  "receiver_ready trace_env tw_events 7 0 (the (t_heap demo_sender 0)) demo_data_track
     (publish_header demo_object 8 0 (1 + 0) 1 1200 0 0) demo_sender"
proof -
  have "observed trace_env tw_events" by (auto simp: observed_def trace_env_def)
  moreover have "conn_ready trace_env 7 0 (the (t_heap demo_sender 0)) demo_sender"
    by (simp add: conn_ready_def trace_env_def demo_sender_def blank_transport_def)
  moreover have "find_subscription_by_alias (snd (subscribe_alias empty_subs demo_data_track)) 8 zero_track = Some demo_data_track"
    by code_simp
  ultimately show ?thesis
    using empty_fec_cache_inv [of repetition_lib]
    by (simp add: receiver_ready_def trace_env_def demo_sender_def blank_transport_def conn_asm_inv_def new_conn_def
        asm_matches_def empty_assembler_def ASSEMBLER_CACHE_SIZE_def asm_wf_def publish_header_def)
qed

theorem published_object_delivered_witness:
  "\<exists>t' u' ps ob. publish_datagrams sender_env demo_object demo_sender = Inr t' \<and>
     recv_datagrams trace_env 7 (map dgram_bytes ps) demo_sender = Inr u' \<and>
     tw_events (t_world u') = [(0, ObjectReceived (ob_track ob) ob)] \<and> ob_data ob = [44, 45]"
proof -
  let ?kn = "the (t_heap demo_sender 0)"
  obtain xs t1 where plan: "publish_plan sender_env demo_object 1200 1 demo_sender = (FEC_REED_SOLOMON, 0, xs, t1)"
    using demo_plan(3) by blast
  have cl: "\<forall>q w. e_is_closing sender_env q w = False" by (simp add: sender_env_def)
  have tgt: "(7, 8) \<in> set (targets (\<lambda>_. False) demo_object demo_sender)" by (simp add: demo_targets)
  have fec: "e_fec trace_env = e_fec sender_env" by (simp add: sender_env_def)
  obtain t' cw where pub: "publish_datagrams sender_env demo_object demo_sender = Inr t'"
    and rcv: "\<forall>ps. ps \<noteq> [] \<and> set ps \<subseteq> symbol_dgrams demo_object (1 + 0) 1 1200 cw 8 \<longrightarrow>
       (\<exists>u' ob. recv_datagrams trace_env 7 (map dgram_bytes ps) demo_sender = Inr u' \<and>
          tw_events (t_world u') = tw_events (t_world demo_sender) @ evicted trace_env 0 ?kn @
            (if 1 \<le> card (dgram_indices ps) then [(0, ObjectReceived (ob_track ob) ob)] else []) \<and>
          ob_data ob = ob_data demo_object \<and> ob_priority ob = ob_priority demo_object \<and>
          ob_is_keyframe ob = ob_is_keyframe demo_object \<and> tk_name (ob_track ob) = tk_name demo_data_track)"
    using published_object_delivered [OF demo_plan(1) [symmetric] demo_plan(2) [symmetric] plan demo_send_ready _ cl tgt
        _ fec demo_receiver_ready] by auto
  let ?ps = "[(publish_header demo_object 8 0 1 1 1200 0 0, cw ! 0)]"
  have "set ?ps \<subseteq> symbol_dgrams demo_object (1 + 0) 1 1200 cw 8" by (auto simp: symbol_dgrams_def)
  then obtain u' ob where out: "recv_datagrams trace_env 7 (map dgram_bytes ?ps) demo_sender = Inr u'"
    "tw_events (t_world u') = tw_events (t_world demo_sender) @ evicted trace_env 0 ?kn @
       (if 1 \<le> card (dgram_indices ?ps) then [(0, ObjectReceived (ob_track ob) ob)] else [])"
    "ob_data ob = ob_data demo_object"
    using rcv by blast
  have "evicted trace_env 0 ?kn = []" "tw_events (t_world demo_sender) = []"
    by (simp_all add: evicted_def evict_event_def demo_sender_def new_conn_def empty_assembler_def
        ASSEMBLER_CACHE_SIZE_def blank_transport_def empty_trace_def)
  then have "tw_events (t_world u') = [(0, ObjectReceived (ob_track ob) ob)]" using out(2) by simp
  with pub out(1,3) show ?thesis unfolding demo_object_def moq_object.simps by blast
qed

end
